(* ===== verification/Go_Prelude.thy ===== *)
theory Go_Prelude
  imports
    Main
    "HOL-Library.Sublist"
    "HOL-Library.Char_ord"
    "HOL-Library.List_Lexorder"
    "HOL-Library.Word"
begin

text \<open>
  Shared vocabulary of the development: the pieces of the Go language and of its
  standard library (package strings, strconv) that the bridge uses, with the generic
  lemmas the component theories rest on.

  A Go string is a sequence of bytes, so it is a HOL \<open>string\<close> whose characters are
  bytes; comparison of strings is the library's lexicographic order on lists, which on
  bytes is Go's.  A Go \<open>int\<close> of the target platforms has 64 bits; where a value is
  only a length or a counter that cannot leave the range it is a \<open>nat\<close>.
\<close>

named_theorems go_str \<open>characterisations of the string operations\<close>

section \<open>Package strings\<close>

definition has_prefix :: "string \<Rightarrow> string \<Rightarrow> bool" where
  "has_prefix s p = prefix p s"

definition has_suffix :: "string \<Rightarrow> string \<Rightarrow> bool" where
  "has_suffix s p = suffix p s"

definition trim_prefix :: "string \<Rightarrow> string \<Rightarrow> string" where
  "trim_prefix s p = (if has_prefix s p then drop (length p) s else s)"

definition trim_suffix :: "string \<Rightarrow> string \<Rightarrow> string" where
  "trim_suffix s p = (if has_suffix s p then take (length s - length p) s else s)"

definition trim_right :: "char \<Rightarrow> string \<Rightarrow> string" where
  "trim_right c s = rev (dropWhile (\<lambda>x. x = c) (rev s))"

text \<open>\<open>CutPrefix\<close> and \<open>CutSuffix\<close> return the rest and whether the affix was there.\<close>

definition cut_prefix :: "string \<Rightarrow> string \<Rightarrow> string option" where
  "cut_prefix s p = (if has_prefix s p then Some (drop (length p) s) else None)"

definition cut_suffix :: "string \<Rightarrow> string \<Rightarrow> string option" where
  "cut_suffix s p = (if has_suffix s p then Some (take (length s - length p) s) else None)"

text \<open>\<open>Index\<close>: the first position of a substring, \<open>None\<close> for Go's -1.\<close>

fun str_index :: "string \<Rightarrow> string \<Rightarrow> nat option" where
  "str_index [] sub = (if sub = [] then Some 0 else None)"
| "str_index (c # s) sub =
     (if prefix sub (c # s) then Some 0 else map_option Suc (str_index s sub))"

definition str_contains :: "string \<Rightarrow> string \<Rightarrow> bool" where
  "str_contains s sub = (str_index s sub \<noteq> None)"

text \<open>\<open>Cut\<close>: the text before and after the first separator.\<close>

definition str_cut :: "string \<Rightarrow> string \<Rightarrow> (string \<times> string) option" where
  "str_cut s sep =
     (case str_index s sep of
        None \<Rightarrow> None
      | Some i \<Rightarrow> Some (take i s, drop (i + length sep) s))"

text \<open>\<open>Split\<close> and \<open>SplitN\<close> on a separator of one byte.\<close>

fun split_char :: "char \<Rightarrow> string \<Rightarrow> string list" where
  "split_char c [] = [[]]"
| "split_char c (x # xs) =
     (if x = c then [] # split_char c xs
      else (case split_char c xs of [] \<Rightarrow> [[x]] | w # ws \<Rightarrow> (x # w) # ws))"

fun splitn_char :: "char \<Rightarrow> nat \<Rightarrow> string \<Rightarrow> string list" where
  "splitn_char c 0 s = []"
| "splitn_char c (Suc 0) s = [s]"
| "splitn_char c (Suc (Suc n)) s =
     (case str_cut s [c] of
        None \<Rightarrow> [s]
      | Some (before, after) \<Rightarrow> before # splitn_char c (Suc n) after)"

fun str_join :: "string list \<Rightarrow> string \<Rightarrow> string" where
  "str_join [] sep = []"
| "str_join [w] sep = w"
| "str_join (w # ws) sep = w @ sep @ str_join ws sep"

definition replace_char :: "string \<Rightarrow> char \<Rightarrow> string \<Rightarrow> string" where
  "replace_char s c by = concat (map (\<lambda>x. if x = c then by else [x]) s)"

text \<open>
  \<open>ToLower\<close> as far as comparison with ASCII text goes: two runes beyond ASCII have an ASCII
  lower case (U+0130 and U+212A); the others stay beyond ASCII and are kept as they are.
\<close>

definition ascii_lower :: "char \<Rightarrow> char" where
  "ascii_lower c =
     (if 65 \<le> (of_char c :: nat) \<and> (of_char c :: nat) \<le> 90
      then char_of ((of_char c :: nat) + 32) else c)"

fun to_lower :: "string \<Rightarrow> string" where
  "to_lower [] = []"
| "to_lower (c # s) =
     (if prefix [CHR 0xC4, CHR 0xB0] (c # s) then CHR ''i'' # to_lower (drop 1 s)
      else if prefix [CHR 0xE2, CHR 0x84, CHR 0xAA] (c # s) then CHR ''k'' # to_lower (drop 2 s)
      else ascii_lower c # to_lower s)"

section \<open>White space: TrimSpace and Fields\<close>

text \<open>
  Package strings trims and splits on the Unicode property White\_Space.  The UTF-8
  encodings of these code points are listed here; a lead byte never occurs inside the
  encoding of another code point, so testing for one of them as a prefix (or suffix) of
  the bytes is what decoding the first (last) rune and asking \<open>unicode.IsSpace\<close> does.
\<close>

definition space_runes :: "string list" where
  "space_runes =
     [[CHR 0x20], [CHR 0x09], [CHR 0x0A], [CHR 0x0B], [CHR 0x0C], [CHR 0x0D],
      [CHR 0xC2, CHR 0x85], [CHR 0xC2, CHR 0xA0], [CHR 0xE1, CHR 0x9A, CHR 0x80],
      [CHR 0xE2, CHR 0x80, CHR 0x80], [CHR 0xE2, CHR 0x80, CHR 0x81],
      [CHR 0xE2, CHR 0x80, CHR 0x82], [CHR 0xE2, CHR 0x80, CHR 0x83],
      [CHR 0xE2, CHR 0x80, CHR 0x84], [CHR 0xE2, CHR 0x80, CHR 0x85],
      [CHR 0xE2, CHR 0x80, CHR 0x86], [CHR 0xE2, CHR 0x80, CHR 0x87],
      [CHR 0xE2, CHR 0x80, CHR 0x88], [CHR 0xE2, CHR 0x80, CHR 0x89],
      [CHR 0xE2, CHR 0x80, CHR 0x8A], [CHR 0xE2, CHR 0x80, CHR 0xA8],
      [CHR 0xE2, CHR 0x80, CHR 0xA9], [CHR 0xE2, CHR 0x80, CHR 0xAF],
      [CHR 0xE2, CHR 0x81, CHR 0x9F], [CHR 0xE3, CHR 0x80, CHR 0x80]]"

definition lead_of :: "string list \<Rightarrow> string \<Rightarrow> string option" where
  "lead_of encs s = find (\<lambda>p. p \<noteq> [] \<and> prefix p s) encs"

function strip_lead :: "string list \<Rightarrow> string \<Rightarrow> string" where
  "strip_lead encs s =
     (case lead_of encs s of
        None \<Rightarrow> s
      | Some p \<Rightarrow> strip_lead encs (drop (length p) s))"
  by pat_completeness auto
termination
  by (relation "measure (\<lambda>(encs, s). length s)")
     (auto simp: lead_of_def find_Some_iff prefix_def)

declare strip_lead.simps [simp del]

definition trim_space :: "string \<Rightarrow> string" where
  "trim_space s = rev (strip_lead (map rev space_runes) (rev (strip_lead space_runes s)))"

function fields_from :: "string \<Rightarrow> string \<Rightarrow> string list" where
  "fields_from w s =
     (case s of
        [] \<Rightarrow> (if w = [] then [] else [rev w])
      | c # cs \<Rightarrow>
          (case lead_of space_runes s of
             None \<Rightarrow> fields_from (c # w) cs
           | Some p \<Rightarrow>
               (if w = [] then [] else [rev w]) @ fields_from [] (drop (length p) s)))"
  by pat_completeness auto
termination
  by (relation "measure (\<lambda>(w, s). length s)")
     (auto simp: lead_of_def find_Some_iff prefix_def)

declare fields_from.simps [simp del]

definition str_fields :: "string \<Rightarrow> string list" where
  "str_fields s = fields_from [] s"

section \<open>Package strconv: Itoa and Atoi\<close>

definition digit_char :: "nat \<Rightarrow> char" where
  "digit_char d = char_of (48 + d)"

fun utoa :: "nat \<Rightarrow> string" where
  "utoa n = (if n < 10 then [digit_char n] else utoa (n div 10) @ [digit_char (n mod 10)])"

declare utoa.simps [simp del]

definition itoa :: "int \<Rightarrow> string" where
  "itoa i = (if i < 0 then CHR ''-'' # utoa (nat (- i)) else utoa (nat i))"

definition is_digit :: "char \<Rightarrow> bool" where
  "is_digit c = (48 \<le> (of_char c :: nat) \<and> (of_char c :: nat) \<le> 57)"

definition digit_val :: "char \<Rightarrow> nat" where
  "digit_val c = (of_char c :: nat) - 48"

definition digits_val :: "string \<Rightarrow> nat" where
  "digits_val s = foldl (\<lambda>n c. 10 * n + digit_val c) 0 s"

text \<open>
  \<open>Atoi\<close> takes an optional sign and at least one decimal digit, and fails when the
  value does not fit a 64-bit signed integer.
\<close>

definition atoi :: "string \<Rightarrow> int option" where
  "atoi s =
     (let neg = (case s of c # _ \<Rightarrow> c = CHR ''-'' | [] \<Rightarrow> False);
          ds = (case s of c # cs \<Rightarrow> if c = CHR ''-'' \<or> c = CHR ''+'' then cs else s | [] \<Rightarrow> []);
          v = (if neg then - int (digits_val ds) else int (digits_val ds))
      in if ds \<noteq> [] \<and> list_all is_digit ds \<and> - (2 ^ 63) \<le> v \<and> v < 2 ^ 63 then Some v else None)"

section \<open>Lemmas: affixes, search and splitting\<close>

lemma has_prefix_append [simp, go_str]: "has_prefix (p @ s) p"
  by (simp add: has_prefix_def)

lemma has_prefix_iff [go_str]: "has_prefix s p \<longleftrightarrow> (\<exists>r. s = p @ r)"
  by (auto simp: has_prefix_def prefix_def)

lemma trim_prefix_append [simp, go_str]: "trim_prefix (p @ s) p = s"
  by (simp add: trim_prefix_def)

lemma cut_prefix_Some_iff [go_str]: "cut_prefix s p = Some r \<longleftrightarrow> s = p @ r"
  by (auto simp: cut_prefix_def has_prefix_def prefix_def)

lemma cut_suffix_Some_iff [go_str]: "cut_suffix s p = Some r \<longleftrightarrow> s = r @ p"
  by (auto simp: cut_suffix_def has_suffix_def suffix_def)

lemma str_index_Some:
  "str_index s sub = Some i \<Longrightarrow> prefix sub (drop i s) \<and> i + length sub \<le> length s"
proof (induction s sub arbitrary: i rule: str_index.induct)
  case (1 sub)
  then show ?case by (auto split: if_splits)
next
  case (2 c s sub)
  show ?case
  proof (cases "prefix sub (c # s)")
    case True
    with 2 show ?thesis by (auto dest: prefix_length_le)
  next
    case False
    with 2 show ?thesis by auto
  qed
qed

lemma str_index_least:
  "str_index s sub = Some i \<Longrightarrow> j < i \<Longrightarrow> \<not> prefix sub (drop j s)"
proof (induction s sub arbitrary: i j rule: str_index.induct)
  case (1 sub)
  then show ?case by (auto split: if_splits)
next
  case (2 c s sub)
  then show ?case by (cases j) (auto split: if_splits)
qed

lemma str_index_None_iff: "str_index s sub = None \<longleftrightarrow> \<not> sublist sub s"
proof (induction s sub rule: str_index.induct)
  case (1 sub)
  then show ?case by simp
next
  case (2 c s sub)
  then show ?case by (auto simp: sublist_Cons_right)
qed

lemma str_contains_iff [go_str]: "str_contains s sub \<longleftrightarrow> sublist sub s"
  by (simp add: str_contains_def str_index_None_iff)

lemma str_index_char: "c \<notin> set a \<Longrightarrow> str_index (a @ c # b) [c] = Some (length a)"
  by (induction a) auto

lemma str_cut_char [go_str]: "c \<notin> set a \<Longrightarrow> str_cut (a @ c # b) [c] = Some (a, b)"
  by (simp add: str_cut_def str_index_char)

lemma str_cut_Some_append: "str_cut s sep = Some (a, b) \<Longrightarrow> s = a @ sep @ b"
proof -
  assume "str_cut s sep = Some (a, b)"
  then obtain i where i: "str_index s sep = Some i" and ab: "a = take i s" "b = drop (i + length sep) s"
    by (auto simp: str_cut_def split: option.splits)
  from str_index_Some [OF i] obtain r where "drop i s = sep @ r"
    by (auto simp: prefix_def)
  then have "drop (length sep) (drop i s) = r" by simp
  then have "b = r" by (simp add: ab add.commute)
  with ab \<open>drop i s = sep @ r\<close> show ?thesis by (metis append_take_drop_id)
qed

lemma split_char_nonempty [simp]: "split_char c s \<noteq> []"
  by (induction s) (auto split: list.splits)

lemma split_char_free: "w \<in> set (split_char c s) \<Longrightarrow> c \<notin> set w"
  by (induction s arbitrary: w) (auto split: if_splits list.splits)

lemma str_join_Cons: "ws \<noteq> [] \<Longrightarrow> str_join (w # ws) sep = w @ sep @ str_join ws sep"
  by (cases ws) auto

lemma str_join_split_char: "str_join (split_char c s) [c] = s"
proof (induction s)
  case Nil
  then show ?case by simp
next
  case (Cons x xs)
  obtain w ws where sp: "split_char c xs = w # ws"
    by (cases "split_char c xs") auto
  with Cons show ?case
    by (cases ws) (auto simp: str_join_Cons)
qed

lemma split_char_append:
  "c \<notin> set a \<Longrightarrow> split_char c (a @ c # b) = a # split_char c b"
  by (induction a) auto

lemma split_char_single: "c \<notin> set a \<Longrightarrow> split_char c a = [a]"
  by (induction a) auto

lemma split_char_join:
  "ws \<noteq> [] \<Longrightarrow> list_all (\<lambda>w. c \<notin> set w) ws \<Longrightarrow> split_char c (str_join ws [c]) = ws"
proof (induction ws)
  case Nil
  then show ?case by simp
next
  case (Cons w ws)
  then show ?case
    by (cases "ws = []") (auto simp: str_join_Cons split_char_append split_char_single)
qed

section \<open>Lemmas: white space\<close>

lemma lead_of_None_iff: "lead_of encs s = None \<longleftrightarrow> (\<forall>p \<in> set encs. p = [] \<or> \<not> prefix p s)"
  by (auto simp: lead_of_def find_None_iff)

lemma strip_lead_stop: "lead_of encs (strip_lead encs s) = None"
proof (induction encs s rule: strip_lead.induct)
  case (1 encs s)
  then show ?case
    by (cases "lead_of encs s") (auto simp: strip_lead.simps [of encs s])
qed

lemma strip_lead_id: "lead_of encs s = None \<Longrightarrow> strip_lead encs s = s"
  by (simp add: strip_lead.simps)

lemma strip_lead_suffix: "suffix (strip_lead encs s) s"
proof (induction encs s rule: strip_lead.induct)
  case (1 encs s)
  show ?case
  proof (cases "lead_of encs s")
    case None
    then show ?thesis by (simp add: strip_lead_id)
  next
    case (Some p)
    with 1 have "suffix (strip_lead encs (drop (length p) s)) (drop (length p) s)" by blast
    then show ?thesis using Some
      by (simp add: strip_lead.simps [of encs s] suffix_order.trans suffix_drop)
  qed
qed

lemma lead_of_prefix: "prefix t s \<Longrightarrow> lead_of encs s = None \<Longrightarrow> lead_of encs t = None"
  by (meson lead_of_None_iff prefix_order.trans)

lemma trim_space_idem [simp]: "trim_space (trim_space s) = trim_space s"
proof -
  define a where "a = strip_lead space_runes s"
  define b where "b = strip_lead (map rev space_runes) (rev a)"
  have "prefix (rev b) a"
    using strip_lead_suffix [of "map rev space_runes" "rev a"]
    by (simp add: b_def suffix_to_prefix)
  moreover have "lead_of space_runes a = None"
    by (simp add: a_def strip_lead_stop)
  ultimately have "strip_lead space_runes (rev b) = rev b"
    by (intro strip_lead_id) (rule lead_of_prefix)
  moreover have "strip_lead (map rev space_runes) b = b"
    by (intro strip_lead_id) (simp add: b_def strip_lead_stop)
  ultimately show ?thesis
    by (simp add: trim_space_def a_def b_def)
qed

lemma trim_space_sublist: "sublist (trim_space s) s"
proof -
  have "sublist (rev (strip_lead (map rev space_runes) (rev (strip_lead space_runes s))))
                (strip_lead space_runes s)"
    using strip_lead_suffix [of "map rev space_runes" "rev (strip_lead space_runes s)"]
    by (metis prefix_imp_sublist rev_rev_ident suffix_to_prefix)
  also have "sublist (strip_lead space_runes s) s"
    by (simp add: strip_lead_suffix suffix_imp_sublist)
  finally show ?thesis by (simp add: trim_space_def)
qed

lemma trim_space_Nil [simp]: "trim_space [] = []"
  using trim_space_sublist [of "[]"] by simp

section \<open>Lemmas: decimal numerals\<close>

lemma digit_char_is_digit: "d < 10 \<Longrightarrow> is_digit (digit_char d)"
  by (simp add: is_digit_def digit_char_def)

lemma digit_val_digit_char [simp]: "d < 10 \<Longrightarrow> digit_val (digit_char d) = d"
  by (simp add: digit_val_def digit_char_def)

lemma utoa_digits: "list_all is_digit (utoa n)"
proof (induction n rule: utoa.induct)
  case (1 n)
  then show ?case
    by (cases "n < 10") (auto simp: utoa.simps [of n] digit_char_is_digit)
qed

lemma utoa_nonempty [simp]: "utoa n \<noteq> []"
  by (simp add: utoa.simps [of n])

lemma digits_val_snoc [simp]: "digits_val (s @ [c]) = 10 * digits_val s + digit_val c"
  by (simp add: digits_val_def)

lemma digits_val_utoa [simp]: "digits_val (utoa n) = n"
proof (induction n rule: utoa.induct)
  case (1 n)
  show ?case
  proof (cases "n < 10")
    case True
    then show ?thesis by (simp add: utoa.simps [of n] digits_val_def)
  next
    case False
    with 1 have "digits_val (utoa (n div 10)) = n div 10" by simp
    with False show ?thesis by (simp add: utoa.simps [of n])
  qed
qed

lemma utoa_inj: "utoa m = utoa n \<longleftrightarrow> m = n"
  by (metis digits_val_utoa)

lemma digit_not_sign: "is_digit c \<Longrightarrow> c \<noteq> CHR ''-'' \<and> c \<noteq> CHR ''+'' \<and> c \<noteq> CHR ''.''"
  by (auto simp: is_digit_def)

lemma utoa_hd: "\<exists>c cs. utoa n = c # cs \<and> is_digit c"
  using utoa_digits [of n] by (cases "utoa n") auto

lemma atoi_utoa: "int n < 2 ^ 63 \<Longrightarrow> atoi (utoa n) = Some (int n)"
proof -
  assume le: "int n < 2 ^ 63"
  obtain c cs where u: "utoa n = c # cs" and d: "is_digit c"
    using utoa_hd by blast
  have v: "digits_val (c # cs) = n" and a: "list_all is_digit (c # cs)"
    using u digits_val_utoa [of n] utoa_digits [of n] by auto
  show ?thesis
    using le digit_not_sign [OF d] v a by (simp add: u atoi_def Let_def)
qed

lemma atoi_itoa: "- (2 ^ 63) \<le> i \<Longrightarrow> i < 2 ^ 63 \<Longrightarrow> atoi (itoa i) = Some i"
proof (cases "i < 0")
  case True
  assume "- (2 ^ 63) \<le> i"
  with True utoa_digits [of "nat (- i)"] show ?thesis
    by (simp add: itoa_def atoi_def)
next
  case False
  assume "i < 2 ^ 63"
  with False show ?thesis by (simp add: itoa_def atoi_utoa)
qed

lemma atoi_Some_nonneg_digits:
  "atoi s = Some v \<Longrightarrow> - (2 ^ 63) \<le> v \<and> v < 2 ^ 63"
  by (auto simp: atoi_def Let_def split: if_splits)

end
