(* ===== verification/Go_Time.thy ===== *)
theory Go_Time
  imports Go_Prelude "HOL-Library.Monad_Syntax"
begin

text \<open>
  Package time as far as the bridge uses it: instants with a zone offset, \<open>UTC\<close>,
  \<open>Before\<close>, and formatting and parsing in the layouts RFC3339 and RFC3339Nano.
  The main result is that parsing undoes formatting, which the page tokens of the task
  store and the age check on delivered replies rest on.
\<close>

section \<open>Instants and durations\<close>

text \<open>Durations are nanoseconds, as in Go.\<close>

type_synonym duration = int

definition second_d :: duration where "second_d = 1000000000"
definition millisecond_d :: duration where "millisecond_d = 1000000"
definition minute_d :: duration where "minute_d = 60 * second_d"

text \<open>
  A \<open>time.Time\<close> is an instant (nanoseconds since the Unix epoch) and the offset of its
  location at that instant, in seconds east of UTC.
\<close>

record gotime =
  unix_nano :: int
  zone_off :: int

definition time_add :: "gotime \<Rightarrow> duration \<Rightarrow> gotime" where
  "time_add t d = t\<lparr>unix_nano := unix_nano t + d\<rparr>"

definition time_before :: "gotime \<Rightarrow> gotime \<Rightarrow> bool" where
  "time_before t u = (unix_nano t < unix_nano u)"

definition time_utc :: "gotime \<Rightarrow> gotime" where
  "time_utc t = t\<lparr>zone_off := 0\<rparr>"

section \<open>The civil calendar\<close>

definition leap_year :: "int \<Rightarrow> bool" where
  "leap_year y = (y mod 4 = 0 \<and> (y mod 100 \<noteq> 0 \<or> y mod 400 = 0))"

definition days_before_year :: "int \<Rightarrow> int" where
  "days_before_year y =
     (let p = y - 1 in 365 * p + p div 4 - p div 100 + p div 400)"

definition days_before_month :: "bool \<Rightarrow> nat \<Rightarrow> int" where
  "days_before_month lp m =
     (if m \<le> 1 then 0 else if m = 2 then 31
      else (if lp then 1 else 0) +
        (if m = 3 then 59 else if m = 4 then 90 else if m = 5 then 120
         else if m = 6 then 151 else if m = 7 then 181 else if m = 8 then 212
         else if m = 9 then 243 else if m = 10 then 273 else if m = 11 then 304
         else if m = 12 then 334 else 365))"

definition days_in_month :: "bool \<Rightarrow> nat \<Rightarrow> int" where
  "days_in_month lp m = days_before_month lp (Suc m) - days_before_month lp m"

text \<open>Days since 1970-01-01 of a civil date, and the civil date of a day number.\<close>

definition days_of_civil :: "int \<Rightarrow> nat \<Rightarrow> int \<Rightarrow> int" where
  "days_of_civil y m d = days_before_year y + days_before_month (leap_year y) m + d - 1 - 719162"

definition year_yday :: "int \<Rightarrow> int \<times> int" where
  "year_yday n =
     (let z = n + 719162;
          n400 = z div 146097; r = z mod 146097;
          n100 = min 3 (r div 36524); r1 = r - n100 * 36524;
          n4 = r1 div 1461; r2 = r1 mod 1461;
          n1 = min 3 (r2 div 365)
      in (400 * n400 + 100 * n100 + 4 * n4 + n1 + 1, r2 - n1 * 365))"

definition month_of_yday :: "bool \<Rightarrow> int \<Rightarrow> nat" where
  "month_of_yday lp yd =
     (if yd < days_before_month lp 2 then 1 else if yd < days_before_month lp 3 then 2
      else if yd < days_before_month lp 4 then 3 else if yd < days_before_month lp 5 then 4
      else if yd < days_before_month lp 6 then 5 else if yd < days_before_month lp 7 then 6
      else if yd < days_before_month lp 8 then 7 else if yd < days_before_month lp 9 then 8
      else if yd < days_before_month lp 10 then 9 else if yd < days_before_month lp 11 then 10
      else if yd < days_before_month lp 12 then 11 else 12)"

definition civil_of_days :: "int \<Rightarrow> int \<times> nat \<times> int" where
  "civil_of_days n =
     (case year_yday n of (y, yd) \<Rightarrow>
        (let m = month_of_yday (leap_year y) yd
         in (y, m, yd - days_before_month (leap_year y) m + 1)))"

section \<open>Formatting\<close>

definition pad2 :: "nat \<Rightarrow> string" where
  "pad2 n = [digit_char (n div 10), digit_char (n mod 10)]"

definition pad4 :: "nat \<Rightarrow> string" where
  "pad4 n = [digit_char (n div 1000), digit_char (n div 100 mod 10),
             digit_char (n div 10 mod 10), digit_char (n mod 10)]"

text \<open>The nine digits of the nanoseconds, and the fraction with trailing zeros removed.\<close>

fun frac_digits :: "nat \<Rightarrow> nat \<Rightarrow> string" where
  "frac_digits 0 n = []"
| "frac_digits (Suc k) n = frac_digits k (n div 10) @ [digit_char (n mod 10)]"

definition frac_text :: "nat \<Rightarrow> string" where
  "frac_text ns =
     (if ns = 0 then []
      else CHR ''.'' # rev (dropWhile (\<lambda>c. c = CHR ''0'') (rev (frac_digits 9 ns))))"

definition zone_text :: "int \<Rightarrow> string" where
  "zone_text off =
     (if off = 0 then ''Z''
      else (let m = nat (\<bar>off\<bar> div 60)
            in (if off \<le> - 60 then CHR ''-'' else CHR ''+'') # pad2 (m div 60) @ CHR '':'' # pad2 (m mod 60)))"

text \<open>
  \<open>Format\<close> in the layout RFC3339 (\<open>nano\<close> false) or RFC3339Nano (\<open>nano\<close> true), for
  the years 0 to 9999.
\<close>

definition time_format :: "bool \<Rightarrow> gotime \<Rightarrow> string" where
  "time_format nano t =
     (let secs = unix_nano t div 1000000000 + zone_off t;
          ns = nat (unix_nano t mod 1000000000);
          tod = nat (secs mod 86400)
      in (case civil_of_days (secs div 86400) of (y, m, d) \<Rightarrow>
            pad4 (nat y) @ CHR ''-'' # pad2 m @ CHR ''-'' # pad2 (nat d) @ CHR ''T'' #
            pad2 (tod div 3600) @ CHR '':'' # pad2 (tod div 60 mod 60) @ CHR '':'' #
            pad2 (tod mod 60) @ (if nano then frac_text ns else []) @ zone_text (zone_off t)))"

section \<open>Parsing\<close>

definition get_num :: "bool \<Rightarrow> string \<Rightarrow> (nat \<times> string) option" where
  "get_num fixed s =
     (case s of
        a # b # r \<Rightarrow>
          (if \<not> is_digit a then None
           else if is_digit b then Some (digit_val a * 10 + digit_val b, r)
           else if fixed then None else Some (digit_val a, b # r))
      | [a] \<Rightarrow> (if is_digit a \<and> \<not> fixed then Some (digit_val a, []) else None)
      | [] \<Rightarrow> None)"

definition get_year :: "string \<Rightarrow> (nat \<times> string) option" where
  "get_year s =
     (if 4 \<le> length s \<and> list_all is_digit (take 4 s)
      then Some (digits_val (take 4 s), drop 4 s) else None)"

definition skip_char :: "char \<Rightarrow> string \<Rightarrow> string option" where
  "skip_char c s = (case s of x # r \<Rightarrow> if x = c then Some r else None | [] \<Rightarrow> None)"

text \<open>A fraction is taken after the seconds in both layouts; digits past the ninth are ignored.\<close>

definition get_frac :: "string \<Rightarrow> nat \<times> string" where
  "get_frac s =
     (case s of
        c # r \<Rightarrow>
          (if (c = CHR ''.'' \<or> c = CHR '','') \<and> r \<noteq> [] \<and> is_digit (hd r)
           then (let ds = take 9 (takeWhile is_digit r)
                 in (digits_val ds * 10 ^ (9 - length ds), dropWhile is_digit r))
           else (0, s))
      | [] \<Rightarrow> (0, s))"

definition get_zone :: "string \<Rightarrow> (int \<times> string) option" where
  "get_zone s =
     (case s of
        [] \<Rightarrow> None
      | c # r \<Rightarrow>
          (if c = CHR ''Z'' then Some (0, r)
           else if length s < 6 \<or> s ! 3 \<noteq> CHR '':'' then None
           else do {
             (hr, _) \<leftarrow> get_num True (take 2 r);
             (mm, _) \<leftarrow> get_num True (take 2 (drop 3 r));
             if 24 < hr \<or> 60 < mm then None
             else if c = CHR ''+'' then Some (int ((hr * 60 + mm) * 60), drop 5 r)
             else if c = CHR ''-'' then Some (- int ((hr * 60 + mm) * 60), drop 5 r)
             else None
           }))"

definition time_parse :: "string \<Rightarrow> gotime option" where
  "time_parse s = do {
     (y, s) \<leftarrow> get_year s;
     s \<leftarrow> skip_char (CHR ''-'') s;
     (m, s) \<leftarrow> get_num True s;
     if m = 0 \<or> 12 < m then None else do {
     s \<leftarrow> skip_char (CHR ''-'') s;
     (d, s) \<leftarrow> get_num True s;
     s \<leftarrow> skip_char (CHR ''T'') s;
     (hh, s) \<leftarrow> get_num False s;
     if 24 \<le> hh then None else do {
     s \<leftarrow> skip_char (CHR '':'') s;
     (mi, s) \<leftarrow> get_num True s;
     if 60 \<le> mi then None else do {
     s \<leftarrow> skip_char (CHR '':'') s;
     (se, s) \<leftarrow> get_num True s;
     if 60 \<le> se then None else do {
     let (ns, s) = get_frac s;
     (off, s) \<leftarrow> get_zone s;
     if s \<noteq> [] \<or> d < 1 \<or> days_in_month (leap_year (int y)) m < int d then None
     else Some \<lparr>unix_nano =
         ((days_of_civil (int y) m (int d) * 86400
            + int (hh * 3600 + mi * 60 + se)) - off) * 1000000000 + int ns,
         zone_off = off\<rparr>
     }}}}}"

text \<open>The instants that the layouts can carry: a year of four digits, a zone of whole minutes.\<close>

definition formattable :: "gotime \<Rightarrow> bool" where
  "formattable t =
     (let y = fst (civil_of_days ((unix_nano t div 1000000000 + zone_off t) div 86400))
      in 0 \<le> y \<and> y \<le> 9999 \<and> zone_off t mod 60 = 0 \<and> \<bar>zone_off t\<bar> \<le> 86400)"

section \<open>The calendar round trip\<close>

lemma min3_quotient:
  fixes r k :: int
  assumes "0 \<le> r" "r \<le> 4 * k" "0 < k"
  shows "0 \<le> min 3 (r div k) \<and> min 3 (r div k) \<le> 3
       \<and> 0 \<le> r - min 3 (r div k) * k \<and> r - min 3 (r div k) * k \<le> k
       \<and> (min 3 (r div k) < 3 \<longrightarrow> r - min 3 (r div k) * k \<le> k - 1)"
proof -
  have dm: "r = r div k * k + r mod k" "0 \<le> r mod k" "r mod k < k"
    using assms by auto
  have q0: "0 \<le> r div k" using assms by (simp add: pos_imp_zdiv_nonneg_iff)
  show ?thesis
  proof (cases "r div k \<le> 3")
    case True
    then have "min 3 (r div k) = r div k" by simp
    moreover have "r - r div k * k = r mod k" by (simp add: minus_div_mult_eq_mod)
    ultimately show ?thesis using dm(2,3) q0 True by simp
  next
    case False
    then have "4 * k \<le> r div k * k" using assms by (intro mult_right_mono) auto
    with dm assms have "r = 4 * k" by linarith
    with False assms(3) show ?thesis by (simp add: min_def)
  qed
qed

lemma year_yday_bounds:
  assumes "year_yday n = (y, yd)"
  shows "0 \<le> yd \<and> yd < (if leap_year y then 366 else 365)
       \<and> days_before_year y + yd = n + 719162"
proof -
  define z where "z = n + 719162"
  define a where "a = z div 146097"
  define r where "r = z mod 146097"
  define b where "b = min 3 (r div 36524)"
  define r1 where "r1 = r - b * 36524"
  define c where "c = r1 div 1461"
  define r2 where "r2 = r1 mod 1461"
  define e where "e = min 3 (r2 div 365)"
  have y: "y = 400 * a + 100 * b + 4 * c + e + 1" and yd: "yd = r2 - e * 365"
    using assms
    unfolding year_yday_def Let_def z_def [symmetric] a_def [symmetric] r_def [symmetric]
      b_def [symmetric] r1_def [symmetric] c_def [symmetric] r2_def [symmetric] e_def [symmetric]
    by simp_all
  have r: "0 \<le> r" "r \<le> 146096" by (simp_all add: r_def)
  have b: "0 \<le> b" "b \<le> 3" "0 \<le> r1" "r1 \<le> 36524" "b < 3 \<longrightarrow> r1 \<le> 36523"
    using min3_quotient [of r 36524] r by (auto simp: b_def r1_def)
  have c1: "r1 = 1461 * c + r2" "0 \<le> r2" "r2 \<le> 1460"
    by (simp_all add: c_def r2_def)
  have c: "0 \<le> c" "c \<le> 24" "r1 = 1461 * c + r2" "0 \<le> r2" "r2 \<le> 1460"
  proof -
    show "0 \<le> c" using b(3) by (simp add: c_def pos_imp_zdiv_nonneg_iff)
    show "c \<le> 24" using b(4) c1 by linarith
  qed (rule c1)+
  have e: "0 \<le> e" "e \<le> 3" "0 \<le> yd" "yd \<le> 365" "e < 3 \<longrightarrow> yd \<le> 364"
    using min3_quotient [of r2 365] c by (auto simp: e_def yd)
  have z: "z = 146097 * a + 36524 * b + 1461 * c + 365 * e + yd"
  proof -
    have "z = 146097 * a + r" by (simp add: a_def r_def)
    moreover have "r = 36524 * b + r1" by (simp add: r1_def)
    moreover have "r2 = 365 * e + yd" by (simp add: yd)
    ultimately show ?thesis using c(3) by linarith
  qed
  have d: "(y - 1) div 4 = 100 * a + 25 * b + c" "(y - 1) div 100 = 4 * a + b" "(y - 1) div 400 = a"
    using b c e
    by (auto simp: y intro!: int_div_pos_eq [where r = e] int_div_pos_eq [where r = "4 * c + e"]
        int_div_pos_eq [where r = "100 * b + 4 * c + e"])
  have sum: "days_before_year y + yd = z"
    using z by (simp add: days_before_year_def Let_def d) (simp add: y)
  have "leap_year y" if "yd = 365"
  proof -
    have e3: "e = 3" and r2: "r2 = 1460" using e c that by (auto simp: yd)
    have m4: "y = 4 * (100 * a + 25 * b + c + 1)" using e3 by (simp add: y)
    show ?thesis
    proof (cases "c = 24")
      case True
      with r2 c b have "b = 3" by auto
      with True m4 have "y = 400 * (a + 1)" by simp
      then show ?thesis by (simp add: leap_year_def)
    next
      case False
      with c have "c \<le> 23" by simp
      then have "y mod 100 = 4 * (c + 1)"
        using c(1) e3 by (intro int_mod_pos_eq [where q = "4 * a + b"]) (auto simp: y)
      moreover have "y mod 4 = 0" using m4 by simp
      ultimately show ?thesis using \<open>c \<le> 23\<close> c(1) by (simp add: leap_year_def)
    qed
  qed
  with e(3,4) have "yd < (if leap_year y then 366 else 365)"
    by (cases "yd = 365") auto
  with e(3) sum show ?thesis by (simp add: z_def)
qed

lemma month_of_yday_bounds:
  assumes "0 \<le> yd" "yd < (if lp then 366 else 365)"
  shows "1 \<le> month_of_yday lp yd \<and> month_of_yday lp yd \<le> 12
       \<and> days_before_month lp (month_of_yday lp yd) \<le> yd
       \<and> yd < days_before_month lp (Suc (month_of_yday lp yd))"
  using assms by (cases lp) (auto simp: month_of_yday_def days_before_month_def)

lemma civil_of_days:
  assumes "civil_of_days n = (y, m, d)"
  shows "days_of_civil y m d = n" "1 \<le> m" "m \<le> 12" "1 \<le> d" "d \<le> days_in_month (leap_year y) m"
proof -
  obtain yd where yy: "year_yday n = (y, yd)"
    and m: "m = month_of_yday (leap_year y) yd"
    and d: "d = yd - days_before_month (leap_year y) m + 1"
    using assms by (auto simp: civil_of_days_def Let_def split: prod.splits)
  note b = year_yday_bounds [OF yy]
  note mb = month_of_yday_bounds [of yd "leap_year y", folded m]
  show "days_of_civil y m d = n" using b by (simp add: days_of_civil_def d)
  show "1 \<le> m" "m \<le> 12" "1 \<le> d" "d \<le> days_in_month (leap_year y) m"
    using b mb by (auto simp: d days_in_month_def)
qed

lemma days_in_month_le: "days_in_month lp m \<le> 31"
  by (cases lp) (auto simp: days_in_month_def days_before_month_def)

section \<open>Parsing undoes formatting\<close>

lemma get_num_pad2 [simp]: "n < 100 \<Longrightarrow> get_num fx (pad2 n @ r) = Some (n, r)"
  by (simp add: get_num_def pad2_def digit_char_is_digit)

lemma length_pad2 [simp]: "length (pad2 n) = 2"
  by (simp add: pad2_def)

lemma get_year_pad4 [simp]: "n < 10000 \<Longrightarrow> get_year (pad4 n @ r) = Some (n, r)"
proof -
  assume "n < 10000"
  then have "n div 1000 < 10" by simp
  moreover have "((n div 1000 * 10 + n div 100 mod 10) * 10 + n div 10 mod 10) * 10 + n mod 10 = n"
  proof -
    have "n div 100 = n div 10 div 10" "n div 1000 = n div 10 div 10 div 10"
      by (simp_all flip: div_mult2_eq)
    then show ?thesis by (simp only: div_mult_mod_eq)
  qed
  ultimately show ?thesis
    by (simp add: get_year_def pad4_def digit_char_is_digit digits_val_def mult.commute)
qed

lemma skip_char_same [simp]: "skip_char c (c # r) = Some r"
  by (simp add: skip_char_def)

lemma length_frac_digits [simp]: "length (frac_digits k n) = k"
  by (induction k n rule: frac_digits.induct) auto

lemma frac_digits_digit: "list_all is_digit (frac_digits k n)"
  by (induction k n rule: frac_digits.induct) (auto simp: digit_char_is_digit)

lemma digits_val_frac_digits: "digits_val (frac_digits k n) = n mod 10 ^ k"
proof (induction k n rule: frac_digits.induct)
  case (1 n)
  then show ?case by (simp add: digits_val_def)
next
  case (2 k n)
  have "n mod (10 * 10 ^ k) = 10 * (n div 10 mod 10 ^ k) + n mod 10"
    by (simp add: mod_mult2_eq)
  with 2 show ?case by simp
qed

lemma digits_val_zeros: "digits_val (s @ replicate k (CHR ''0'')) = digits_val s * 10 ^ k"
proof (induction k)
  case 0
  then show ?case by simp
next
  case (Suc k)
  have "s @ replicate (Suc k) (CHR ''0'') = (s @ replicate k (CHR ''0'')) @ [CHR ''0'']"
    by (simp add: replicate_append_same)
  then show ?case using Suc by (simp add: digit_val_def del: append_assoc)
qed

lemma strip_zeros:
  obtains k where "s = rev (dropWhile (\<lambda>c. c = CHR ''0'') (rev s)) @ replicate k (CHR ''0'')"
proof -
  define u where "u = takeWhile (\<lambda>c. c = CHR ''0'') (rev s)"
  have "replicate (length u) (CHR ''0'') = u"
    by (rule replicate_length_same) (auto simp: u_def dest: set_takeWhileD)
  then have "rev s = replicate (length u) (CHR ''0'') @ dropWhile (\<lambda>c. c = CHR ''0'') (rev s)"
    by (simp add: u_def)
  then have "s = rev (dropWhile (\<lambda>c. c = CHR ''0'') (rev s)) @ replicate (length u) (CHR ''0'')"
    by (metis rev_append rev_replicate rev_rev_ident)
  then show ?thesis by (rule that)
qed

lemma get_frac_text:
  assumes ns: "ns < 1000000000" and z: "z \<noteq> []" "\<not> is_digit (hd z)" "hd z \<noteq> CHR ''.''" "hd z \<noteq> CHR '',''"
  shows "get_frac (frac_text ns @ z) = (ns, z)"
proof (cases "ns = 0")
  case True
  with z show ?thesis by (cases z) (auto simp: frac_text_def get_frac_def)
next
  case False
  define f where "f = frac_digits 9 ns"
  define w where "w = rev (dropWhile (\<lambda>c. c = CHR ''0'') (rev f))"
  obtain k where k: "f = w @ replicate k (CHR ''0'')"
    using strip_zeros [of f] by (auto simp: w_def)
  have fv: "digits_val f = ns" using ns by (simp add: f_def digits_val_frac_digits)
  have len: "length w + k = 9"
    using arg_cong [OF k, of length] by (simp add: f_def)
  have dw: "list_all is_digit w"
    using frac_digits_digit [of 9 ns] k by (simp add: f_def [symmetric])
  have wne: "w \<noteq> []"
  proof
    assume "w = []"
    with k digits_val_zeros [of "[]" k] fv False show False by (simp add: digits_val_def)
  qed
  have val: "digits_val w * 10 ^ k = ns" using fv k digits_val_zeros [of w k] by simp
  have tw: "takeWhile is_digit (w @ z) = w" and dww: "dropWhile is_digit (w @ z) = z"
    using dw z by (auto simp: takeWhile_append2 dropWhile_append2 list_all_iff)
      (cases z; simp)+
  have "frac_text ns = CHR ''.'' # w" using False by (simp add: frac_text_def w_def f_def)
  moreover have "is_digit (hd (w @ z))" using wne dw by (cases w) auto
  moreover have "9 - length w = k" using len by simp
  ultimately show ?thesis
    using wne val tw dww len by (simp add: get_frac_def Let_def)
qed

lemma zone_text_hd: "zone_text off \<noteq> [] \<and> \<not> is_digit (hd (zone_text off))
    \<and> hd (zone_text off) \<noteq> CHR ''.'' \<and> hd (zone_text off) \<noteq> CHR '',''"
  by (auto simp: zone_text_def Let_def is_digit_def)

lemma get_zone_text:
  assumes "off mod 60 = 0" "\<bar>off\<bar> \<le> 86400"
  shows "get_zone (zone_text off) = Some (off, [])"
proof (cases "off = 0")
  case True
  then show ?thesis by (simp add: zone_text_def get_zone_def)
next
  case False
  define m where "m = nat (\<bar>off\<bar> div 60)"
  have m: "int m * 60 = \<bar>off\<bar>" "m \<le> 1440"
    using assms unfolding m_def by (auto simp: abs_if)
  have hm: "m div 60 < 100" "m mod 60 < 100" "m div 60 \<le> 24" "m mod 60 \<le> 60"
    using m by auto
  have split_m: "(m div 60 * 60 + m mod 60) * 60 = m * 60" by simp
  have zt: "zone_text off = (if off < 0 then CHR ''-'' else CHR ''+'') # pad2 (m div 60) @ CHR '':'' # pad2 (m mod 60)"
    using False assms m by (auto simp: zone_text_def Let_def m_def [symmetric])
  have g1: "get_num True (pad2 (m div 60)) = Some (m div 60, [])"
    and g2: "get_num True (pad2 (m mod 60)) = Some (m mod 60, [])"
    using get_num_pad2 [of _ True "[]"] hm by auto
  have s3: "(pad2 (m div 60) @ CHR '':'' # pad2 (m mod 60)) ! 2 = CHR '':''"
    by (simp add: pad2_def)
  have im: "int ((m div 60 * 60 + m mod 60) * 60) = \<bar>off\<bar>"
    unfolding split_m using m by simp
  show ?thesis
    unfolding zt get_zone_def
    using hm im False by (auto simp: g1 g2 s3 simp del: of_nat_mult of_nat_add)
qed

lemma time_parse_text:
  assumes "y < 10000" "1 \<le> m" "m \<le> 12" "1 \<le> d" "d < 100"
    and "int d \<le> days_in_month (leap_year (int y)) m"
    and "hh < 24" "mi < 60" "se < 60"
    and "get_frac (f @ z) = (ns, z)" "get_zone z = Some (off, [])"
  shows "time_parse (pad4 y @ CHR ''-'' # pad2 m @ CHR ''-'' # pad2 d @ CHR ''T'' #
             pad2 hh @ CHR '':'' # pad2 mi @ CHR '':'' # pad2 se @ f @ z)
       = Some \<lparr>unix_nano = ((days_of_civil (int y) m (int d) * 86400
                 + int (hh * 3600 + mi * 60 + se)) - off) * 1000000000 + int ns,
               zone_off = off\<rparr>"
  using assms by (simp add: time_parse_def)

lemma time_parse_format:
  assumes "formattable t"
  shows "time_parse (time_format True t) = Some t"
    and "time_parse (time_format False t) = Some (t\<lparr>unix_nano := unix_nano t div 1000000000 * 1000000000\<rparr>)"
proof -
  define secs where "secs = unix_nano t div 1000000000 + zone_off t"
  define ns where "ns = nat (unix_nano t mod 1000000000)"
  define tod where "tod = nat (secs mod 86400)"
  obtain y m d where c: "civil_of_days (secs div 86400) = (y, m, d)"
    by (cases "civil_of_days (secs div 86400)") auto
  note civ = civil_of_days [OF c]
  have y: "0 \<le> y" "y \<le> 9999" and z: "zone_off t mod 60 = 0" "\<bar>zone_off t\<bar> \<le> 86400"
    using assms by (simp_all add: formattable_def Let_def secs_def [symmetric] c)
  have d31: "d \<le> 31" using civ days_in_month_le [of "leap_year y" m] by simp
  have ns: "ns < 1000000000" by (simp add: ns_def nat_less_iff)
  have tod: "tod < 86400" "int tod = secs mod 86400" by (simp_all add: tod_def)
  have hms: "tod div 3600 * 3600 + tod div 60 mod 60 * 60 + tod mod 60 = tod"
  proof -
    have "tod div 3600 = tod div 60 div 60" by (simp flip: div_mult2_eq)
    then have "tod div 3600 * 3600 + tod div 60 mod 60 * 60 = tod div 60 * 60"
      using div_mult_mod_eq [of "tod div 60" 60] by linarith
    then show ?thesis by simp
  qed
  have secs_eq: "secs div 86400 * 86400 + int tod = secs" using tod by simp
  have zf: "get_zone (zone_text (zone_off t)) = Some (zone_off t, [])"
    by (rule get_zone_text [OF z])
  have zh: "get_frac (frac_text ns @ zone_text (zone_off t)) = (ns, zone_text (zone_off t))"
    using zone_text_hd ns by (intro get_frac_text) auto
  have z0: "get_frac (zone_text (zone_off t)) = (0, zone_text (zone_off t))"
    using get_frac_text [of 0 "zone_text (zone_off t)"] zone_text_hd by (simp add: frac_text_def)
  have bnd: "nat y < 10000" "m < 100" "nat d < 100" "tod div 3600 < 24" "tod div 60 mod 60 < 60" "tod mod 60 < 60"
    using y civ d31 tod by auto
  have dc: "days_of_civil (int (nat y)) m (int (nat d)) = secs div 86400"
    using y civ by simp
  have fmt: "time_format nano t =
      pad4 (nat y) @ CHR ''-'' # pad2 m @ CHR ''-'' # pad2 (nat d) @ CHR ''T'' #
      pad2 (tod div 3600) @ CHR '':'' # pad2 (tod div 60 mod 60) @ CHR '':'' #
      pad2 (tod mod 60) @ (if nano then frac_text ns else []) @ zone_text (zone_off t)" for nano
    unfolding time_format_def Let_def secs_def [symmetric] ns_def [symmetric] tod_def [symmetric]
    by (simp add: c)
  have dm: "int (nat d) \<le> days_in_month (leap_year (int (nat y))) m" "1 \<le> nat d"
    using y civ by auto
  have inst: "days_of_civil (int (nat y)) m (int (nat d)) * 86400
       + int (tod div 3600 * 3600 + tod div 60 mod 60 * 60 + tod mod 60) - zone_off t
     = unix_nano t div 1000000000"
    unfolding hms dc secs_eq by (simp add: secs_def)
  have core: "time_parse (pad4 (nat y) @ CHR ''-'' # pad2 m @ CHR ''-'' # pad2 (nat d) @ CHR ''T'' #
      pad2 (tod div 3600) @ CHR '':'' # pad2 (tod div 60 mod 60) @ CHR '':'' #
      pad2 (tod mod 60) @ f @ zone_text (zone_off t))
    = Some \<lparr>unix_nano = unix_nano t div 1000000000 * 1000000000 + int n, zone_off = zone_off t\<rparr>"
    if "get_frac (f @ zone_text (zone_off t)) = (n, zone_text (zone_off t))" for f n
    unfolding inst [symmetric]
    by (rule time_parse_text [OF bnd(1) civ(2,3) dm(2) bnd(3) dm(1) bnd(4-6) that zf])
  have un: "unix_nano t div 1000000000 * 1000000000 + int ns = unix_nano t"
    by (simp add: ns_def)
  show "time_parse (time_format True t) = Some t"
    using core [OF zh] by (simp only: fmt un if_True) simp
  have z0': "get_frac ([] @ zone_text (zone_off t)) = (0, zone_text (zone_off t))"
    using z0 by simp
  show "time_parse (time_format False t) = Some (t\<lparr>unix_nano := unix_nano t div 1000000000 * 1000000000\<rparr>)"
    using core [OF z0'] by (simp only: fmt if_False) simp
qed

text \<open>The characters that a formatted time is made of.\<close>

definition time_chars :: "char set" where
  "time_chars = {c. is_digit c} \<union> {CHR ''-'', CHR ''T'', CHR '':'', CHR ''.'', CHR ''Z'', CHR ''+''}"

lemma pad_chars:
  "n < 100 \<Longrightarrow> set (pad2 n) \<subseteq> time_chars" "n < 10000 \<Longrightarrow> set (pad4 n) \<subseteq> time_chars"
  by (auto simp: pad2_def pad4_def time_chars_def digit_char_is_digit)

lemma frac_chars: "set (frac_text n) \<subseteq> time_chars"
  using frac_digits_digit [of 9 n]
  by (auto simp: frac_text_def time_chars_def list_all_iff dest: set_dropWhileD)

lemma zone_chars: "\<bar>off\<bar> \<le> 86400 \<Longrightarrow> set (zone_text off) \<subseteq> time_chars"
proof -
  assume "\<bar>off\<bar> \<le> 86400"
  then have "nat (\<bar>off\<bar> div 60) \<le> 1440" by simp
  then have "nat (\<bar>off\<bar> div 60) div 60 < 100" by (simp add: div_le_mono [THEN le_less_trans])
  then show ?thesis
    using pad_chars(1) by (auto simp: zone_text_def Let_def time_chars_def)
qed

lemma time_format_chars:
  assumes "formattable t"
  shows "set (time_format nano t) \<subseteq> time_chars"
proof -
  define secs where "secs = unix_nano t div 1000000000 + zone_off t"
  define tod where "tod = nat (secs mod 86400)"
  obtain y m d where c: "civil_of_days (secs div 86400) = (y, m, d)"
    by (cases "civil_of_days (secs div 86400)") auto
  note civ = civil_of_days [OF c]
  have b: "nat y < 10000" "m < 100" "nat d < 100" "tod div 3600 < 100" "\<bar>zone_off t\<bar> \<le> 86400"
    "tod div 60 mod 60 < 100" "tod mod 60 < 100"
    using assms civ days_in_month_le [of "leap_year y" m]
    by (auto simp: formattable_def Let_def secs_def [symmetric] c tod_def less_trans [OF mod_less_divisor])
  have "CHR ''-'' \<in> time_chars" "CHR ''T'' \<in> time_chars" "CHR '':'' \<in> time_chars"
    by (simp_all add: time_chars_def)
  then show ?thesis
    using pad_chars(1) [OF b(2)] pad_chars(1) [OF b(3)] pad_chars(1) [OF b(4)] pad_chars(1) [OF b(6)]
      pad_chars(1) [OF b(7)] pad_chars(2) [OF b(1)] zone_chars [OF b(5)]
      frac_chars [of "nat (unix_nano t mod 1000000000)"]
    unfolding time_format_def Let_def secs_def [symmetric] tod_def [symmetric] c prod.case
    by (cases nano) simp_all
qed

end
