(* ===== verification/Go_Utf8.thy ===== *)
theory Go_Utf8
  imports Go_Prelude
begin

text \<open>
  Conversion between strings and runes (\<open>[]rune(s)\<close>, \<open>string(runes)\<close>): UTF-8 decoding
  as package unicode/utf8 does it, where a byte that starts no well-formed sequence
  becomes the replacement rune U+FFFD and one byte is skipped.
\<close>

type_synonym rune = nat

definition rune_error :: rune where "rune_error = 0xFFFD"

definition byte_of :: "char \<Rightarrow> nat" where
  "byte_of c = of_char c"

text \<open>The range of the second byte, by the first one.\<close>

definition second_ok :: "nat \<Rightarrow> nat \<Rightarrow> bool" where
  "second_ok a b =
     ((if a = 0xE0 then 0xA0 else if a = 0xF0 then 0x90 else 0x80) \<le> b \<and>
      b \<le> (if a = 0xED then 0x9F else if a = 0xF4 then 0x8F else 0xBF))"

definition cont_byte :: "nat \<Rightarrow> bool" where
  "cont_byte b = (0x80 \<le> b \<and> b \<le> 0xBF)"

definition decode_bytes :: "nat \<Rightarrow> nat list \<Rightarrow> rune \<times> nat" where
  "decode_bytes a t =
     (if a < 0x80 then (a, 1)
      else if 0xC2 \<le> a \<and> a \<le> 0xDF then
        (case t of b # _ \<Rightarrow> if second_ok a b then ((a - 0xC0) * 64 + (b - 0x80), 2) else (rune_error, 1)
         | _ \<Rightarrow> (rune_error, 1))
      else if 0xE0 \<le> a \<and> a \<le> 0xEF then
        (case t of b # c # _ \<Rightarrow>
             if second_ok a b \<and> cont_byte c
             then ((a - 0xE0) * 4096 + (b - 0x80) * 64 + (c - 0x80), 3) else (rune_error, 1)
         | _ \<Rightarrow> (rune_error, 1))
      else if 0xF0 \<le> a \<and> a \<le> 0xF4 then
        (case t of b # c # d # _ \<Rightarrow>
             if second_ok a b \<and> cont_byte c \<and> cont_byte d
             then ((a - 0xF0) * 262144 + (b - 0x80) * 4096 + (c - 0x80) * 64 + (d - 0x80), 4)
             else (rune_error, 1)
         | _ \<Rightarrow> (rune_error, 1))
      else (rune_error, 1))"

lemma decode_bytes_size [simp]: "0 < snd (decode_bytes a t)"
  by (auto simp: decode_bytes_def split: list.splits)

function runes_of :: "nat list \<Rightarrow> rune list" where
  "runes_of [] = []"
| "runes_of (a # t) =
     fst (decode_bytes a t) # runes_of (drop (snd (decode_bytes a t)) (a # t))"
  by pat_completeness auto
termination
  by (relation "measure length") (auto intro!: diff_less)

declare runes_of.simps(2) [simp del]

definition runes :: "string \<Rightarrow> rune list" where
  "runes s = runes_of (map byte_of s)"

definition encode_bytes :: "rune \<Rightarrow> nat list" where
  "encode_bytes r =
     (if r < 0x80 then [r]
      else if r < 0x800 then [0xC0 + r div 64, 0x80 + r mod 64]
      else if r < 0x10000 then [0xE0 + r div 4096, 0x80 + r div 64 mod 64, 0x80 + r mod 64]
      else [0xF0 + r div 262144, 0x80 + r div 4096 mod 64, 0x80 + r div 64 mod 64, 0x80 + r mod 64])"

definition string_of_runes :: "rune list \<Rightarrow> string" where
  "string_of_runes rs = map char_of (concat (map encode_bytes rs))"

text \<open>The Unicode scalar values: what decoding yields and encoding takes.\<close>

definition scalar :: "rune \<Rightarrow> bool" where
  "scalar r = (r < 0xD800 \<or> (0xDFFF < r \<and> r \<le> 0x10FFFF))"

section \<open>Decoding undoes encoding\<close>

lemma scalar_rune_error [simp]: "scalar rune_error"
  by (simp add: scalar_def rune_error_def)

lemma second_okE:
  assumes "second_ok a b"
  obtains j where "b = 0x80 + j" "j \<le> 63" "a = 0xE0 \<longrightarrow> 32 \<le> j" "a = 0xED \<longrightarrow> j \<le> 31"
    "a = 0xF4 \<longrightarrow> j \<le> 15" "a = 0xF0 \<longrightarrow> 16 \<le> j"
proof -
  have "0x80 \<le> b" using assms by (simp add: second_ok_def split: if_splits)
  then obtain j where "b = 0x80 + j" using le_Suc_ex by blast
  then show ?thesis using that [of j] assms by (simp add: second_ok_def split: if_splits)
qed

lemma cont_byteE:
  assumes "cont_byte c"
  obtains k where "c = 0x80 + k" "k \<le> 63"
  using assms le_Suc_ex [of "0x80" c] by (auto simp: cont_byte_def)

lemma scalar_two: "a \<le> 0xDF \<Longrightarrow> second_ok a b \<Longrightarrow> scalar ((a - 0xC0) * 64 + (b - 0x80))"
proof (erule second_okE)
  fix j
  assume a: "a \<le> 0xDF" and b: "b = 0x80 + j" and j: "j \<le> 63"
  have "(a - 0xC0) * 64 \<le> 31 * 64" using a by (intro mult_right_mono) auto
  with b j show "scalar ((a - 0xC0) * 64 + (b - 0x80))" by (simp add: scalar_def)
qed

lemma scalar_three:
  assumes "0xE0 \<le> a" "a \<le> 0xEF" "second_ok a b" "cont_byte c"
  shows "scalar ((a - 0xE0) * 4096 + (b - 0x80) * 64 + (c - 0x80))"
proof -
  obtain i where i: "a = 0xE0 + i" using assms(1) le_Suc_ex by blast
  obtain j where j: "b = 0x80 + j" "j \<le> 63" "a = 0xED \<longrightarrow> j \<le> 31"
    using assms(3) by (rule second_okE)
  obtain k where k: "c = 0x80 + k" "k \<le> 63" using assms(4) by (rule cont_byteE)
  have "i \<le> 15" using assms(2) i by simp
  then consider "i \<le> 12" | "i = 13" | "14 \<le> i" by linarith
  then have "scalar (i * 4096 + j * 64 + k)"
    using j k(2) i \<open>i \<le> 15\<close> by cases (simp_all add: scalar_def)
  then show ?thesis by (simp add: i j(1) k(1))
qed

lemma scalar_four:
  assumes "0xF0 \<le> a" "a \<le> 0xF4" "second_ok a b" "cont_byte c" "cont_byte d"
  shows "scalar ((a - 0xF0) * 262144 + (b - 0x80) * 4096 + (c - 0x80) * 64 + (d - 0x80))"
proof -
  obtain i where i: "a = 0xF0 + i" using assms(1) le_Suc_ex by blast
  obtain j where j: "b = 0x80 + j" "j \<le> 63" "a = 0xF4 \<longrightarrow> j \<le> 15" and lo: "a = 0xF0 \<longrightarrow> 16 \<le> j"
    using assms(3) by (rule second_okE)
  obtain k where k: "c = 0x80 + k" "k \<le> 63" using assms(4) by (rule cont_byteE)
  obtain l where l: "d = 0x80 + l" "l \<le> 63" using assms(5) by (rule cont_byteE)
  have "i \<le> 4" using assms(2) i by simp
  then consider "i = 0" | "1 \<le> i" "i \<le> 3" | "i = 4" by linarith
  then have "scalar (i * 262144 + j * 4096 + k * 64 + l)"
    using j k(2) l(2) i lo by cases (simp_all add: scalar_def)
  then show ?thesis by (simp add: i j(1) k(1) l(1))
qed

lemma decode_bytes_scalar: "scalar (fst (decode_bytes a t))"
  by (simp add: decode_bytes_def scalar_two scalar_three scalar_four split: list.split)
     (simp add: scalar_def)

lemma runes_of_scalar: "list_all scalar (runes_of bs)"
  by (induction bs rule: runes_of.induct) (auto simp: runes_of.simps(2) decode_bytes_scalar)

lemma runes_scalar: "list_all scalar (runes s)"
  by (simp add: runes_def runes_of_scalar)

lemma encode_bytes_nonempty [simp]: "encode_bytes r \<noteq> []"
  by (simp add: encode_bytes_def)

lemma decode_encode1: "r < 0x80 \<Longrightarrow> decode_bytes r t = (r, 1)"
  by (simp add: decode_bytes_def)

lemma decode_encode2:
  assumes "0x80 \<le> r" "r < 0x800"
  shows "decode_bytes (0xC0 + r div 64) ((0x80 + r mod 64) # t) = (r, 2)"
proof -
  have "2 \<le> r div 64" "r div 64 \<le> 31" using assms by auto
  then show ?thesis by (auto simp: decode_bytes_def second_ok_def)
qed

lemma decode_encode3:
  assumes "0x800 \<le> r" "r < 0x10000" "scalar r"
  shows "decode_bytes (0xE0 + r div 4096) ((0x80 + r div 64 mod 64) # (0x80 + r mod 64) # t) = (r, 3)"
proof -
  define q where "q = r div 64"
  have q: "q div 64 = r div 4096" by (simp add: q_def flip: div_mult2_eq)
  have rq: "r = q * 64 + r mod 64" by (simp add: q_def)
  have qq: "q = q div 64 * 64 + q mod 64" by simp
  have hi: "q div 64 \<le> 15" using assms by (simp add: q)
  have low: "32 \<le> q mod 64" if "q div 64 = 0"
    using that assms(1) rq qq by (simp add: q_def)
  have sur: "q mod 64 \<le> 31" if "q div 64 = 13"
    using that assms(3) rq qq by (auto simp: scalar_def)
  have "(q div 64) * 4096 + (q mod 64) * 64 + r mod 64 = r"
    using rq qq by linarith
  moreover have "second_ok (224 + q div 64) (128 + q mod 64)"
    using low sur hi by (auto simp: second_ok_def)
  ultimately show ?thesis
    using hi by (simp add: decode_bytes_def cont_byte_def flip: q q_def)
qed

lemma decode_encode4:
  assumes "0x10000 \<le> r" "r \<le> 0x10FFFF"
  shows "decode_bytes (0xF0 + r div 262144)
     ((0x80 + r div 4096 mod 64) # (0x80 + r div 64 mod 64) # (0x80 + r mod 64) # t) = (r, 4)"
proof -
  define q where "q = r div 64"
  define p where "p = q div 64"
  have q: "p = r div 4096" "p div 64 = r div 262144" by (simp_all add: q_def p_def flip: div_mult2_eq)
  have rq: "r = q * 64 + r mod 64" by (simp add: q_def)
  have qq: "q = p * 64 + q mod 64" by (simp add: p_def)
  have pp: "p = p div 64 * 64 + p mod 64" by simp
  have hi: "p div 64 \<le> 4" using assms by (simp add: q(2))
  have low: "16 \<le> p mod 64" if "p div 64 = 0"
    using that assms(1) pp by (simp add: q(1))
  have top: "p mod 64 \<le> 15" if "p div 64 = 4"
    using that assms(2) pp by (simp add: q(1))
  have "p div 64 * 262144 + (p mod 64) * 4096 + (q mod 64) * 64 + r mod 64 = r"
    using rq qq pp by linarith
  moreover have "second_ok (240 + p div 64) (128 + p mod 64)"
    using low top hi by (auto simp: second_ok_def)
  moreover have "q mod 64 \<le> 63 \<and> r mod 64 \<le> 63" by auto
  ultimately show ?thesis
    using hi by (simp add: decode_bytes_def cont_byte_def flip: q q_def)
qed

lemma runes_of_encode:
  assumes "scalar r"
  shows "runes_of (encode_bytes r @ t) = r # runes_of t"
proof -
  consider "r < 0x80" | "0x80 \<le> r" "r < 0x800" | "0x800 \<le> r" "r < 0x10000"
    | "0x10000 \<le> r" "r \<le> 0x10FFFF"
    using assms by (force simp: scalar_def)
  then show ?thesis
    using assms
    by cases (simp_all add: encode_bytes_def runes_of.simps(2) decode_encode1 decode_encode2
        decode_encode3 decode_encode4)
qed

lemma runes_of_concat:
  "list_all scalar rs \<Longrightarrow> runes_of (concat (map encode_bytes rs) @ t) = rs @ runes_of t"
  by (induction rs) (auto simp: runes_of_encode)

lemma encode_bytes_bound: "scalar r \<Longrightarrow> b \<in> set (encode_bytes r) \<Longrightarrow> b < 256"
  by (auto simp: encode_bytes_def scalar_def split: if_splits)

lemma runes_string_of_runes_append:
  assumes "list_all scalar rs"
  shows "runes (string_of_runes rs @ s) = rs @ runes s"
proof -
  have "map byte_of (string_of_runes rs) = concat (map encode_bytes rs)"
    using assms
    by (auto simp: string_of_runes_def byte_of_def list_all_iff intro!: map_idI
        dest!: encode_bytes_bound [rotated])
  then show ?thesis by (simp add: runes_def runes_of_concat [OF assms])
qed

lemma runes_ascii: "list_all (\<lambda>c. byte_of c < 0x80) s \<Longrightarrow> runes s = map byte_of s"
  by (induction s) (auto simp: runes_def runes_of.simps(2) decode_encode1)

end
