(* ===== verification/Go_Json.thy ===== *)
theory Go_Json
  imports Go_Utf8
begin

text \<open>
  Package encoding/json, as far as the program uses it: JSON values, the printer behind
  \<open>Marshal\<close> and \<open>MarshalIndent\<close> (HTML-safe escapes, \<open>\ufffd\<close> for invalid UTF-8) and the
  parser behind \<open>Unmarshal\<close> and \<open>Decoder.Decode\<close> (nesting limited to 10000 levels).
  Main result: the parser undoes the printer up to the repair of invalid UTF-8.
\<close>

section \<open>Values\<close>

text \<open>Numbers are kept as written, objects as the list of their members.\<close>

datatype json =
    JNull
  | JBool bool
  | JNum string
  | JStr string
  | JArr "json list"
  | JObj "(string \<times> json) list"

text \<open>The string with every invalid byte replaced by U+FFFD, as both directions do it.\<close>

definition to_valid :: "string \<Rightarrow> string" where
  "to_valid s = string_of_runes (runes s)"

definition valid_utf8 :: "string \<Rightarrow> bool" where
  "valid_utf8 s = (to_valid s = s)"

definition rune_at :: "char \<Rightarrow> string \<Rightarrow> rune \<times> nat" where
  "rune_at c cs = decode_bytes (byte_of c) (map byte_of (take 3 cs))"

section \<open>Strings\<close>

definition hex_digit :: "nat \<Rightarrow> char" where
  "hex_digit n = (if n < 10 then char_of (0x30 + n) else char_of (0x57 + n))"

definition hex4 :: "nat \<Rightarrow> string" where
  "hex4 n = [hex_digit (n div 4096 mod 16), hex_digit (n div 256 mod 16),
             hex_digit (n div 16 mod 16), hex_digit (n mod 16)]"

definition bslash :: char where "bslash = CHR 0x5C"
definition dquote :: char where "dquote = CHR 0x22"

definition u_escape :: "nat \<Rightarrow> string" where
  "u_escape n = bslash # CHR ''u'' # hex4 n"

definition esc_ascii :: "char \<Rightarrow> string" where
  "esc_ascii c =
     (if c = dquote \<or> c = bslash then [bslash, c]
      else if c = CHR 0x08 then [bslash, CHR ''b'']
      else if c = CHR 0x0C then [bslash, CHR ''f'']
      else if c = CHR 0x0A then [bslash, CHR ''n'']
      else if c = CHR 0x0D then [bslash, CHR ''r'']
      else if c = CHR 0x09 then [bslash, CHR ''t'']
      else if byte_of c < 0x20 \<or> c = CHR ''<'' \<or> c = CHR ''>'' \<or> c = CHR ''&''
           then u_escape (byte_of c)
      else [c])"

function enc_chars :: "string \<Rightarrow> string" where
  "enc_chars [] = []"
| "enc_chars (c # cs) =
     (if byte_of c < 0x80 then esc_ascii c @ enc_chars cs
      else (let r = fst (rune_at c cs); n = snd (rune_at c cs)
            in if r = rune_error \<and> n = 1 then u_escape rune_error @ enc_chars cs
               else if r = 0x2028 \<or> r = 0x2029 then u_escape r @ enc_chars (drop n (c # cs))
               else take n (c # cs) @ enc_chars (drop n (c # cs))))"
  by pat_completeness auto
termination
  by (relation "measure length") (auto simp: rune_at_def intro!: diff_less)

declare enc_chars.simps(2) [simp del]

definition quote_json :: "string \<Rightarrow> string" where
  "quote_json s = dquote # enc_chars s @ [dquote]"

definition hex_val :: "char \<Rightarrow> nat option" where
  "hex_val c =
     (let b = byte_of c
      in if 0x30 \<le> b \<and> b \<le> 0x39 then Some (b - 0x30)
         else if 0x61 \<le> b \<and> b \<le> 0x66 then Some (b - 0x57)
         else if 0x41 \<le> b \<and> b \<le> 0x46 then Some (b - 0x37)
         else None)"

definition getu4 :: "string \<Rightarrow> (nat \<times> string) option" where
  "getu4 s =
     (case s of
        a # b # c # d # r \<Rightarrow>
          (case (hex_val a, hex_val b, hex_val c, hex_val d) of
             (Some w, Some x, Some y, Some z) \<Rightarrow> Some (w * 4096 + x * 256 + y * 16 + z, r)
           | _ \<Rightarrow> None)
      | _ \<Rightarrow> None)"

definition is_surrogate :: "nat \<Rightarrow> bool" where
  "is_surrogate r = (0xD800 \<le> r \<and> r < 0xE000)"

text \<open>
  The rune of a \<open>\u\<close> escape whose four digits are read: a low surrogate escaped right
  after a high one is combined with it, any other surrogate becomes U+FFFD.
\<close>

definition u_rune :: "nat \<Rightarrow> string \<Rightarrow> rune \<times> string" where
  "u_rune r s =
     (if \<not> is_surrogate r then (r, s)
      else (case s of
              b # u # t \<Rightarrow>
                (if b = bslash \<and> u = CHR ''u'' then
                   (case getu4 t of
                      Some (r2, t') \<Rightarrow>
                        (if r < 0xDC00 \<and> 0xDC00 \<le> r2 \<and> r2 < 0xE000
                         then ((r - 0xD800) * 1024 + (r2 - 0xDC00) + 0x10000, t')
                         else (rune_error, s))
                    | None \<Rightarrow> (rune_error, s))
                 else (rune_error, s))
            | _ \<Rightarrow> (rune_error, s)))"

definition simple_escape :: "char \<Rightarrow> char option" where
  "simple_escape c =
     (if c = dquote \<or> c = bslash \<or> c = CHR ''/'' then Some c
      else if c = CHR ''b'' then Some (CHR 0x08)
      else if c = CHR ''f'' then Some (CHR 0x0C)
      else if c = CHR ''n'' then Some (CHR 0x0A)
      else if c = CHR ''r'' then Some (CHR 0x0D)
      else if c = CHR ''t'' then Some (CHR 0x09)
      else None)"

text \<open>One rune of a string literal, decoded to UTF-8, and the rest of the input.\<close>

definition str_unit :: "char \<Rightarrow> string \<Rightarrow> (string \<times> string) option" where
  "str_unit c cs =
     (if c = bslash then
        (case cs of
           [] \<Rightarrow> None
         | e # t \<Rightarrow>
             (if e = CHR ''u'' then
                (case getu4 t of
                   None \<Rightarrow> None
                 | Some (r, t') \<Rightarrow> (case u_rune r t' of (q, t'') \<Rightarrow> Some (string_of_runes [q], t'')))
              else (case simple_escape e of None \<Rightarrow> None | Some x \<Rightarrow> Some ([x], t))))
      else if byte_of c < 0x20 then None
      else if byte_of c < 0x80 then Some ([c], cs)
      else (case rune_at c cs of (r, n) \<Rightarrow> Some (string_of_runes [r], drop (n - 1) cs)))"

lemma getu4_shorter: "getu4 s = Some (r, t) \<Longrightarrow> length t < length s"
  by (auto simp: getu4_def split: list.splits option.splits)

lemma u_rune_shorter: "u_rune r s = (q, t) \<Longrightarrow> length t \<le> length s"
  by (auto simp: u_rune_def split: if_splits list.splits option.splits dest!: getu4_shorter)

lemma str_unit_shorter: "str_unit c cs = Some (x, t) \<Longrightarrow> length t \<le> length cs"
  by (auto simp: str_unit_def split: if_splits list.splits option.splits prod.splits
      dest!: getu4_shorter u_rune_shorter)

text \<open>A string literal after its opening quote.\<close>

function parse_str :: "string \<Rightarrow> (string \<times> string) option" where
  "parse_str [] = None"
| "parse_str (c # cs) =
     (if c = dquote then Some ([], cs)
      else (case str_unit c cs of
              None \<Rightarrow> None
            | Some (x, t) \<Rightarrow> (case parse_str t of None \<Rightarrow> None | Some (y, r) \<Rightarrow> Some (x @ y, r))))"
  by pat_completeness auto
termination
  by (relation "measure length") (auto dest: str_unit_shorter)

declare parse_str.simps(2) [simp del]

section \<open>Numbers\<close>

definition scan_int :: "string \<Rightarrow> (string \<times> string) option" where
  "scan_int s =
     (case s of
        [] \<Rightarrow> None
      | c # r \<Rightarrow> (if c = CHR ''0'' then Some ([c], r)
                 else if is_digit c then Some (takeWhile is_digit s, dropWhile is_digit s)
                 else None))"

definition scan_digits :: "string \<Rightarrow> (string \<times> string) option" where
  "scan_digits s =
     (if takeWhile is_digit s = [] then None else Some (takeWhile is_digit s, dropWhile is_digit s))"

definition scan_frac :: "string \<Rightarrow> (string \<times> string) option" where
  "scan_frac s =
     (case s of
        c # r \<Rightarrow> (if c = CHR ''.'' then (case scan_digits r of None \<Rightarrow> None | Some (d, t) \<Rightarrow> Some (c # d, t))
                 else Some ([], s))
      | [] \<Rightarrow> Some ([], s))"

definition scan_exp :: "string \<Rightarrow> (string \<times> string) option" where
  "scan_exp s =
     (case s of
        c # r \<Rightarrow>
          (if c = CHR ''e'' \<or> c = CHR ''E'' then
             (case r of
                g # r' \<Rightarrow>
                  (if g = CHR ''+'' \<or> g = CHR ''-''
                   then (case scan_digits r' of None \<Rightarrow> None | Some (d, t) \<Rightarrow> Some (c # g # d, t))
                   else (case scan_digits r of None \<Rightarrow> None | Some (d, t) \<Rightarrow> Some (c # d, t)))
              | [] \<Rightarrow> None)
           else Some ([], s))
      | [] \<Rightarrow> Some ([], s))"

definition scan_unsigned :: "string \<Rightarrow> (string \<times> string) option" where
  "scan_unsigned s =
     (case scan_int s of
        None \<Rightarrow> None
      | Some (i, s1) \<Rightarrow>
          (case scan_frac s1 of
             None \<Rightarrow> None
           | Some (f, s2) \<Rightarrow>
               (case scan_exp s2 of None \<Rightarrow> None | Some (e, s3) \<Rightarrow> Some (i @ f @ e, s3))))"

definition parse_num :: "string \<Rightarrow> (string \<times> string) option" where
  "parse_num s =
     (case s of
        c # r \<Rightarrow> (if c = CHR ''-'' then (case scan_unsigned r of None \<Rightarrow> None | Some (n, t) \<Rightarrow> Some (c # n, t))
                 else scan_unsigned s)
      | [] \<Rightarrow> None)"

definition valid_num :: "string \<Rightarrow> bool" where
  "valid_num n = (parse_num n = Some (n, []))"

section \<open>The printer\<close>

text \<open>
  One printer for both layouts: \<open>nl k\<close> is the white space before a member at depth \<open>k\<close> and
  \<open>sp\<close> what follows a colon.
\<close>

fun print_json :: "(nat \<Rightarrow> string) \<Rightarrow> string \<Rightarrow> nat \<Rightarrow> json \<Rightarrow> string"
and print_elems :: "(nat \<Rightarrow> string) \<Rightarrow> string \<Rightarrow> nat \<Rightarrow> json list \<Rightarrow> string"
and print_members :: "(nat \<Rightarrow> string) \<Rightarrow> string \<Rightarrow> nat \<Rightarrow> (string \<times> json) list \<Rightarrow> string" where
  "print_json nl sp k JNull = ''null''"
| "print_json nl sp k (JBool b) = (if b then ''true'' else ''false'')"
| "print_json nl sp k (JNum n) = n"
| "print_json nl sp k (JStr s) = quote_json s"
| "print_json nl sp k (JArr xs) =
     (if xs = [] then ''[]'' else ''['' @ nl (Suc k) @ print_elems nl sp k xs @ nl k @ '']'')"
| "print_json nl sp k (JObj ms) =
     (if ms = [] then ''{}'' else ''{'' @ nl (Suc k) @ print_members nl sp k ms @ nl k @ ''}'')"
| "print_elems nl sp k [] = []"
| "print_elems nl sp k (x # xs) =
     print_json nl sp (Suc k) x @
     (if xs = [] then [] else '','' @ nl (Suc k) @ print_elems nl sp k xs)"
| "print_members nl sp k [] = []"
| "print_members nl sp k (m # ms) =
     quote_json (fst m) @ '':'' @ sp @ print_json nl sp (Suc k) (snd m) @
     (if ms = [] then [] else '','' @ nl (Suc k) @ print_members nl sp k ms)"

definition marshal :: "json \<Rightarrow> string" where
  "marshal j = print_json (\<lambda>_. []) [] 0 j"

definition marshal_indent :: "json \<Rightarrow> string" where
  "marshal_indent j = print_json (\<lambda>k. CHR 0x0A # replicate (2 * k) (CHR '' '')) '' '' 0 j"

section \<open>The parser\<close>

definition json_ws :: "char \<Rightarrow> bool" where
  "json_ws c = (c = CHR '' '' \<or> c = CHR 0x09 \<or> c = CHR 0x0D \<or> c = CHR 0x0A)"

definition skip_ws :: "string \<Rightarrow> string" where
  "skip_ws s = dropWhile json_ws s"

lemma length_skip_ws: "length (skip_ws s) \<le> length s"
  by (simp add: skip_ws_def length_dropWhile_le)

lemma skip_ws_Cons_shorter: "skip_ws s = c # r \<Longrightarrow> length r < length s"
  using length_skip_ws [of s] by simp

definition maxNestingDepth :: nat where
  "maxNestingDepth = 10000"

definition literal :: "string \<Rightarrow> json \<Rightarrow> string \<Rightarrow> (json \<times> string) option" where
  "literal w j s = (case cut_prefix s w of None \<Rightarrow> None | Some r \<Rightarrow> Some (j, r))"

text \<open>
  \<open>d\<close> is the number of levels that may still be opened.  The tests on the length of the
  remaining input always hold (\<open>parse_shorter\<close>); they make the recursion well-founded.
\<close>

function parse_value :: "nat \<Rightarrow> string \<Rightarrow> (json \<times> string) option"
and parse_elems :: "nat \<Rightarrow> string \<Rightarrow> (json list \<times> string) option"
and parse_members :: "nat \<Rightarrow> string \<Rightarrow> ((string \<times> json) list \<times> string) option" where
  "parse_value d s =
     (case skip_ws s of
        [] \<Rightarrow> None
      | c # r \<Rightarrow>
          (if c = CHR ''{'' then
             (if d = 0 then None
              else if skip_ws r \<noteq> [] \<and> hd (skip_ws r) = CHR ''}'' then Some (JObj [], tl (skip_ws r))
              else (case parse_members (d - 1) r of None \<Rightarrow> None | Some (ms, t) \<Rightarrow> Some (JObj ms, t)))
           else if c = CHR ''['' then
             (if d = 0 then None
              else if skip_ws r \<noteq> [] \<and> hd (skip_ws r) = CHR '']'' then Some (JArr [], tl (skip_ws r))
              else (case parse_elems (d - 1) r of None \<Rightarrow> None | Some (xs, t) \<Rightarrow> Some (JArr xs, t)))
           else if c = dquote then
             (case parse_str r of None \<Rightarrow> None | Some (x, t) \<Rightarrow> Some (JStr x, t))
           else if c = CHR ''t'' then literal ''rue'' (JBool True) r
           else if c = CHR ''f'' then literal ''alse'' (JBool False) r
           else if c = CHR ''n'' then literal ''ull'' JNull r
           else (case parse_num (c # r) of None \<Rightarrow> None | Some (x, t) \<Rightarrow> Some (JNum x, t))))"
| "parse_elems d s =
     (case parse_value d s of
        None \<Rightarrow> None
      | Some (x, t) \<Rightarrow>
          (if length t < length s then
             (case skip_ws t of
                [] \<Rightarrow> None
              | c # r \<Rightarrow>
                  (if c = CHR '']'' then Some ([x], r)
                   else if c = CHR '','' then
                     (case parse_elems d r of None \<Rightarrow> None | Some (xs, u) \<Rightarrow> Some (x # xs, u))
                   else None))
           else None))"
| "parse_members d s =
     (case skip_ws s of
        [] \<Rightarrow> None
      | q # s1 \<Rightarrow>
          (if q \<noteq> dquote then None
           else (case parse_str s1 of
                   None \<Rightarrow> None
                 | Some (key, s2) \<Rightarrow>
                     (if skip_ws s2 = [] \<or> hd (skip_ws s2) \<noteq> CHR '':'' \<or> \<not> length (tl (skip_ws s2)) < length s
                      then None
                      else (case parse_value d (tl (skip_ws s2)) of
                              None \<Rightarrow> None
                            | Some (x, t) \<Rightarrow>
                                (if length t < length s then
                                   (case skip_ws t of
                                      [] \<Rightarrow> None
                                    | c # r \<Rightarrow>
                                        (if c = CHR ''}'' then Some ([(key, x)], r)
                                         else if c = CHR '','' then
                                           (case parse_members d r of
                                              None \<Rightarrow> None | Some (ms, u) \<Rightarrow> Some ((key, x) # ms, u))
                                         else None))
                                 else None))))))"
  by pat_completeness auto

termination
proof (relation "measure (\<lambda>x. case x of
    Inl (d, s) \<Rightarrow> 2 * length (s :: string)
  | Inr (Inl (d, s)) \<Rightarrow> 2 * length (s :: string) + 1
  | Inr (Inr (d, s)) \<Rightarrow> 2 * length (s :: string) + 1)", goal_cases)
qed (auto dest!: skip_ws_Cons_shorter)

declare parse_value.simps [simp del] parse_elems.simps [simp del] parse_members.simps [simp del]

text \<open>\<open>json.Unmarshal\<close> wants the whole input; \<open>Decoder.Decode\<close> reads the first value.\<close>

definition unmarshal :: "string \<Rightarrow> json option" where
  "unmarshal s =
     (case parse_value maxNestingDepth s of
        None \<Rightarrow> None
      | Some (j, r) \<Rightarrow> if skip_ws r = [] then Some j else None)"

definition decode_first :: "string \<Rightarrow> json option" where
  "decode_first s = map_option fst (parse_value maxNestingDepth s)"

section \<open>The parser consumes input\<close>

lemma parse_str_shorter: "parse_str s = Some (x, t) \<Longrightarrow> length t < length s"
proof (induction s arbitrary: x t rule: parse_str.induct)
  case (2 c cs)
  then show ?case
    by (auto simp: parse_str.simps(2) split: if_splits option.splits dest!: str_unit_shorter) fastforce
qed simp

lemma scan_digits_shorter: "scan_digits s = Some (x, t) \<Longrightarrow> length t \<le> length s"
  by (auto simp: scan_digits_def length_dropWhile_le split: if_splits)

lemma scan_int_shorter: "scan_int s = Some (x, t) \<Longrightarrow> length t < length s"
  by (auto simp: scan_int_def length_dropWhile_le le_imp_less_Suc split: list.splits if_splits)

lemma scan_frac_shorter: "scan_frac s = Some (x, t) \<Longrightarrow> length t \<le> length s"
  by (auto simp: scan_frac_def split: list.splits if_splits option.splits dest: scan_digits_shorter)

lemma scan_exp_shorter: "scan_exp s = Some (x, t) \<Longrightarrow> length t \<le> length s"
  by (auto simp: scan_exp_def split: list.splits if_splits option.splits dest!: scan_digits_shorter)

lemma scan_unsigned_shorter: "scan_unsigned s = Some (x, t) \<Longrightarrow> length t < length s"
  by (auto simp: scan_unsigned_def split: option.splits
      dest!: scan_int_shorter scan_frac_shorter scan_exp_shorter)

lemma parse_num_shorter: "parse_num s = Some (x, t) \<Longrightarrow> length t < length s"
  by (auto simp: parse_num_def split: list.splits if_splits option.splits dest!: scan_unsigned_shorter)

lemma literal_shorter: "literal w j s = Some (x, t) \<Longrightarrow> length t \<le> length s"
  by (auto simp: literal_def cut_prefix_Some_iff split: option.splits)

lemma parse_shorter:
  "parse_value d s = Some (j, t) \<Longrightarrow> length t < length s"
  "parse_elems d s = Some (xs, t) \<Longrightarrow> length t < length s"
  "parse_members d s = Some (ms, t) \<Longrightarrow> length t < length s"
proof (induction d s and d s and d s arbitrary: j t and xs t and ms t
    rule: parse_value_parse_elems_parse_members.induct)
  case (1 d s)
  show ?case
  proof (cases "skip_ws s")
    case (Cons c r)
    have "length t \<le> length r"
      using "1.prems" "1.IH" [OF Cons] Cons length_skip_ws [of r]
      by (auto simp: parse_value.simps [of d s] split: if_splits option.splits
          dest!: parse_str_shorter parse_num_shorter literal_shorter)
    then show ?thesis using skip_ws_Cons_shorter [OF Cons] by simp
  qed (use "1.prems" in \<open>simp add: parse_value.simps [of d s]\<close>)
next
  case (2 d s)
  from "2.prems" obtain x u where u: "parse_value d s = Some (x, u)" "length u < length s"
    by (simp add: parse_elems.simps [of d s] split: option.splits if_splits prod.splits)
  from "2.prems" u obtain c r where r: "skip_ws u = c # r"
    by (cases "skip_ws u") (simp_all add: parse_elems.simps [of d s])
  note IH = "2.IH"(2) [OF u(1) refl u(2) r]
  have "length t \<le> length r"
    using "2.prems" u r IH
    by (auto simp: parse_elems.simps [of d s] less_imp_le split: if_splits option.splits)
  then show ?case using skip_ws_Cons_shorter [OF r] u(2) by simp
next
  case (3 d s)
  from "3.prems" obtain q s1 where q: "skip_ws s = q # s1" "\<not> q \<noteq> dquote"
    by (simp add: parse_members.simps [of d s] split: list.splits if_splits)
  from "3.prems" q obtain key s2 where k: "parse_str s1 = Some (key, s2)"
    by (cases "parse_str s1") (auto simp add: parse_members.simps [of d s])
  from "3.prems" q k have g: "\<not> (skip_ws s2 = [] \<or> hd (skip_ws s2) \<noteq> CHR '':'' \<or> \<not> length (tl (skip_ws s2)) < length s)"
    by (auto simp: parse_members.simps [of d s] split: if_splits)
  from "3.prems" q k g obtain x u where u: "parse_value d (tl (skip_ws s2)) = Some (x, u)" "length u < length s"
    by (simp add: parse_members.simps [of d s] split: option.splits if_splits prod.splits)
  from "3.prems" q k g u obtain c r where r: "skip_ws u = c # r"
    by (cases "skip_ws u") (simp_all add: parse_members.simps [of d s])
  note IH = "3.IH"(2) [OF q k refl g u(1) refl u(2) r]
  have "length t \<le> length r"
    using "3.prems" q k g u r IH
    by (auto simp: parse_members.simps [of d s] less_imp_le split: if_splits option.splits)
  then show ?case using skip_ws_Cons_shorter [OF r] u(2) by simp
qed

text \<open>Hence the equations without the length tests.\<close>

lemma parse_elems_eq:
  "parse_elems d s =
     (case parse_value d s of
        None \<Rightarrow> None
      | Some (x, t) \<Rightarrow>
          (case skip_ws t of
             [] \<Rightarrow> None
           | c # r \<Rightarrow>
               (if c = CHR '']'' then Some ([x], r)
                else if c = CHR '','' then
                  (case parse_elems d r of None \<Rightarrow> None | Some (xs, u) \<Rightarrow> Some (x # xs, u))
                else None)))"
  by (auto simp: parse_elems.simps [of d s] split: option.splits dest!: parse_shorter(1))

lemma parse_members_eq:
  "parse_members d s =
     (case skip_ws s of
        [] \<Rightarrow> None
      | q # s1 \<Rightarrow>
          (if q \<noteq> dquote then None
           else (case parse_str s1 of
                   None \<Rightarrow> None
                 | Some (key, s2) \<Rightarrow>
                     (if skip_ws s2 = [] \<or> hd (skip_ws s2) \<noteq> CHR '':'' then None
                      else (case parse_value d (tl (skip_ws s2)) of
                              None \<Rightarrow> None
                            | Some (x, t) \<Rightarrow>
                                (case skip_ws t of
                                   [] \<Rightarrow> None
                                 | c # r \<Rightarrow>
                                     (if c = CHR ''}'' then Some ([(key, x)], r)
                                      else if c = CHR '','' then
                                        (case parse_members d r of
                                           None \<Rightarrow> None | Some (ms, u) \<Rightarrow> Some ((key, x) # ms, u))
                                      else None)))))))"
proof (cases "skip_ws s")
  case (Cons q s1)
  have short: "length (tl (skip_ws s2)) < length s" if "parse_str s1 = Some (key, s2)" for key s2
    using parse_str_shorter [OF that] skip_ws_Cons_shorter [OF Cons] length_skip_ws [of s2] by simp
  have "length t < length s"
    if "parse_str s1 = Some (key, s2)" "parse_value d (tl (skip_ws s2)) = Some (x, t)" for key s2 x t
    using parse_shorter(1) [OF that(2)] short [OF that(1)] by simp
  with short Cons show ?thesis
    by (simp add: parse_members.simps [of d s] split: option.split)
qed (simp add: parse_members.simps)

section \<open>The parser undoes the printer\<close>

text \<open>Strings.\<close>

lemma byte_of_char_of: "n < 256 \<Longrightarrow> byte_of (char_of n) = n"
  unfolding byte_of_def of_char_of by simp

lemma hex_val_hex_digit [simp]: "n < 16 \<Longrightarrow> hex_val (hex_digit n) = Some n"
  by (cases "n < 10") (simp_all add: hex_val_def hex_digit_def byte_of_char_of Let_def)

lemma base16_combine:
  "v = c \<Longrightarrow> c * 16 + y = b \<Longrightarrow> b * 16 + x = a \<Longrightarrow> a * 16 + w = n \<Longrightarrow>
   v * 4096 + y * 256 + x * 16 + w = (n :: nat)"
  by simp

lemma hex4_val: "n < 65536 \<Longrightarrow>
    n div 4096 mod 16 * 4096 + n div 256 mod 16 * 256 + n div 16 mod 16 * 16 + n mod 16 = (n :: nat)"
proof -
  assume n: "n < 65536"
  define a where "a = n div 16"
  define b where "b = a div 16"
  define c where "c = b div 16"
  have eqs: "n div 256 = b" "n div 4096 = c" by (simp_all add: a_def b_def c_def flip: div_mult2_eq)
  have "c mod 16 = c" using n by (simp flip: eqs(2))
  moreover have "c * 16 + b mod 16 = b" by (simp add: c_def)
  moreover have "b * 16 + a mod 16 = a" by (simp add: b_def)
  moreover have "a * 16 + n mod 16 = n" by (simp add: a_def)
  ultimately show ?thesis
    unfolding eqs a_def [symmetric] by (rule base16_combine)
qed

lemma getu4_hex4 [simp]: "n < 65536 \<Longrightarrow> getu4 (hex4 n @ r) = Some (n, r)"
  using hex4_val [of n] by (simp add: getu4_def hex4_def)

lemma str_unit_u_escape:
  assumes "n < 65536" "\<not> is_surrogate n"
  shows "str_unit bslash (CHR ''u'' # hex4 n @ r) = Some (string_of_runes [n], r)"
  using assms by (simp add: str_unit_def u_rune_def)

lemma string_of_runes_Cons: "string_of_runes (r # rs) = string_of_runes [r] @ string_of_runes rs"
  by (simp add: string_of_runes_def)

lemma string_of_runes_ascii: "n < 128 \<Longrightarrow> string_of_runes [n] = [char_of n]"
  by (simp add: string_of_runes_def encode_bytes_def)

lemma char_of_byte_of [simp]: "char_of (byte_of c) = c"
  by (simp add: byte_of_def)

lemma byte_of_less [simp]: "byte_of c < 256"
  by (simp add: byte_of_def)

lemma parse_str_unit:
  assumes "c \<noteq> dquote" "str_unit c cs = Some (x, t)" "parse_str t = Some (y, r)"
  shows "parse_str (c # cs) = Some (x @ y, r)"
  using assms by (simp add: parse_str.simps(2))

lemma bslash_not_dquote [simp]: "bslash \<noteq> dquote" "dquote \<noteq> bslash"
  by (simp_all add: bslash_def dquote_def)

lemma parse_str_u_escape:
  "n < 65536 \<Longrightarrow> \<not> is_surrogate n \<Longrightarrow> parse_str t = Some (y, r) \<Longrightarrow>
   parse_str (u_escape n @ t) = Some (string_of_runes [n] @ y, r)"
  unfolding u_escape_def append_Cons
  by (rule parse_str_unit [OF _ str_unit_u_escape]) simp_all

lemma esc_ascii_cases:
  "(\<exists>e. esc_ascii c = [bslash, e] \<and> e \<noteq> CHR ''u'' \<and> simple_escape e = Some c) \<or>
   esc_ascii c = u_escape (byte_of c) \<or>
   (esc_ascii c = [c] \<and> c \<noteq> dquote \<and> c \<noteq> bslash \<and> \<not> byte_of c < 0x20)"
proof (cases "c \<in> {dquote, bslash, CHR 0x08, CHR 0x0C, CHR 0x0A, CHR 0x0D, CHR 0x09}")
  case True
  then show ?thesis
    by (elim insertE emptyE) (simp_all add: esc_ascii_def simple_escape_def bslash_def dquote_def)
next
  case False
  then show ?thesis by (simp add: esc_ascii_def)
qed

lemma parse_str_esc_ascii:
  assumes "byte_of c < 0x80" "parse_str t = Some (y, r)"
  shows "parse_str (esc_ascii c @ t) = Some (c # y, r)"
proof -
  consider e where "esc_ascii c = [bslash, e]" "e \<noteq> CHR ''u''" "simple_escape e = Some c"
    | "esc_ascii c = u_escape (byte_of c)"
    | "esc_ascii c = [c]" "c \<noteq> dquote" "c \<noteq> bslash" "\<not> byte_of c < 0x20"
    using esc_ascii_cases [of c] by blast
  then show ?thesis
  proof cases
    case 1
    then show ?thesis
      using parse_str_unit [of bslash "e # t" "[c]" t] assms(2) by (simp add: str_unit_def)
  next
    case 2
    then show ?thesis
      using parse_str_u_escape [of "byte_of c"] assms
      by (simp add: is_surrogate_def string_of_runes_ascii)
  next
    case 3
    then show ?thesis
      using parse_str_unit [of c t "[c]" t] assms by (simp add: str_unit_def)
  qed
qed

lemma decode_bytes_take3: "decode_bytes a (take 3 t) = decode_bytes a t"
proof (cases t)
  case (Cons b t1)
  then show ?thesis
  proof (cases t1)
    case (Cons c t2)
    then show ?thesis using \<open>t = b # t1\<close> by (cases t2) (simp_all add: decode_bytes_def)
  qed (simp add: decode_bytes_def)
qed simp

lemma rune_at_bytes: "rune_at c cs = decode_bytes (byte_of c) (map byte_of cs)"
  by (simp add: rune_at_def decode_bytes_take3 flip: take_map)

lemma rune_at_size [simp]: "0 < snd (rune_at c cs)"
  by (simp add: rune_at_def)

lemma runes_Cons:
  "runes (c # cs) = fst (rune_at c cs) # runes (drop (snd (rune_at c cs)) (c # cs))"
  by (simp add: runes_def runes_of.simps(2) rune_at_bytes flip: drop_map)

lemma rune_at_ascii: "byte_of c < 0x80 \<Longrightarrow> rune_at c cs = (byte_of c, 1)"
  by (simp add: rune_at_def decode_encode1)

lemma decode_bytes_local:
  assumes "decode_bytes a t = (r, n)" "r \<noteq> rune_error \<or> n \<noteq> 1"
  shows "decode_bytes a (take (n - 1) t @ u) = (r, n)"
  using assms by (auto simp: decode_bytes_def split: if_splits list.splits)

lemma rune_at_local:
  assumes "rune_at c cs = (r, n)" "r \<noteq> rune_error \<or> n \<noteq> 1"
  shows "rune_at c (take (n - 1) cs @ u) = (r, n)"
  using decode_bytes_local [of "byte_of c" "map byte_of cs" r n "map byte_of u"] assms
  by (simp add: rune_at_bytes take_map)

lemma rune_at_error: "rune_at c cs = (r, 1) \<Longrightarrow> \<not> byte_of c < 0x80 \<Longrightarrow> r = rune_error"
  by (auto simp: rune_at_bytes decode_bytes_def split: if_splits list.splits)

lemma rune_at_scalar: "scalar (fst (rune_at c cs))"
  by (simp add: rune_at_def decode_bytes_scalar)

lemma rune_at_within: "snd (rune_at c cs) \<le> Suc (length cs)"
  by (auto simp: rune_at_bytes decode_bytes_def split: list.splits)

lemma to_valid_Cons:
  "to_valid (c # cs) =
     string_of_runes [fst (rune_at c cs)] @ to_valid (drop (snd (rune_at c cs)) (c # cs))"
  by (simp add: to_valid_def runes_Cons string_of_runes_Cons [of _ "runes _"])

lemma parse_str_raw_rune:
  assumes c: "\<not> byte_of c < 0x80" and ru: "rune_at c cs = (r, n)" "n \<noteq> 1"
    and rest: "parse_str u = Some (y, v)"
  shows "parse_str (take n (c # cs) @ u) = Some (string_of_runes [r] @ y, v)"
proof -
  have n: "0 < n" "n \<le> Suc (length cs)"
    using rune_at_size [of c cs] rune_at_within [of c cs] ru(1) by simp_all
  have "c \<noteq> dquote" "c \<noteq> bslash" using c by (auto simp: dquote_def bslash_def byte_of_def)
  moreover have "rune_at c (take (n - 1) cs @ u) = (r, n)" using ru by (intro rune_at_local) auto
  ultimately have "str_unit c (take (n - 1) cs @ u) = Some (string_of_runes [r], u)"
    using c n by (simp add: str_unit_def min_def)
  from parse_str_unit [OF \<open>c \<noteq> dquote\<close> this rest] show ?thesis
    using n by (cases n) simp_all
qed

lemma parse_str_enc_chars:
  "parse_str (enc_chars s @ dquote # v) = Some (to_valid s, v)"
proof (induction s rule: enc_chars.induct)
  case 1
  then show ?case
    by (simp add: parse_str.simps(2) to_valid_def runes_def string_of_runes_def)
next
  case (2 c cs)
  obtain r n where ru: "rune_at c cs = (r, n)" by fastforce
  have small: "rune_error < 65536" "\<not> is_surrogate rune_error" "\<not> is_surrogate 0x2028" "\<not> is_surrogate 0x2029"
    by (simp_all add: rune_error_def is_surrogate_def)
  consider "byte_of c < 0x80" | "\<not> byte_of c < 0x80" "r = rune_error \<and> n = 1"
    | "\<not> byte_of c < 0x80" "\<not> (r = rune_error \<and> n = 1)" "r = 0x2028 \<or> r = 0x2029"
    | "\<not> byte_of c < 0x80" "\<not> (r = rune_error \<and> n = 1)" "\<not> (r = 0x2028 \<or> r = 0x2029)"
    by blast
  then show ?case
  proof cases
    case 1
    then show ?thesis
      using parse_str_esc_ascii [OF 1 "2.IH"(1) [OF 1]]
      by (simp add: enc_chars.simps(2) to_valid_Cons rune_at_ascii string_of_runes_ascii)
  next
    case 2
    note ih = "2.IH"(2) [OF 2(1) refl refl, unfolded ru fst_conv snd_conv, OF 2(2)]
    show ?thesis
      using 2 ru parse_str_u_escape [OF small(1,2) ih]
      by (simp add: enc_chars.simps(2) to_valid_Cons)
  next
    case 3
    note ih = "2.IH"(3) [OF 3(1) refl refl, unfolded ru fst_conv snd_conv, OF 3(2,3)]
    have "r < 65536" "\<not> is_surrogate r" using 3(3) small by auto
    with 3 ru parse_str_u_escape [OF this ih] show ?thesis
      by (auto simp: enc_chars.simps(2) to_valid_Cons)
  next
    case 4
    note ih = "2.IH"(4) [OF 4(1) refl refl, unfolded ru fst_conv snd_conv, OF 4(2,3)]
    have "n \<noteq> 1" using 4 ru rune_at_error by auto
    with parse_str_raw_rune [OF 4(1) ru this ih] 4 ru show ?thesis
      by (auto simp: enc_chars.simps(2) to_valid_Cons)
  qed
qed

text \<open>Numbers: scanning stops where the literal ends.\<close>

definition num_stop :: "string \<Rightarrow> bool" where
  "num_stop r = (r = [] \<or> (\<not> is_digit (hd r) \<and> hd r \<notin> {CHR ''.'', CHR ''e'', CHR ''E''}))"

lemma takeWhile_stop: "r = [] \<or> \<not> P (hd r) \<Longrightarrow> takeWhile P (x @ r) = takeWhile P x"
  by (induction x) (auto simp: takeWhile_eq_Nil_iff)

lemma dropWhile_stop: "r = [] \<or> \<not> P (hd r) \<Longrightarrow> dropWhile P (x @ r) = dropWhile P x @ r"
  by (induction x) (auto simp: dropWhile_eq_self_iff)

lemma num_stop_digit: "num_stop r \<Longrightarrow> r = [] \<or> \<not> is_digit (hd r)"
  by (auto simp: num_stop_def)

lemma scan_digits_append:
  "num_stop r \<Longrightarrow> scan_digits x = Some (d, t) \<Longrightarrow> scan_digits (x @ r) = Some (d, t @ r)"
  by (auto simp: scan_digits_def takeWhile_stop dropWhile_stop dest!: num_stop_digit split: if_splits)

lemma scan_int_append:
  "num_stop r \<Longrightarrow> scan_int x = Some (d, t) \<Longrightarrow> scan_int (x @ r) = Some (d, t @ r)"
  by (auto simp: scan_int_def takeWhile_stop dropWhile_stop dest!: num_stop_digit
      split: list.splits if_splits)

lemma scan_frac_append:
  "num_stop r \<Longrightarrow> scan_frac x = Some (d, t) \<Longrightarrow> scan_frac (x @ r) = Some (d, t @ r)"
  by (auto simp: scan_frac_def scan_digits_append split: list.splits if_splits option.splits)
     (auto simp: num_stop_def)

lemma scan_exp_append:
  "num_stop r \<Longrightarrow> scan_exp x = Some (d, t) \<Longrightarrow> scan_exp (x @ r) = Some (d, t @ r)"
proof (cases x)
  case Nil
  then show "num_stop r \<Longrightarrow> scan_exp x = Some (d, t) \<Longrightarrow> ?thesis"
    by (cases r) (auto simp: scan_exp_def num_stop_def)
next
  case (Cons c y)
  assume r: "num_stop r" and s: "scan_exp x = Some (d, t)"
  show ?thesis
  proof (cases y)
    case Nil
    then show ?thesis using r s Cons by (auto simp: scan_exp_def split: if_splits)
  next
    case (Cons g z)
    then show ?thesis
      using r s \<open>x = c # y\<close> scan_digits_append [OF r, of z] scan_digits_append [OF r, of y]
      by (auto simp: scan_exp_def split: if_splits option.splits)
  qed
qed

lemma scan_unsigned_append:
  "num_stop r \<Longrightarrow> scan_unsigned x = Some (d, t) \<Longrightarrow> scan_unsigned (x @ r) = Some (d, t @ r)"
  by (auto simp: scan_unsigned_def scan_int_append scan_frac_append scan_exp_append
      split: option.splits)

lemma parse_num_append:
  "num_stop r \<Longrightarrow> parse_num x = Some (d, t) \<Longrightarrow> parse_num (x @ r) = Some (d, t @ r)"
  by (auto simp: parse_num_def scan_unsigned_append split: list.splits if_splits option.splits)
     (use scan_unsigned_append in fastforce)

lemma parse_num_hd:
  assumes "parse_num (c # s) = Some p"
  shows "is_digit c \<or> c = CHR ''-''"
proof -
  have "is_digit (CHR ''0'')" by (simp add: is_digit_def)
  with assms show ?thesis
    by (auto simp: parse_num_def scan_unsigned_def scan_int_def split: if_splits option.splits)
qed

text \<open>White space.\<close>

lemma skip_ws_append: "list_all json_ws w \<Longrightarrow> skip_ws (w @ s) = skip_ws s"
  by (simp add: skip_ws_def list_all_iff dropWhile_append1 dropWhile_append2)

lemma skip_ws_Cons: "\<not> json_ws c \<Longrightarrow> skip_ws (c # s) = c # s"
  by (simp add: skip_ws_def)

lemma parse_ws:
  assumes "list_all json_ws w"
  shows "parse_value d (w @ s) = parse_value d s"
    "parse_elems d (w @ s) = parse_elems d s"
    "parse_members d (w @ s) = parse_members d s"
proof -
  show v: "parse_value d (w @ s) = parse_value d s"
    using assms by (simp add: parse_value.simps [of d "w @ s"] parse_value.simps [of d s] skip_ws_append)
  show "parse_elems d (w @ s) = parse_elems d s"
    by (simp add: parse_elems_eq [of d "w @ s"] parse_elems_eq [of d s] v)
  show "parse_members d (w @ s) = parse_members d s"
    using assms by (simp add: parse_members_eq [of d "w @ s"] parse_members_eq [of d s] skip_ws_append)
qed

text \<open>Values that can be printed and read back within \<open>d\<close> levels, and what is read back.\<close>

fun fits :: "nat \<Rightarrow> json \<Rightarrow> bool" where
  "fits d (JArr xs) = (0 < d \<and> (\<forall>x \<in> set xs. fits (d - 1) x))"
| "fits d (JObj ms) = (0 < d \<and> (\<forall>m \<in> set ms. fits (d - 1) (snd m)))"
| "fits d (JNum n) = valid_num n"
| "fits d j = True"

fun clean_json :: "json \<Rightarrow> json" where
  "clean_json (JStr s) = JStr (to_valid s)"
| "clean_json (JArr xs) = JArr (map clean_json xs)"
| "clean_json (JObj ms) = JObj (map (\<lambda>m. (to_valid (fst m), clean_json (snd m))) ms)"
| "clean_json j = j"

lemma num_stop_ws: "list_all json_ws w \<Longrightarrow> num_stop r \<Longrightarrow> num_stop (w @ r)"
  by (cases w) (auto simp: num_stop_def json_ws_def is_digit_def)

lemma num_stop_punct: "num_stop (CHR '','' # r)" "num_stop (CHR '']'' # r)" "num_stop (CHR ''}'' # r)"
  by (simp_all add: num_stop_def is_digit_def)

lemma json_ws_punct [simp]:
  "\<not> json_ws (CHR '','')" "\<not> json_ws (CHR '']'')" "\<not> json_ws (CHR ''}'')" "\<not> json_ws (CHR '':'')"
  "\<not> json_ws (CHR ''['')" "\<not> json_ws (CHR ''{'')" "\<not> json_ws dquote" "\<not> json_ws (CHR ''n'')"
  "\<not> json_ws (CHR ''t'')" "\<not> json_ws (CHR ''f'')"
  by (simp_all add: json_ws_def dquote_def)

lemma dquote_punct [simp]:
  "dquote \<noteq> CHR ''{''" "dquote \<noteq> CHR ''[''" "dquote \<noteq> CHR '']''" "dquote \<noteq> CHR ''}''"
  "CHR ''t'' \<noteq> dquote" "CHR ''f'' \<noteq> dquote" "CHR ''n'' \<noteq> dquote"
  by (simp_all add: dquote_def)

lemma parse_value_quote: "parse_value d (quote_json s @ r) = Some (JStr (to_valid s), r)"
  by (simp add: parse_value.simps quote_json_def skip_ws_Cons parse_str_enc_chars)

lemma parse_value_words:
  "parse_value d (CHR ''n'' # CHR ''u'' # CHR ''l'' # CHR ''l'' # r) = Some (JNull, r)"
  "parse_value d (CHR ''t'' # CHR ''r'' # CHR ''u'' # CHR ''e'' # r) = Some (JBool True, r)"
  "parse_value d (CHR ''f'' # CHR ''a'' # CHR ''l'' # CHR ''s'' # CHR ''e'' # r) = Some (JBool False, r)"
  by (simp_all add: parse_value.simps skip_ws_Cons literal_def cut_prefix_def has_prefix_def)

lemma parse_value_num:
  assumes "valid_num n" "num_stop r"
  shows "parse_value d (n @ r) = Some (JNum n, r)"
proof -
  have p: "parse_num n = Some (n, [])" using assms(1) by (simp add: valid_num_def)
  then obtain c s where n: "n = c # s" by (cases n) (auto simp: parse_num_def)
  then have c: "is_digit c \<or> c = CHR ''-''" using p parse_num_hd by blast
  then have "c \<noteq> CHR ''{''" "c \<noteq> CHR ''[''" "c \<noteq> dquote" "c \<noteq> CHR ''t''" "c \<noteq> CHR ''f''" "c \<noteq> CHR ''n''"
      "\<not> json_ws c"
    by (auto simp: is_digit_def dquote_def json_ws_def)
  then show ?thesis
    using parse_num_append [OF assms(2) p] n by (simp add: parse_value.simps skip_ws_Cons)
qed

lemma print_nonempty_hd:
  "xs \<noteq> [] \<Longrightarrow> list_all (fits d) xs \<Longrightarrow>
   \<exists>c t. print_elems nl sp k xs = c # t \<and> \<not> json_ws c \<and> c \<noteq> CHR '']''"
proof (cases xs)
  case (Cons x ys)
  assume "list_all (fits d) xs"
  then have "fits d x" using Cons by simp
  have "\<exists>c t. print_json nl sp (Suc k) x = c # t \<and> \<not> json_ws c \<and> c \<noteq> CHR '']''"
  proof (cases x)
    case (JNum n)
    then have "parse_num n = Some (n, [])" using \<open>fits d x\<close> by (simp add: valid_num_def)
    then obtain c s where "n = c # s" "is_digit c \<or> c = CHR ''-''"
      by (cases n) (auto simp: parse_num_def [of "[]"] dest: parse_num_hd)
    with JNum show ?thesis by (auto simp: json_ws_def is_digit_def)
  qed (auto simp: quote_json_def)
  then show ?thesis using Cons by auto
qed simp

definition ws_layout :: "(nat \<Rightarrow> string) \<Rightarrow> string \<Rightarrow> bool" where
  "ws_layout nl sp = ((\<forall>k. list_all json_ws (nl k)) \<and> list_all json_ws sp)"

lemma parse_print:
  "ws_layout nl sp \<Longrightarrow> fits d j \<Longrightarrow> num_stop r \<Longrightarrow>
     parse_value d (print_json nl sp k j @ r) = Some (clean_json j, r)"
  "ws_layout nl sp \<Longrightarrow> list_all (fits d) xs \<Longrightarrow> xs \<noteq> [] \<Longrightarrow>
     parse_elems d (print_elems nl sp k xs @ nl k @ CHR '']'' # r) = Some (map clean_json xs, r)"
  "ws_layout nl sp \<Longrightarrow> list_all (\<lambda>m. fits d (snd m)) ms \<Longrightarrow> ms \<noteq> [] \<Longrightarrow>
     parse_members d (print_members nl sp k ms @ nl k @ CHR ''}'' # r) =
       Some (map (\<lambda>m. (to_valid (fst m), clean_json (snd m))) ms, r)"
proof (induction nl sp k j and nl sp k xs and nl sp k ms arbitrary: d r and d r and d r
    rule: print_json_print_elems_print_members.induct)
  case (5 nl sp k xs)
  then have ws: "list_all json_ws (nl n)" for n by (simp add: ws_layout_def)
  show ?case
  proof (cases "xs = []")
    case False
    have f: "0 < d" "list_all (fits (d - 1)) xs" using "5.prems"(2) by (auto simp: list_all_iff)
    let ?b = "nl (Suc k) @ print_elems nl sp k xs @ nl k @ CHR '']'' # r"
    obtain c t where "print_elems nl sp k xs = c # t" "\<not> json_ws c" "c \<noteq> CHR '']''"
      using print_nonempty_hd [OF False f(2)] by blast
    then have "hd (skip_ws ?b) \<noteq> CHR '']''" by (simp add: skip_ws_append [OF ws] skip_ws_Cons)
    moreover have "parse_elems (d - 1) ?b = Some (map clean_json xs, r)"
      using "5.IH" [OF False "5.prems"(1) f(2) False, of r] by (simp add: parse_ws [OF ws])
    ultimately show ?thesis
      using False f(1) by (simp add: parse_value.simps skip_ws_Cons)
  qed (use "5.prems"(2) in \<open>simp add: parse_value.simps skip_ws_Cons\<close>)
next
  case (6 nl sp k ms)
  then have ws: "list_all json_ws (nl n)" for n by (simp add: ws_layout_def)
  show ?case
  proof (cases "ms = []")
    case False
    have f: "0 < d" "list_all (\<lambda>m. fits (d - 1) (snd m)) ms"
      using "6.prems"(2) by (auto simp: list_all_iff)
    let ?b = "nl (Suc k) @ print_members nl sp k ms @ nl k @ CHR ''}'' # r"
    have "hd (skip_ws ?b) \<noteq> CHR ''}''"
      using False by (cases ms) (simp_all add: skip_ws_append [OF ws] quote_json_def skip_ws_Cons)
    moreover have "parse_members (d - 1) ?b =
        Some (map (\<lambda>m. (to_valid (fst m), clean_json (snd m))) ms, r)"
      using "6.IH" [OF False "6.prems"(1) f(2) False, of r] by (simp add: parse_ws [OF ws])
    ultimately show ?thesis
      using False f(1) by (simp add: parse_value.simps skip_ws_Cons)
  qed (use "6.prems"(2) in \<open>simp add: parse_value.simps skip_ws_Cons\<close>)
next
  case (8 nl sp k x xs)
  then have ws: "list_all json_ws (nl n)" for n by (simp add: ws_layout_def)
  have x: "fits d x" "list_all (fits d) xs" using "8.prems"(2) by simp_all
  show ?case
  proof (cases "xs = []")
    case True
    then show ?thesis
      using "8.IH"(1) [OF "8.prems"(1) x(1) num_stop_ws [OF ws num_stop_punct(2)], of k r]
      by (simp add: parse_elems_eq skip_ws_append [OF ws] skip_ws_Cons)
  next
    case False
    then show ?thesis
      using "8.IH"(1) [OF "8.prems"(1) x(1) num_stop_punct(1)]
        "8.IH"(2) [OF False "8.prems"(1) x(2) False, of r]
      by (simp add: parse_elems_eq [of d "print_json nl sp (Suc k) x @ _"] skip_ws_Cons parse_ws [OF ws])
  qed
next
  case (10 nl sp k m ms)
  then have ws: "list_all json_ws (nl n)" "list_all json_ws sp" for n by (simp_all add: ws_layout_def)
  have x: "fits d (snd m)" "list_all (\<lambda>m. fits d (snd m)) ms" using "10.prems"(2) by simp_all
  show ?case
  proof (cases "ms = []")
    case True
    then show ?thesis
      using "10.IH"(1) [OF "10.prems"(1) x(1) num_stop_ws [OF ws(1) num_stop_punct(3)], of k r]
      by (simp add: parse_members_eq quote_json_def parse_str_enc_chars parse_ws [OF ws(2)]
          skip_ws_append [OF ws(1)] skip_ws_Cons)
  next
    case False
    then show ?thesis
      using "10.IH"(1) [OF "10.prems"(1) x(1) num_stop_punct(1)]
        "10.IH"(2) [OF False "10.prems"(1) x(2) False, of r]
      by (simp add: parse_members_eq [of d "dquote # _"] quote_json_def parse_str_enc_chars
          parse_ws [OF ws(2)] parse_ws [OF ws(1)] skip_ws_Cons)
  qed
qed (simp_all add: parse_value_words parse_value_num parse_value_quote)

lemma num_stop_Nil [simp]: "num_stop []"
  by (simp add: num_stop_def)

lemma unmarshal_marshal: "fits maxNestingDepth j \<Longrightarrow> unmarshal (marshal j) = Some (clean_json j)"
  using parse_print(1) [of "\<lambda>_. []" "[]" maxNestingDepth j "[]" 0]
  by (simp add: unmarshal_def marshal_def ws_layout_def skip_ws_def)

lemma decode_first_marshal_indent:
  assumes "fits maxNestingDepth j"
  shows "decode_first (marshal_indent j @ [CHR 0x0A]) = Some (clean_json j)"
proof -
  have "ws_layout (\<lambda>k. CHR 0x0A # replicate (2 * k) (CHR '' '')) '' ''"
    by (auto simp: ws_layout_def json_ws_def list_all_iff)
  moreover have "num_stop [CHR 0x0A]" by (simp add: num_stop_def is_digit_def)
  ultimately show ?thesis
    using parse_print(1) assms by (simp add: decode_first_def marshal_indent_def)
qed

text \<open>Valid UTF-8 is kept.\<close>

lemma runes_Nil [simp]: "runes [] = []"
  by (simp add: runes_def)

lemma runes_to_valid: "runes (to_valid s) = runes s"
  using runes_string_of_runes_append [OF runes_scalar [of s], of "[]"]
  by (simp add: to_valid_def)

lemma to_valid_idem [simp]: "to_valid (to_valid s) = to_valid s"
  by (simp add: to_valid_def [of "to_valid s"] runes_to_valid) (simp add: to_valid_def)

lemma valid_utf8_to_valid [simp]: "valid_utf8 (to_valid s)"
  by (simp add: valid_utf8_def)

lemma valid_utf8_ascii: "list_all (\<lambda>c. byte_of c < 0x80) s \<Longrightarrow> valid_utf8 s"
proof (induction s)
  case (Cons c cs)
  then show ?case by (simp add: valid_utf8_def to_valid_Cons rune_at_ascii string_of_runes_ascii)
qed (simp add: valid_utf8_def to_valid_def string_of_runes_def)

lemma clean_json_idem [simp]: "clean_json (clean_json j) = clean_json j"
  by (induction j rule: clean_json.induct) simp_all

text \<open>
  Objects decoded into a Go map: of several members with one key the last counts, and the
  printer lists the members in the order of their keys.  Such a map is represented by its
  members in that order.
\<close>

fun map_put :: "string \<Rightarrow> 'v \<Rightarrow> (string \<times> 'v) list \<Rightarrow> (string \<times> 'v) list" where
  "map_put k v [] = [(k, v)]"
| "map_put k v (m # ms) =
     (if k = fst m then (k, v) # ms
      else if k < fst m then (k, v) # m # ms
      else m # map_put k v ms)"

definition go_map :: "(string \<times> 'v) list \<Rightarrow> (string \<times> 'v) list" where
  "go_map ms = foldl (\<lambda>acc m. map_put (fst m) (snd m) acc) [] ms"

fun go_any :: "json \<Rightarrow> json" where
  "go_any (JArr xs) = JArr (map go_any xs)"
| "go_any (JObj ms) = JObj (go_map (map (\<lambda>m. (fst m, go_any (snd m))) ms))"
| "go_any j = j"

definition map_keys_ok :: "(string \<times> 'v) list \<Rightarrow> bool" where
  "map_keys_ok ms = (sorted (map fst ms) \<and> distinct (map fst ms))"

lemma map_put_lookup: "map_keys_ok ms \<Longrightarrow> map_of (map_put k v ms) = (map_of ms)(k \<mapsto> v)"
proof (induction ms)
  case (Cons m ms)
  then show ?case
    by (cases m) (auto simp: map_keys_ok_def fun_eq_iff)
qed auto

lemma set_keys_map_put: "set (map fst (map_put k v ms)) = insert k (set (map fst ms))"
  by (induction ms) auto

lemma set_map_put: "e \<in> set (map_put k v es) \<Longrightarrow> e = (k, v) \<or> e \<in> set es"
  by (induction es) (auto split: if_splits)

lemma map_put_keys_ok: "map_keys_ok ms \<Longrightarrow> map_keys_ok (map_put k v ms)"
proof (induction ms)
  case (Cons m ms)
  have "map_keys_ok ms" using Cons.prems by (simp add: map_keys_ok_def)
  with Cons.IH have ih: "sorted (map fst (map_put k v ms))" "distinct (map fst (map_put k v ms))"
    by (simp_all add: map_keys_ok_def)
  have "fst m \<notin> set (map fst ms)" "\<forall>x \<in> set (map fst ms). fst m \<le> x"
    using Cons.prems by (simp_all add: map_keys_ok_def)
  then have "k \<noteq> fst m \<Longrightarrow> \<not> k < fst m \<Longrightarrow> map_keys_ok (m # map_put k v ms)"
    using ih set_keys_map_put [of k v ms] by (auto simp: map_keys_ok_def)
  with Cons.prems show ?case
    by (auto simp: map_keys_ok_def)
qed (simp add: map_keys_ok_def)

lemma go_map_snoc [simp]: "go_map (ms @ [m]) = map_put (fst m) (snd m) (go_map ms)"
  by (simp add: go_map_def)

lemma go_map_keys_ok: "map_keys_ok (go_map ms)"
  by (induction ms rule: rev_induct) (auto simp: map_put_keys_ok go_map_def [of "[]"] map_keys_ok_def [of "[]"])

lemma go_map_lookup: "map_of (go_map ms) = map_of (rev ms)"
  by (induction ms rule: rev_induct) (auto simp: map_put_lookup go_map_keys_ok go_map_def [of "[]"])

section \<open>Decoding into structs\<close>

text \<open>
  A member goes to the field of exactly its name, else to the first field whose name it
  equals up to case folding (of the runes that are not ASCII, only U+017F and U+212A fold to
  ASCII letters).
\<close>

definition fold_rune :: "rune \<Rightarrow> rune" where
  "fold_rune r = (if 0x61 \<le> r \<and> r \<le> 0x7A then r - 0x20
                  else if r = 0x17F then 0x53 else if r = 0x212A then 0x4B else r)"

definition fold_name :: "string \<Rightarrow> rune list" where
  "fold_name s = map fold_rune (runes s)"

definition match_field :: "string list \<Rightarrow> string \<Rightarrow> string option" where
  "match_field names k =
     (if k \<in> set names then Some k else List.find (\<lambda>n. fold_name n = fold_name k) names)"

text \<open>
  A struct whose fields are strings: null leaves a field alone, any other value that is
  not a string is an error, unknown members are ignored.
\<close>

fun decode_members :: "string list \<Rightarrow> (string \<times> json) list \<Rightarrow> (string \<Rightarrow> string) \<Rightarrow> (string \<Rightarrow> string) option" where
  "decode_members names [] f = Some f"
| "decode_members names (m # ms) f =
     (case match_field names (fst m) of
        None \<Rightarrow> decode_members names ms f
      | Some n \<Rightarrow>
          (case snd m of
             JStr x \<Rightarrow> decode_members names ms (f(n := x))
           | JNull \<Rightarrow> decode_members names ms f
           | _ \<Rightarrow> None))"

definition decode_struct :: "string list \<Rightarrow> json \<Rightarrow> (string \<Rightarrow> string) option" where
  "decode_struct names j =
     (case j of
        JObj ms \<Rightarrow> decode_members names ms (\<lambda>_. '''')
      | JNull \<Rightarrow> Some (\<lambda>_. '''')
      | _ \<Rightarrow> None)"

fun decode_all :: "('a \<Rightarrow> 'b option) \<Rightarrow> 'a list \<Rightarrow> 'b list option" where
  "decode_all f [] = Some []"
| "decode_all f (x # xs) =
     (case f x of None \<Rightarrow> None
      | Some y \<Rightarrow> (case decode_all f xs of None \<Rightarrow> None | Some ys \<Rightarrow> Some (y # ys)))"

lemma decode_all_Some: "\<forall>x \<in> set xs. f x = Some (g x) \<Longrightarrow> decode_all f xs = Some (map g xs)"
  by (induction xs) auto

section \<open>Raw members\<close>

text \<open>
  The members of an object with the text of their values, as \<open>json.RawMessage\<close> fields see it:
  the bytes of the value without the white space around it.
\<close>

definition raw_value :: "nat \<Rightarrow> string \<Rightarrow> (string \<times> json \<times> string) option" where
  "raw_value d s =
     (case parse_value d s of
        None \<Rightarrow> None
      | Some (x, t) \<Rightarrow> Some (take (length (skip_ws s) - length t) (skip_ws s), x, t))"

function raw_members :: "nat \<Rightarrow> string \<Rightarrow> ((string \<times> string \<times> json) list \<times> string) option" where
  "raw_members d s =
     (case skip_ws s of
        [] \<Rightarrow> None
      | q # s1 \<Rightarrow>
          (if q \<noteq> dquote then None
           else (case parse_str s1 of
                   None \<Rightarrow> None
                 | Some (key, s2) \<Rightarrow>
                     (if skip_ws s2 = [] \<or> hd (skip_ws s2) \<noteq> CHR '':'' then None
                      else (case raw_value d (tl (skip_ws s2)) of
                              None \<Rightarrow> None
                            | Some (raw, x, t) \<Rightarrow>
                                (if length t < length s then
                                   (case skip_ws t of
                                      [] \<Rightarrow> None
                                    | c # r \<Rightarrow>
                                        (if c = CHR ''}'' then Some ([(key, raw, x)], r)
                                         else if c = CHR '','' then
                                           (case raw_members d r of
                                              None \<Rightarrow> None | Some (ms, u) \<Rightarrow> Some ((key, raw, x) # ms, u))
                                         else None))
                                 else None)))))) "
  by pat_completeness auto
termination
  by (relation "measure (\<lambda>(d, s). length s)") (auto dest!: skip_ws_Cons_shorter)

declare raw_members.simps [simp del]

text \<open>The top-level object of a document, with raw values; \<open>None\<close> unless the document is valid.\<close>

definition raw_object :: "string \<Rightarrow> (string \<times> string \<times> json) list option" where
  "raw_object s =
     (case unmarshal s of
        Some (JObj []) \<Rightarrow> Some []
      | Some (JObj _) \<Rightarrow> map_option fst (raw_members (maxNestingDepth - 1) (tl (skip_ws s)))
      | _ \<Rightarrow> None)"

lemma raw_value_split:
  assumes "raw_value d s = Some (raw, x, t)"
  shows "parse_value d s = Some (x, t)" "sublist raw s"
proof -
  show "parse_value d s = Some (x, t)"
    using assms by (auto simp: raw_value_def split: option.splits)
  have "sublist (take n (skip_ws s)) s" for n
    by (metis skip_ws_def suffix_dropWhile suffix_imp_sublist sublist_take sublist_order.order.trans)
  then show "sublist raw s"
    using assms by (auto simp: raw_value_def split: option.splits)
qed

lemma getu4_suffix: "getu4 s = Some (r, t) \<Longrightarrow> suffix t s"
  by (auto simp: getu4_def suffix_Cons split: list.splits option.splits)

lemma u_rune_suffix: "u_rune r s = (q, t) \<Longrightarrow> suffix t s"
  by (auto simp: u_rune_def suffix_Cons split: if_splits list.splits option.splits dest!: getu4_suffix)

lemma str_unit_suffix: "str_unit c cs = Some (x, t) \<Longrightarrow> suffix t cs"
  by (auto simp: str_unit_def suffix_Cons suffix_drop split: if_splits list.splits option.splits prod.splits
      dest!: getu4_suffix u_rune_suffix intro: suffix_order.trans)

lemma parse_str_suffix: "parse_str s = Some (x, t) \<Longrightarrow> suffix t s"
proof (induction s arbitrary: x t rule: parse_str.induct)
  case (2 c cs)
  then show ?case
    by (auto simp: parse_str.simps(2) suffix_Cons split: if_splits option.splits dest!: str_unit_suffix)
       (meson suffix_order.trans)
qed simp

lemma scan_suffix:
  "scan_digits s = Some (x, t) \<Longrightarrow> suffix t s"
  "scan_int s = Some (x, t) \<Longrightarrow> suffix t s"
  by (auto simp: scan_digits_def scan_int_def suffix_dropWhile suffix_Cons split: if_splits list.splits)
     (metis suffix_Cons suffix_dropWhile)?

lemma skip_ws_suffix: "suffix (skip_ws s) s"
  by (simp add: skip_ws_def suffix_dropWhile)

lemma scan_frac_suffix: "scan_frac s = Some (x, t) \<Longrightarrow> suffix t s"
  by (auto simp: scan_frac_def suffix_Cons split: list.splits if_splits option.splits dest: scan_suffix(1))

lemma scan_exp_suffix: "scan_exp s = Some (x, t) \<Longrightarrow> suffix t s"
  by (auto simp: scan_exp_def suffix_Cons split: list.splits if_splits option.splits dest!: scan_suffix(1))

lemma scan_unsigned_suffix: "scan_unsigned s = Some (x, t) \<Longrightarrow> suffix t s"
  by (auto simp: scan_unsigned_def split: option.splits
      dest!: scan_suffix(2) scan_frac_suffix scan_exp_suffix) (meson suffix_order.trans)

lemma parse_num_suffix: "parse_num s = Some (x, t) \<Longrightarrow> suffix t s"
  by (auto simp: parse_num_def suffix_Cons split: list.splits if_splits option.splits
      dest!: scan_unsigned_suffix)

lemma literal_suffix: "literal w j s = Some (x, t) \<Longrightarrow> suffix t s"
  by (auto simp: literal_def cut_prefix_Some_iff suffix_def split: option.splits)

lemma skip_ws_tl: "skip_ws s = c # r \<Longrightarrow> suffix r s"
  using skip_ws_suffix [of s] by (metis suffix_ConsD)

lemma suffix_tl_skip: "suffix (tl (skip_ws s)) s"
  by (metis skip_ws_suffix suffix_order.trans suffix_tl)

lemma parse_suffix:
  "parse_value d s = Some (j, t) \<Longrightarrow> suffix t s"
  "parse_elems d s = Some (xs, t) \<Longrightarrow> suffix t s"
  "parse_members d s = Some (ms, t) \<Longrightarrow> suffix t s"
proof (induction d s and d s and d s arbitrary: j t and xs t and ms t
    rule: parse_value_parse_elems_parse_members.induct)
  case (1 d s)
  show ?case
  proof (cases "skip_ws s")
    case (Cons c r)
    have "suffix t r \<or> suffix t (c # r)"
      using "1.prems" "1.IH" [OF Cons] Cons suffix_tl_skip [of r]
      by (auto simp: parse_value.simps [of d s] split: if_splits option.splits
          dest!: parse_str_suffix parse_num_suffix literal_suffix)
    then show ?thesis using skip_ws_tl [OF Cons] skip_ws_suffix [of s] Cons
      by (metis suffix_order.trans)
  qed (use "1.prems" in \<open>simp add: parse_value.simps [of d s]\<close>)
next
  case (2 d s)
  from "2.prems" obtain x u where u: "parse_value d s = Some (x, u)" "length u < length s"
    by (simp add: parse_elems.simps [of d s] split: option.splits if_splits prod.splits)
  from "2.prems" u obtain c r where r: "skip_ws u = c # r"
    by (cases "skip_ws u") (simp_all add: parse_elems.simps [of d s])
  note IH = "2.IH"(2) [OF u(1) refl u(2) r]
  have "suffix t r"
    using "2.prems" u r IH
    by (auto simp: parse_elems.simps [of d s] split: if_splits option.splits)
  then show ?case using skip_ws_tl [OF r] "2.IH"(1) [OF u(1)] by (meson suffix_order.trans)
next
  case (3 d s)
  from "3.prems" obtain q s1 where q: "skip_ws s = q # s1" "\<not> q \<noteq> dquote"
    by (simp add: parse_members.simps [of d s] split: list.splits if_splits)
  from "3.prems" q obtain key s2 where k: "parse_str s1 = Some (key, s2)"
    by (cases "parse_str s1") (auto simp add: parse_members.simps [of d s])
  from "3.prems" q k have g: "\<not> (skip_ws s2 = [] \<or> hd (skip_ws s2) \<noteq> CHR '':'' \<or> \<not> length (tl (skip_ws s2)) < length s)"
    by (auto simp: parse_members.simps [of d s] split: if_splits)
  from "3.prems" q k g obtain x u where u: "parse_value d (tl (skip_ws s2)) = Some (x, u)" "length u < length s"
    by (simp add: parse_members.simps [of d s] split: option.splits if_splits prod.splits)
  from "3.prems" q k g u obtain c r where r: "skip_ws u = c # r"
    by (cases "skip_ws u") (simp_all add: parse_members.simps [of d s])
  note IH = "3.IH"(2) [OF q k refl g u(1) refl u(2) r]
  have "suffix t r"
    using "3.prems" q k g u r IH
    by (auto simp: parse_members.simps [of d s] split: if_splits option.splits)
  moreover have "suffix r s"
    using skip_ws_tl [OF r] "3.IH"(1) [OF q k refl g u(1)] suffix_tl_skip [of s2] parse_str_suffix [OF k]
      skip_ws_tl [OF q(1)] by (meson suffix_order.trans)
  ultimately show ?case by (meson suffix_order.trans)
qed

lemma raw_members_sublist:
  "raw_members d s = Some (ms, u) \<Longrightarrow> \<forall>m \<in> set ms. sublist (fst (snd m)) s"
proof (induction d s arbitrary: ms u rule: raw_members.induct)
  case (1 d s)
  from "1.prems" obtain q s1 where q: "skip_ws s = q # s1" "\<not> q \<noteq> dquote"
    by (simp add: raw_members.simps [of d s] split: list.splits if_splits)
  from "1.prems" q obtain key s2 where k: "parse_str s1 = Some (key, s2)"
    by (cases "parse_str s1") (auto simp add: raw_members.simps [of d s])
  from "1.prems" q k have g: "\<not> (skip_ws s2 = [] \<or> hd (skip_ws s2) \<noteq> CHR '':'')"
    by (auto simp: raw_members.simps [of d s] split: if_splits)
  from "1.prems" q k g obtain raw x t where v: "raw_value d (tl (skip_ws s2)) = Some (raw, x, t)" "length t < length s"
    by (auto simp add: raw_members.simps [of d s] split: option.splits if_splits)
  from "1.prems" q k g v obtain c r where r: "skip_ws t = c # r"
    by (cases "skip_ws t") (simp_all add: raw_members.simps [of d s])
  note rv = raw_value_split [OF v(1)]
  have s2: "suffix (tl (skip_ws s2)) s"
    using suffix_tl_skip [of s2] parse_str_suffix [OF k] skip_ws_tl [OF q(1)] by (meson suffix_order.trans)
  have rs: "suffix r s"
    using skip_ws_tl [OF r] parse_suffix(1) [OF rv(1)] s2 by (meson suffix_order.trans)
  have raw: "sublist raw s"
    using rv(2) s2 by (meson sublist_order.order.trans suffix_imp_sublist)
  consider "ms = [(key, raw, x)]"
    | ms' where "ms = (key, raw, x) # ms'" "raw_members d r = Some (ms', u)" "\<not> c = CHR ''}''" "c = CHR '',''"
    using "1.prems" q k g v r by (auto simp: raw_members.simps [of d s] split: if_splits option.splits)
  then show ?case
  proof cases
    case 2
    have "\<forall>m \<in> set ms'. sublist (fst (snd m)) r"
      using "1.IH" [OF q k refl g v(1) refl refl v(2) r 2(3,4) 2(2)] .
    then show ?thesis
      using raw rs 2(1) by (auto intro: sublist_order.order.trans dest: suffix_imp_sublist)
  qed (use raw in simp)
qed

lemma raw_object_sublist: "raw_object s = Some ms \<Longrightarrow> m \<in> set ms \<Longrightarrow> sublist (fst (snd m)) s"
proof -
  assume o: "raw_object s = Some ms" and m: "m \<in> set ms"
  obtain u where "raw_members (maxNestingDepth - 1) (tl (skip_ws s)) = Some (ms, u)"
    using o m by (auto simp: raw_object_def split: option.splits json.splits list.splits)
  from raw_members_sublist [OF this] m show "sublist (fst (snd m)) s"
    by (meson sublist_order.order.trans suffix_imp_sublist suffix_tl_skip)
qed

end
