(* ===== verification/A2A_Types.thy ===== *)
theory A2A_Types
  imports Go_Time Go_Json
begin

text \<open>
  The protocol data of A2A 1.0 as the bridge handles it.  The types belong to the a2a-go
  SDK; the records here have the fields that the bridge reads or writes.  What the bridge
  calls of the SDK (whether a task state is terminal, the text of a part, the JSON wire
  form of a task) is collected in the record \<open>sdk\<close>, a parameter of the definitions
  that use it.  Task states are strings with the values the README lists.
\<close>

type_synonym task_id = string
type_synonym task_state = string

definition TaskStateSubmitted :: task_state where "TaskStateSubmitted = ''TASK_STATE_SUBMITTED''"
definition TaskStateWorking :: task_state where "TaskStateWorking = ''TASK_STATE_WORKING''"
definition TaskStateCompleted :: task_state where "TaskStateCompleted = ''TASK_STATE_COMPLETED''"
definition TaskStateFailed :: task_state where "TaskStateFailed = ''TASK_STATE_FAILED''"
definition TaskStateCanceled :: task_state where "TaskStateCanceled = ''TASK_STATE_CANCELED''"
definition TaskStateRejected :: task_state where "TaskStateRejected = ''TASK_STATE_REJECTED''"
definition TaskStateInputRequired :: task_state where
  "TaskStateInputRequired = ''TASK_STATE_INPUT_REQUIRED''"

lemmas task_state_defs =
  TaskStateSubmitted_def TaskStateWorking_def TaskStateCompleted_def TaskStateFailed_def
  TaskStateCanceled_def TaskStateRejected_def TaskStateInputRequired_def

datatype part_content =
    Text_content string
  | Raw_content string
  | URL_content string
  | Data_content json

record part =
  p_content :: part_content
  p_filename :: string
  p_mediaType :: string

datatype role = RoleUser | RoleAgent

record message =
  m_id :: string
  m_contextId :: string
  m_taskId :: task_id
  m_role :: role
  m_parts :: "part option list"
  m_metadata :: "(string \<times> json) list"

record artifact =
  a_id :: string
  a_name :: string
  a_parts :: "part option list"

record task_status =
  st_state :: task_state
  st_message :: "message option"
  st_timestamp :: "gotime option"

record task =
  t_id :: task_id
  t_contextId :: string
  t_status :: task_status
  t_artifacts :: "artifact option list"
  t_history :: "message option list"
  t_metadata :: "(string \<times> json) list"

text \<open>The SDK's operations: \<open>TaskState.Terminal\<close>, \<open>Part.Text\<close> and the task wire codec.\<close>

record sdk =
  sdk_terminal :: "task_state \<Rightarrow> bool"
  sdk_part_text :: "part \<Rightarrow> string"
  sdk_unspecified :: task_state
  sdk_marshal :: "task \<Rightarrow> string option"
  sdk_unmarshal :: "string \<Rightarrow> task option"

definition task_terminal :: "sdk \<Rightarrow> task \<Rightarrow> bool" where
  "task_terminal k t = sdk_terminal k (st_state (t_status t))"

text \<open>
  The sentinel errors that the agent's operations return (its own and the SDK's); wrapping
  with \<open>fmt.Errorf\<close> keeps the sentinel, which is what callers test.
\<close>

datatype a2a_error =
    ErrNilTask
  | ErrEncodeTask
  | ErrDecodeTask
  | ErrTaskAlreadyExists
  | ErrTaskNotFound
  | ErrConcurrentModification
  | ErrInvalidRequest
  | ErrInvalidParams
  | ErrUnsupportedOperation
  | ErrVersionNotSupported
  | ErrInternalError
  | ErrReplyPending
  | ErrWaiterExists
  | ErrStore string

text \<open>Task-stream events.\<close>

datatype event =
    Ev_message message
  | Ev_task task
  | Ev_status task_id task_status
  | Ev_artifact task_id artifact bool

definition NewTextPart :: "string \<Rightarrow> part" where
  "NewTextPart t = \<lparr>p_content = Text_content t, p_filename = '''', p_mediaType = ''''\<rparr>"

text \<open>
  A concrete SDK for evaluating the model: the documented terminal states, the text of a
  text part, and no wire codec.
\<close>

definition text_of_part :: "part \<Rightarrow> string" where
  "text_of_part p = (case p_content p of Text_content t \<Rightarrow> t | _ \<Rightarrow> '''')"

definition sdk0 :: sdk where
  "sdk0 = \<lparr>sdk_terminal = (\<lambda>s. s = TaskStateCompleted \<or> s = TaskStateFailed \<or>
                              s = TaskStateCanceled \<or> s = TaskStateRejected),
           sdk_part_text = text_of_part,
           sdk_unspecified = '''',
           sdk_marshal = (\<lambda>_. None), sdk_unmarshal = (\<lambda>_. None)\<rparr>"

end
