(* ===== verification/Metrics.thy ===== *)
theory Metrics
  imports Go_Prelude
begin

text \<open>
  internal/metrics: the process-wide counters and gauges and their text exposition.
  They are 64-bit atomics, so each is a \<open>64 word\<close>; every operation is one atomic step.
\<close>

type_synonym int64 = "64 word"

record metrics =
  messagesSent :: int64
  messagesReceived :: int64
  tasksCompleted :: int64
  tasksFailed :: int64
  pushDelivered :: int64
  pushFailed :: int64
  currentInboxSize :: int64
  currentPeers :: int64

definition metrics0 :: metrics where
  "metrics0 = \<lparr>messagesSent = 0, messagesReceived = 0, tasksCompleted = 0, tasksFailed = 0,
     pushDelivered = 0, pushFailed = 0, currentInboxSize = 0, currentPeers = 0\<rparr>"

definition IncMessagesSent :: "metrics \<Rightarrow> metrics" where
  "IncMessagesSent m = m\<lparr>messagesSent := messagesSent m + 1\<rparr>"

definition IncMessagesReceived :: "metrics \<Rightarrow> metrics" where
  "IncMessagesReceived m = m\<lparr>messagesReceived := messagesReceived m + 1\<rparr>"

definition IncTaskCompleted :: "metrics \<Rightarrow> metrics" where
  "IncTaskCompleted m = m\<lparr>tasksCompleted := tasksCompleted m + 1\<rparr>"

definition IncTaskFailed :: "metrics \<Rightarrow> metrics" where
  "IncTaskFailed m = m\<lparr>tasksFailed := tasksFailed m + 1\<rparr>"

definition IncPushDelivered :: "metrics \<Rightarrow> metrics" where
  "IncPushDelivered m = m\<lparr>pushDelivered := pushDelivered m + 1\<rparr>"

definition IncPushFailed :: "metrics \<Rightarrow> metrics" where
  "IncPushFailed m = m\<lparr>pushFailed := pushFailed m + 1\<rparr>"

definition SetInboxSize :: "nat \<Rightarrow> metrics \<Rightarrow> metrics" where
  "SetInboxSize n m = m\<lparr>currentInboxSize := of_nat n\<rparr>"

definition SetPeers :: "nat \<Rightarrow> metrics \<Rightarrow> metrics" where
  "SetPeers n m = m\<lparr>currentPeers := of_nat n\<rparr>"

text \<open>The exposition text; the uptime gauge, a formatted float, is a parameter.\<close>

definition newline :: string where
  "newline = [CHR 0x0A]"

definition metric_text :: "string \<Rightarrow> string \<Rightarrow> string \<Rightarrow> int64 \<Rightarrow> string" where
  "metric_text kind nm help v =
     ''# HELP '' @ nm @ '' '' @ help @ newline @ ''# TYPE '' @ nm @ '' '' @ kind @ newline @
     nm @ '' '' @ itoa (sint v) @ newline"

definition counter :: "string \<Rightarrow> string \<Rightarrow> int64 \<Rightarrow> string" where
  "counter nm help v = metric_text ''counter'' nm help v"

definition gauge :: "string \<Rightarrow> string \<Rightarrow> int64 \<Rightarrow> string" where
  "gauge nm help v = metric_text ''gauge'' nm help v"

definition emit :: "string \<Rightarrow> metrics \<Rightarrow> string" where
  "emit uptime m =
     ''# HELP a2abridge_uptime_seconds Seconds since this bridge started.'' @ newline @
     ''# TYPE a2abridge_uptime_seconds gauge'' @ newline @
     ''a2abridge_uptime_seconds '' @ uptime @ newline @
     counter ''a2abridge_messages_sent_total'' ''Outbound message/send calls.'' (messagesSent m) @
     counter ''a2abridge_messages_received_total'' ''Inbound message/send calls.'' (messagesReceived m) @
     counter ''a2abridge_tasks_completed_total'' ''Tasks that reached completed state.'' (tasksCompleted m) @
     counter ''a2abridge_tasks_failed_total'' ''Tasks that reached failed / canceled / rejected.'' (tasksFailed m) @
     counter ''a2abridge_push_delivered_total'' ''Push-notification webhooks that returned 2xx.'' (pushDelivered m) @
     counter ''a2abridge_push_failed_total'' ''Push-notification webhooks that exhausted the retry budget.'' (pushFailed m) @
     gauge ''a2abridge_inbox_size'' ''Current pending messages in this bridge's inbox.'' (currentInboxSize m) @
     gauge ''a2abridge_peers'' ''Current peers registered with the directory.'' (currentPeers m)"

end
