(* ===== verification/Inbox_Store.thy ===== *)
theory Inbox_Store
  imports A2A_Types Go_Utf8 Metrics
begin

text \<open>
  internal/agent/store.go: the durable inbox the host drains, and the outgoing tasks the
  agent waits for.

  Every operation holds the store's mutex while it touches the state, so it is a function
  from the store to the store.  Files are a map from paths to contents; whether a write or
  a rename succeeds is an argument (\<open>disk_io\<close>).  The JSON codec of the snapshot file is an
  argument too.  Goroutines that an operation launches (the \<open>OnIncoming\<close> callback and the
  user hooks) are recorded in \<open>fired\<close>, oldest first.
\<close>

section \<open>Data\<close>

definition inboxSoftCap :: nat where
  "inboxSoftCap = 500"

definition replyEntryTTL :: duration where
  "replyEntryTTL = 2 * minute_d"

definition replyMessageIDPrefix :: string where
  "replyMessageIDPrefix = ''reply-''"

definition KindOutgoingReply :: string where
  "KindOutgoingReply = ''outgoing-reply''"

record inbox_entry =
  e_messageId :: string
  e_taskId :: string
  e_contextId :: string
  e_from :: string
  e_text :: string
  e_kind :: string
  e_state :: string
  e_ts :: string

definition isSyntheticReply :: "inbox_entry \<Rightarrow> bool" where
  "isSyntheticReply e =
     (e_kind e = KindOutgoingReply \<or> has_prefix (e_messageId e) replyMessageIDPrefix)"

record snapshot_entry =
  s_messageId :: string
  s_taskId :: string
  s_contextId :: string
  s_from :: string
  s_text :: string
  s_ts :: string

record pending_task =
  p_taskId :: string
  p_peerURL :: string
  p_question :: string
  p_peerName :: string
  p_sentAt :: gotime

datatype launched =
    Callback inbox_entry
  | Hook string "(string \<times> string) list"

record store =
  inbox :: "inbox_entry list"
  inboxPath :: string
  onIncoming :: bool
  pendingOutgoing :: "string \<rightharpoonup> pending_task"
  disk :: "string \<rightharpoonup> string"
  mets :: metrics
  fired :: "launched list"

definition NewStore :: store where
  "NewStore = \<lparr>inbox = [], inboxPath = '''', onIncoming = False, pendingOutgoing = Map.empty,
     disk = Map.empty, mets = metrics0, fired = []\<rparr>"

text \<open>
  The outcome of \<open>os.WriteFile\<close> (on failure: what the file holds afterwards, if it
  exists), of \<open>os.Rename\<close> and of \<open>os.ReadFile\<close> on a file that exists.
\<close>

datatype write_outcome = Write_ok | Write_fail "string option"

record disk_io =
  write_tmp :: write_outcome
  rename_ok :: bool
  read_ok :: bool

record snapshot_codec =
  enc_snapshot :: "snapshot_entry list \<Rightarrow> string option"
  dec_snapshot :: "string \<Rightarrow> snapshot_entry list option"

text \<open>
  The codec the code uses: package encoding/json on \<open>[]snapshotEntry\<close> (an empty \<open>ts\<close> is
  omitted).
\<close>

definition snapshot_fields :: "string list" where
  "snapshot_fields = [''messageId'', ''taskId'', ''contextId'', ''from'', ''text'', ''ts'']"

definition entry_json :: "snapshot_entry \<Rightarrow> json" where
  "entry_json n =
     JObj ([(''messageId'', JStr (s_messageId n)), (''taskId'', JStr (s_taskId n)),
            (''contextId'', JStr (s_contextId n)), (''from'', JStr (s_from n)),
            (''text'', JStr (s_text n))] @
           (if s_ts n = '''' then [] else [(''ts'', JStr (s_ts n))]))"

definition entry_of_json :: "json \<Rightarrow> snapshot_entry option" where
  "entry_of_json j =
     map_option (\<lambda>f. \<lparr>s_messageId = f ''messageId'', s_taskId = f ''taskId'',
        s_contextId = f ''contextId'', s_from = f ''from'', s_text = f ''text'', s_ts = f ''ts''\<rparr>)
       (decode_struct snapshot_fields j)"

definition snapshot_json :: snapshot_codec where
  "snapshot_json =
     \<lparr>enc_snapshot = (\<lambda>ns. Some (marshal (JArr (map entry_json ns)))),
      dec_snapshot = (\<lambda>b. case unmarshal b of
          Some (JArr js) \<Rightarrow> decode_all entry_of_json js
        | Some JNull \<Rightarrow> Some []
        | _ \<Rightarrow> None)\<rparr>"

section \<open>Persistence\<close>

definition to_snapshot :: "inbox_entry \<Rightarrow> snapshot_entry" where
  "to_snapshot e = \<lparr>s_messageId = e_messageId e, s_taskId = e_taskId e,
     s_contextId = e_contextId e, s_from = e_from e, s_text = e_text e, s_ts = e_ts e\<rparr>"

definition of_snapshot :: "snapshot_entry \<Rightarrow> inbox_entry" where
  "of_snapshot n = \<lparr>e_messageId = s_messageId n, e_taskId = s_taskId n,
     e_contextId = s_contextId n, e_from = s_from n, e_text = s_text n,
     e_kind = '''', e_state = '''', e_ts = s_ts n\<rparr>"

definition persistInboxLocked :: "snapshot_codec \<Rightarrow> disk_io \<Rightarrow> store \<Rightarrow> store" where
  "persistInboxLocked cd io s =
     (let s = s\<lparr>mets := SetInboxSize (length (inbox s)) (mets s)\<rparr>
      in if inboxPath s = '''' then s
         else (case enc_snapshot cd (map to_snapshot (inbox s)) of
                 None \<Rightarrow> s
               | Some b \<Rightarrow>
                   (let tmp = inboxPath s @ ''.tmp''
                    in case write_tmp io of
                         Write_fail left \<Rightarrow> s\<lparr>disk := (disk s)(tmp := left)\<rparr>
                       | Write_ok \<Rightarrow>
                           (if rename_ok io
                            then s\<lparr>disk := (disk s)(tmp := None, inboxPath s \<mapsto> b)\<rparr>
                            else s\<lparr>disk := (disk s)(tmp \<mapsto> b)\<rparr>))))"

section \<open>Appending: effectively-once, bounded\<close>

definition inboxContainsLocked :: "string \<Rightarrow> store \<Rightarrow> bool" where
  "inboxContainsLocked i s = (i \<noteq> '''' \<and> list_ex (\<lambda>e. e_messageId e = i) (inbox s))"

definition appendInboxLocked :: "inbox_entry \<Rightarrow> store \<Rightarrow> bool \<times> store" where
  "appendInboxLocked e s =
     (if inboxContainsLocked (e_messageId e) s then (False, s)
      else (let xs = inbox s @ [e];
                over = length xs - inboxSoftCap
            in (True, s\<lparr>inbox := drop over xs\<rparr>)))"

fun appendAll :: "inbox_entry list \<Rightarrow> store \<Rightarrow> store" where
  "appendAll [] s = s"
| "appendAll (e # es) s = appendAll es (snd (appendInboxLocked e s))"

definition LoadInbox :: "snapshot_codec \<Rightarrow> disk_io \<Rightarrow> store \<Rightarrow> store" where
  "LoadInbox cd io s =
     (if inboxPath s = '''' then s
      else (case disk s (inboxPath s) of
              None \<Rightarrow> s
            | Some b \<Rightarrow>
                (if \<not> read_ok io \<or> b = '''' then s
                 else (case dec_snapshot cd b of
                         None \<Rightarrow> s
                       | Some snap \<Rightarrow>
                           (let s' = appendAll (map of_snapshot snap) s
                            in s'\<lparr>mets := SetInboxSize (length (inbox s')) (mets s')\<rparr>)))))"

definition deliverIncoming :: "snapshot_codec \<Rightarrow> disk_io \<Rightarrow> inbox_entry \<Rightarrow> store \<Rightarrow> bool \<times> store" where
  "deliverIncoming cd io e s =
     (case appendInboxLocked e s of
        (False, s') \<Rightarrow> (False, s')
      | (True, s') \<Rightarrow>
          (let s' = persistInboxLocked cd io s';
               s' = s'\<lparr>mets := IncMessagesReceived (mets s')\<rparr>;
               hook = Hook ''on-inbound'' [(''taskId'', e_taskId e), (''from'', e_from e), (''text'', e_text e)]
           in (True, s'\<lparr>fired := fired s' @ (if onIncoming s' then [Callback e] else []) @ [hook]\<rparr>)))"

section \<open>Reading: drain, peek, drop, evict\<close>

definition DrainInbox :: "snapshot_codec \<Rightarrow> disk_io \<Rightarrow> store \<Rightarrow> inbox_entry list \<times> store" where
  "DrainInbox cd io s = (inbox s, persistInboxLocked cd io (s\<lparr>inbox := []\<rparr>))"

definition has_reply_id :: "inbox_entry \<Rightarrow> bool" where
  "has_reply_id e = has_prefix (e_messageId e) replyMessageIDPrefix"

definition PeekInbox :: "snapshot_codec \<Rightarrow> disk_io \<Rightarrow> store \<Rightarrow> inbox_entry list \<times> store" where
  "PeekInbox cd io s =
     (let kept = filter (\<lambda>e. \<not> has_reply_id e) (inbox s);
          dropped = list_ex has_reply_id (inbox s)
      in (inbox s, if dropped then persistInboxLocked cd io (s\<lparr>inbox := kept\<rparr>) else s))"

definition dropTaskEntries :: "snapshot_codec \<Rightarrow> disk_io \<Rightarrow> string \<Rightarrow> store \<Rightarrow> bool \<times> store" where
  "dropTaskEntries cd io tid s =
     (let kept = filter (\<lambda>e. e_taskId e \<noteq> tid) (inbox s);
          dropped = list_ex (\<lambda>e. e_taskId e = tid) (inbox s);
          droppedReply = list_ex (\<lambda>e. e_taskId e = tid \<and> isSyntheticReply e) (inbox s)
      in (droppedReply, if dropped then persistInboxLocked cd io (s\<lparr>inbox := kept\<rparr>) else s))"

definition reply_expired :: "gotime \<Rightarrow> inbox_entry \<Rightarrow> bool" where
  "reply_expired cutoff e =
     (has_prefix (e_messageId e) replyMessageIDPrefix \<and> e_ts e \<noteq> '''' \<and>
      (case time_parse (e_ts e) of None \<Rightarrow> False | Some t \<Rightarrow> time_before t cutoff))"

definition evictExpiredReplies :: "snapshot_codec \<Rightarrow> disk_io \<Rightarrow> gotime \<Rightarrow> store \<Rightarrow> nat \<times> store" where
  "evictExpiredReplies cd io now s =
     (if inbox s = [] then (0, s)
      else (let cutoff = time_add now (- replyEntryTTL);
                kept = filter (\<lambda>e. \<not> reply_expired cutoff e) (inbox s);
                dropped = length (inbox s) - length kept
            in (dropped, if 0 < dropped then persistInboxLocked cd io (s\<lparr>inbox := kept\<rparr>) else s)))"

section \<open>Outgoing tasks and their replies\<close>

definition TrackOutgoing :: "string \<Rightarrow> string \<Rightarrow> string \<Rightarrow> string \<Rightarrow> gotime \<Rightarrow> store \<Rightarrow> store" where
  "TrackOutgoing tid peerURL peerName question now s =
     s\<lparr>pendingOutgoing := (pendingOutgoing s)(tid \<mapsto>
        \<lparr>p_taskId = tid, p_peerURL = peerURL, p_question = question, p_peerName = peerName,
         p_sentAt = now\<rparr>)\<rparr>"

definition partText :: "sdk \<Rightarrow> part option \<Rightarrow> string" where
  "partText k p = (case p of None \<Rightarrow> '''' | Some q \<Rightarrow> sdk_part_text k q)"

text \<open>
  The loop over parts: empty texts are skipped, a newline goes before every text but the
  first that is written to the builder.
\<close>

fun write_parts :: "sdk \<Rightarrow> part option list \<Rightarrow> string \<Rightarrow> string" where
  "write_parts k [] b = b"
| "write_parts k (p # ps) b =
     (let t = partText k p
      in if t = '''' then write_parts k ps b
         else write_parts k ps ((if b \<noteq> '''' then b @ newline else b) @ t))"

fun write_artifacts :: "sdk \<Rightarrow> artifact option list \<Rightarrow> string \<Rightarrow> string" where
  "write_artifacts k [] b = b"
| "write_artifacts k (None # as) b = write_artifacts k as b"
| "write_artifacts k (Some a # as) b = write_artifacts k as (write_parts k (a_parts a) b)"

fun first_text :: "sdk \<Rightarrow> part option list \<Rightarrow> string option" where
  "first_text k [] = None"
| "first_text k (p # ps) = (if partText k p \<noteq> '''' then Some (partText k p) else first_text k ps)"

definition extractReplyText :: "sdk \<Rightarrow> task \<Rightarrow> string" where
  "extractReplyText k t =
     (let b = write_artifacts k (t_artifacts t) ''''
      in if b = '''' then
           (case st_message (t_status t) of
              None \<Rightarrow> b
            | Some m \<Rightarrow> (case first_text k (m_parts m) of Some x \<Rightarrow> x | None \<Rightarrow> b))
         else b)"

definition messageText :: "sdk \<Rightarrow> message \<Rightarrow> string" where
  "messageText k m = write_parts k (m_parts m) ''''"

definition trimTo :: "string \<Rightarrow> nat \<Rightarrow> string" where
  "trimTo s n =
     (let s = replace_char s (CHR 0x0A) '' '';
          r = runes s
      in if length r \<le> n then s else string_of_runes (take n r) @ ''...'')"

text \<open>The three literal pieces of the reply's text, in UTF-8.\<close>

definition reply_head :: string where
  "reply_head = [CHR 0x5B, CHR 0xD0, CHR 0x9E, CHR 0xD0, CHR 0xA2, CHR 0xD0, CHR 0x92, CHR 0xD0,
     CHR 0x95, CHR 0xD0, CHR 0xA2, CHR 0x20, CHR 0xD0, CHR 0xBE, CHR 0xD1, CHR 0x82, CHR 0x20]"

definition reply_middle :: string where
  "reply_middle = [CHR 0x20, CHR 0xD0, CHR 0xBD, CHR 0xD0, CHR 0xB0, CHR 0x20, CHR 0xD1, CHR 0x82,
     CHR 0xD0, CHR 0xB2, CHR 0xD0, CHR 0xBE, CHR 0xD0, CHR 0xB9, CHR 0x20, CHR 0xD0, CHR 0xB2,
     CHR 0xD0, CHR 0xBE, CHR 0xD0, CHR 0xBF, CHR 0xD1, CHR 0x80, CHR 0xD0, CHR 0xBE, CHR 0xD1,
     CHR 0x81, CHR 0x20, CHR 0xC2, CHR 0xAB]"

definition reply_tail :: string where
  "reply_tail = [CHR 0xC2, CHR 0xBB, CHR 0x5D, CHR 0x0A]"

definition synthetic_reply :: "pending_task \<Rightarrow> string \<Rightarrow> string \<Rightarrow> gotime \<Rightarrow> inbox_entry" where
  "synthetic_reply p reply state now =
     \<lparr>e_messageId = replyMessageIDPrefix @ p_taskId p, e_taskId = p_taskId p, e_contextId = '''',
      e_from = p_peerName p,
      e_text = reply_head @ p_peerName p @ reply_middle @ trimTo (p_question p) 80 @ reply_tail @ reply,
      e_kind = KindOutgoingReply, e_state = state, e_ts = time_format False (time_utc now)\<rparr>"

definition appendSyntheticReply ::
  "snapshot_codec \<Rightarrow> disk_io \<Rightarrow> gotime \<Rightarrow> pending_task \<Rightarrow> string \<Rightarrow> string \<Rightarrow> store \<Rightarrow> store" where
  "appendSyntheticReply cd io now p reply state s =
     (if trim_space reply = '''' then s
      else (let e = synthetic_reply p reply state now
            in case appendInboxLocked e s of
                 (False, s') \<Rightarrow> s'
               | (True, s') \<Rightarrow>
                   (let s' = persistInboxLocked cd io s';
                        hook = Hook ''on-outgoing-reply''
                          [(''taskId'', p_taskId p), (''from'', p_peerName p), (''text'', reply), (''state'', state)]
                    in s'\<lparr>fired := fired s' @ (if onIncoming s' then [Callback e] else []) @ [hook]\<rparr>)))"

text \<open>Taking a pending task out of the map: the step that both delivery paths share.\<close>

definition takePending :: "string \<Rightarrow> store \<Rightarrow> (pending_task \<times> store) option" where
  "takePending tid s =
     (case pendingOutgoing s tid of
        None \<Rightarrow> None
      | Some p \<Rightarrow> Some (p, s\<lparr>pendingOutgoing := (pendingOutgoing s)(tid := None)\<rparr>))"

definition IngestOutgoingTerminal ::
  "sdk \<Rightarrow> snapshot_codec \<Rightarrow> disk_io \<Rightarrow> gotime \<Rightarrow> task option \<Rightarrow> store \<Rightarrow> bool \<times> store" where
  "IngestOutgoingTerminal k cd io now mt s =
     (case mt of
        None \<Rightarrow> (False, s)
      | Some t \<Rightarrow>
          (if \<not> task_terminal k t then (False, s)
           else (case takePending (t_id t) s of
                   None \<Rightarrow> (False, s)
                 | Some (p, s') \<Rightarrow>
                     (True, appendSyntheticReply cd io now p (extractReplyText k t)
                              (st_state (t_status t)) s'))))"

text \<open>
  \<open>PollOutgoing\<close>: \<open>order\<close> is the order in which the range over the map yields the keys,
  \<open>clock\<close> the time at which a task's turn comes.  The fetcher runs without the lock, so
  it is a state transformer: whatever other goroutines do to the store while the network
  call is in flight happens there.  It returns \<open>None\<close> for an error and otherwise the
  task, which may be nil.
\<close>

type_synonym fetcher = "string \<Rightarrow> string \<Rightarrow> store \<Rightarrow> task option option \<times> store"

definition poll_one ::
  "sdk \<Rightarrow> snapshot_codec \<Rightarrow> disk_io \<Rightarrow> (string \<Rightarrow> gotime) \<Rightarrow> fetcher \<Rightarrow> duration \<Rightarrow>
   pending_task \<Rightarrow> store \<Rightarrow> nat \<times> store" where
  "poll_one k cd io clock fetch maxAge p s =
     (if maxAge < unix_nano (clock (p_taskId p)) - unix_nano (p_sentAt p)
      then (0, s\<lparr>pendingOutgoing := (pendingOutgoing s)(p_taskId p := None)\<rparr>)
      else (case fetch (p_peerURL p) (p_taskId p) s of
              (None, s') \<Rightarrow> (0, s')
            | (Some None, s') \<Rightarrow> (0, s')
            | (Some (Some t), s') \<Rightarrow>
                (if \<not> task_terminal k t then (0, s')
                 else (case takePending (p_taskId p) s' of
                         None \<Rightarrow> (0, s')
                       | Some (_, s'') \<Rightarrow>
                           (1, appendSyntheticReply cd io (clock (p_taskId p)) p
                                 (extractReplyText k t) (st_state (t_status t)) s'')))))"

fun poll_list ::
  "sdk \<Rightarrow> snapshot_codec \<Rightarrow> disk_io \<Rightarrow> (string \<Rightarrow> gotime) \<Rightarrow> fetcher \<Rightarrow> duration \<Rightarrow>
   pending_task list \<Rightarrow> store \<Rightarrow> nat \<times> store" where
  "poll_list k cd io clock fetch maxAge [] s = (0, s)"
| "poll_list k cd io clock fetch maxAge (p # ps) s =
     (case poll_one k cd io clock fetch maxAge p s of
        (n, s') \<Rightarrow> (case poll_list k cd io clock fetch maxAge ps s' of (m, s'') \<Rightarrow> (n + m, s'')))"

definition PollOutgoing ::
  "sdk \<Rightarrow> snapshot_codec \<Rightarrow> disk_io \<Rightarrow> (string \<Rightarrow> gotime) \<Rightarrow> string list \<Rightarrow> fetcher \<Rightarrow> duration \<Rightarrow>
   store \<Rightarrow> nat \<times> store" where
  "PollOutgoing k cd io clock order fetch maxAge s =
     poll_list k cd io clock fetch maxAge (List.map_filter (pendingOutgoing s) order) s"

section \<open>The snapshot format\<close>

text \<open>What the store relies on of a snapshot codec: it encodes, and decoding undoes it up to a repair.\<close>

locale snapshot_format =
  fixes cd :: snapshot_codec and repair :: "snapshot_entry \<Rightarrow> snapshot_entry"
  assumes encodes: "\<exists>b. enc_snapshot cd ns = Some b \<and> b \<noteq> ''''"
    and decodes: "enc_snapshot cd ns = Some b \<Longrightarrow> dec_snapshot cd b = Some (map repair ns)"
begin

lemma persist_writes:
  assumes "inboxPath s \<noteq> ''''" "write_tmp io = Write_ok" "rename_ok io"
  shows "\<exists>b. b \<noteq> '''' \<and> disk (persistInboxLocked cd io s) (inboxPath s) = Some b \<and>
    dec_snapshot cd b = Some (map (repair \<circ> to_snapshot) (inbox s))"
proof -
  obtain b where b: "enc_snapshot cd (map to_snapshot (inbox s)) = Some b" "b \<noteq> ''''"
    using encodes by blast
  with decodes [OF b(1)] assms show ?thesis
    by (auto simp: persistInboxLocked_def Let_def)
qed

lemma load_reads:
  assumes "inboxPath s \<noteq> ''''" "read_ok io" "disk s (inboxPath s) = Some b" "b \<noteq> ''''"
    and "dec_snapshot cd b = Some ns"
  shows "inbox (LoadInbox cd io s) = inbox (appendAll (map of_snapshot ns) s)"
  using assms by (simp add: LoadInbox_def Let_def)

end

definition repair_entry :: "snapshot_entry \<Rightarrow> snapshot_entry" where
  "repair_entry n = \<lparr>s_messageId = to_valid (s_messageId n), s_taskId = to_valid (s_taskId n),
     s_contextId = to_valid (s_contextId n), s_from = to_valid (s_from n),
     s_text = to_valid (s_text n), s_ts = to_valid (s_ts n)\<rparr>"

lemma to_valid_field [simp]:
  "n \<in> set snapshot_fields \<Longrightarrow> to_valid n = n"
proof -
  have "\<forall>n \<in> set snapshot_fields. valid_utf8 n"
    by (simp add: snapshot_fields_def valid_utf8_ascii byte_of_def)
  then show "n \<in> set snapshot_fields \<Longrightarrow> to_valid n = n" by (simp add: valid_utf8_def)
qed

lemma to_valid_Nil [simp]: "to_valid [] = []"
  by (simp add: to_valid_def string_of_runes_def)

lemma entry_of_clean_json: "entry_of_json (clean_json (entry_json n)) = Some (repair_entry n)"
proof -
  have "to_valid ''messageId'' = ''messageId''" "to_valid ''taskId'' = ''taskId''"
    "to_valid ''contextId'' = ''contextId''" "to_valid ''from'' = ''from''"
    "to_valid ''text'' = ''text''" "to_valid ''ts'' = ''ts''"
    by (rule to_valid_field, simp add: snapshot_fields_def)+
  then show ?thesis
    by (simp add: entry_json_def entry_of_json_def decode_struct_def match_field_def
        snapshot_fields_def repair_entry_def)
qed

interpretation snap: snapshot_format snapshot_json repair_entry
proof
  fix ns
  show "\<exists>b. enc_snapshot snapshot_json ns = Some b \<and> b \<noteq> ''''"
    by (simp add: snapshot_json_def marshal_def)
next
  fix ns b
  assume "enc_snapshot snapshot_json ns = Some b"
  then have b: "b = marshal (JArr (map entry_json ns))" by (simp add: snapshot_json_def)
  have "fits maxNestingDepth (JArr (map entry_json ns))"
    by (auto simp: maxNestingDepth_def entry_json_def)
  then have "unmarshal b = Some (clean_json (JArr (map entry_json ns)))"
    by (simp only: b unmarshal_marshal)
  moreover have "decode_all entry_of_json (map clean_json (map entry_json ns)) = Some (map repair_entry ns)"
    by (induction ns) (simp_all add: entry_of_clean_json)
  ultimately show "dec_snapshot snapshot_json b = Some (map repair_entry ns)"
    by (simp add: snapshot_json_def)
qed

section \<open>The invariant of the inbox\<close>

text \<open>At most \<open>inboxSoftCap\<close> entries, and no two of them with the same non-empty message ID.\<close>

definition ids :: "inbox_entry list \<Rightarrow> string list" where
  "ids es = filter (\<lambda>i. i \<noteq> '''') (map e_messageId es)"

definition inbox_ok :: "inbox_entry list \<Rightarrow> bool" where
  "inbox_ok es = (length es \<le> inboxSoftCap \<and> distinct (ids es))"

lemma ids_simps [simp]:
  "ids [] = []" "ids (es @ fs) = ids es @ ids fs"
  "ids (e # es) = (if e_messageId e = '''' then ids es else e_messageId e # ids es)"
  by (simp_all add: ids_def)

lemma set_ids: "set (ids es) = e_messageId ` set es - {''''}"
  by (auto simp: ids_def)

lemma ids_filter: "distinct (ids es) \<Longrightarrow> distinct (ids (filter P es))"
  by (induction es) (auto simp: set_ids)

lemma ids_drop: "distinct (ids es) \<Longrightarrow> distinct (ids (drop n es))"
  by (metis append_take_drop_id distinct_append ids_simps(2))

lemma inbox_ok_Nil [simp]: "inbox_ok []"
  by (simp add: inbox_ok_def)

lemma inbox_ok_filter: "inbox_ok es \<Longrightarrow> inbox_ok (filter P es)"
  unfolding inbox_ok_def using length_filter_le [of P es] ids_filter [of es P] le_trans by blast

lemma inboxContains_iff:
  "inboxContainsLocked i s \<longleftrightarrow> i \<noteq> '''' \<and> i \<in> e_messageId ` set (inbox s)"
  by (auto simp: inboxContainsLocked_def list_ex_iff)

lemma append_dup: "inboxContainsLocked (e_messageId e) s \<Longrightarrow> appendInboxLocked e s = (False, s)"
  by (simp add: appendInboxLocked_def)

lemma append_new:
  "\<not> inboxContainsLocked (e_messageId e) s \<Longrightarrow>
   appendInboxLocked e s = (True, s\<lparr>inbox := drop (Suc (length (inbox s)) - inboxSoftCap) (inbox s @ [e])\<rparr>)"
  by (simp add: appendInboxLocked_def Let_def)

lemma append_fst: "fst (appendInboxLocked e s) \<longleftrightarrow> \<not> inboxContainsLocked (e_messageId e) s"
  by (simp add: appendInboxLocked_def Let_def)

lemma append_ok: "inbox_ok (inbox s) \<Longrightarrow> inbox_ok (inbox (snd (appendInboxLocked e s)))"
proof (cases "inboxContainsLocked (e_messageId e) s")
  case False
  assume ok: "inbox_ok (inbox s)"
  have "distinct (ids (inbox s @ [e]))"
    using ok False by (auto simp: inbox_ok_def inboxContains_iff set_ids)
  from ids_drop [OF this, of "Suc (length (inbox s)) - inboxSoftCap"] show ?thesis
    by (simp add: append_new [OF False] inbox_ok_def del: drop_append)
qed (simp add: append_dup)

text \<open>What an operation leaves alone.\<close>

lemma append_frame [simp]:
  "inboxPath (snd (appendInboxLocked e s)) = inboxPath s"
  "onIncoming (snd (appendInboxLocked e s)) = onIncoming s"
  "pendingOutgoing (snd (appendInboxLocked e s)) = pendingOutgoing s"
  "disk (snd (appendInboxLocked e s)) = disk s"
  "mets (snd (appendInboxLocked e s)) = mets s"
  "fired (snd (appendInboxLocked e s)) = fired s"
  by (simp_all add: appendInboxLocked_def Let_def)

lemma persist_frame [simp]:
  "inbox (persistInboxLocked cd io s) = inbox s"
  "inboxPath (persistInboxLocked cd io s) = inboxPath s"
  "onIncoming (persistInboxLocked cd io s) = onIncoming s"
  "pendingOutgoing (persistInboxLocked cd io s) = pendingOutgoing s"
  "mets (persistInboxLocked cd io s) = SetInboxSize (length (inbox s)) (mets s)"
  "fired (persistInboxLocked cd io s) = fired s"
  by (auto simp: persistInboxLocked_def Let_def split: option.split write_outcome.split)

lemma appendAll_frame [simp]:
  "inboxPath (appendAll es s) = inboxPath s"
  "pendingOutgoing (appendAll es s) = pendingOutgoing s"
  "disk (appendAll es s) = disk s"
  "fired (appendAll es s) = fired s"
  by (induction es arbitrary: s) simp_all

lemma appendAll_ok: "inbox_ok (inbox s) \<Longrightarrow> inbox_ok (inbox (appendAll es s))"
  by (induction es arbitrary: s) (simp_all add: append_ok)

lemma takePending_frame:
  "takePending tid s = Some (p, s') \<longleftrightarrow>
   pendingOutgoing s tid = Some p \<and> s' = s\<lparr>pendingOutgoing := (pendingOutgoing s)(tid := None)\<rparr>"
  by (auto simp: takePending_def split: option.split)

lemma appendSyntheticReply_ok:
  "inbox_ok (inbox s) \<Longrightarrow> inbox_ok (inbox (appendSyntheticReply cd io now p reply st s))"
  using append_ok [of s "synthetic_reply p reply st now"]
  by (auto simp: appendSyntheticReply_def Let_def split: prod.split bool.split)

lemma appendSyntheticReply_frame [simp]:
  "pendingOutgoing (appendSyntheticReply cd io now p reply st s) = pendingOutgoing s"
  "inboxPath (appendSyntheticReply cd io now p reply st s) = inboxPath s"
  "onIncoming (appendSyntheticReply cd io now p reply st s) = onIncoming s"
  by (cases "appendInboxLocked (synthetic_reply p reply st now) s";
      use append_frame [of "synthetic_reply p reply st now" s] in
        \<open>auto simp: appendSyntheticReply_def Let_def split: bool.split\<close>)+

text \<open>Every operation keeps the invariant.\<close>

lemma ops_keep_ok:
  assumes "inbox_ok (inbox s)"
  shows "inbox_ok (inbox (snd (deliverIncoming cd io e s)))"
    and "inbox_ok (inbox (snd (DrainInbox cd io s)))"
    and "inbox_ok (inbox (snd (PeekInbox cd io s)))"
    and "inbox_ok (inbox (snd (dropTaskEntries cd io tid s)))"
    and "inbox_ok (inbox (snd (evictExpiredReplies cd io now s)))"
    and "inbox_ok (inbox (LoadInbox cd io s))"
    and "inbox_ok (inbox (snd (IngestOutgoingTerminal k cd io now mt s)))"
proof -
  show "inbox_ok (inbox (snd (deliverIncoming cd io e s)))"
    using append_ok [OF assms, of e]
    by (auto simp: deliverIncoming_def Let_def split: prod.split bool.split)
  show "inbox_ok (inbox (LoadInbox cd io s))"
    using assms by (simp add: LoadInbox_def Let_def appendAll_ok split: option.split)
  show "inbox_ok (inbox (snd (IngestOutgoingTerminal k cd io now mt s)))"
    using assms
    by (auto simp: IngestOutgoingTerminal_def appendSyntheticReply_ok takePending_frame
        split: option.split)
qed (use assms in \<open>simp_all add: DrainInbox_def PeekInbox_def dropTaskEntries_def
    evictExpiredReplies_def Let_def inbox_ok_filter\<close>)

section \<open>Sample values\<close>

definition hello :: inbox_entry where
  "hello = \<lparr>e_messageId = ''m1'', e_taskId = ''t1'', e_contextId = '''', e_from = ''bob'',
     e_text = ''hi'', e_kind = '''', e_state = '''', e_ts = ''''\<rparr>"

definition io0 :: disk_io where
  "io0 = \<lparr>write_tmp = Write_ok, rename_ok = True, read_ok = True\<rparr>"

definition done_task :: task where
  "done_task = \<lparr>t_id = ''t7'', t_contextId = ''c'',
     t_status = \<lparr>st_state = TaskStateCompleted, st_message = None, st_timestamp = None\<rparr>,
     t_artifacts = [Some \<lparr>a_id = ''a'', a_name = '''', a_parts = [Some (NewTextPart ''yes'')]\<rparr>],
     t_history = [], t_metadata = []\<rparr>"

lemmas eval_ops =
  Let_def NewStore_def TrackOutgoing_def IngestOutgoingTerminal_def takePending_def
  appendSyntheticReply_def appendInboxLocked_def inboxContainsLocked_def persistInboxLocked_def
  task_terminal_def sdk0_def extractReplyText_def partText_def text_of_part_def NewTextPart_def
  task_state_defs

section \<open>Properties\<close>

lemma appendAll_fresh:
  "inbox_ok (inbox s @ es) \<Longrightarrow> inbox (appendAll es s) = inbox s @ es"
proof (induction es arbitrary: s)
  case (Cons e es)
  have new: "\<not> inboxContainsLocked (e_messageId e) s"
    using Cons.prems by (auto simp: inbox_ok_def inboxContains_iff set_ids split: if_splits)
  have "Suc (length (inbox s)) \<le> inboxSoftCap" using Cons.prems by (simp add: inbox_ok_def)
  then have "inbox (snd (appendInboxLocked e s)) = inbox s @ [e]" by (simp add: append_new [OF new])
  with Cons show ?case by simp
qed simp

definition entry_valid :: "inbox_entry \<Rightarrow> bool" where
  "entry_valid e = list_all valid_utf8
     [e_messageId e, e_taskId e, e_contextId e, e_from e, e_text e, e_ts e]"

definition forget_kind :: "inbox_entry \<Rightarrow> inbox_entry" where
  "forget_kind e = e\<lparr>e_kind := '''', e_state := ''''\<rparr>"

lemma of_snapshot_repair: "entry_valid e \<Longrightarrow> of_snapshot (repair_entry (to_snapshot e)) = forget_kind e"
  by (simp add: entry_valid_def valid_utf8_def of_snapshot_def repair_entry_def to_snapshot_def forget_kind_def)

lemma ids_forget [simp]: "ids (map forget_kind es) = ids es"
  by (induction es) (simp_all add: forget_kind_def)

lemma load_after_persist:
  assumes "inbox_ok (inbox s)" "\<forall>e \<in> set (inbox s). entry_valid e"
    and "inboxPath s \<noteq> ''''" "write_tmp io = Write_ok" "rename_ok io" "read_ok io'"
    and "inbox r = []" "inboxPath r = inboxPath s" "disk r (inboxPath s) = disk (persistInboxLocked snapshot_json io s) (inboxPath s)"
  shows "inbox (LoadInbox snapshot_json io' r) = map forget_kind (inbox s)"
proof -
  obtain b where b: "b \<noteq> ''''" "disk (persistInboxLocked snapshot_json io s) (inboxPath s) = Some b"
      "dec_snapshot snapshot_json b = Some (map (repair_entry \<circ> to_snapshot) (inbox s))"
    using snap.persist_writes [OF assms(3-5)] by blast
  have "map of_snapshot (map (repair_entry \<circ> to_snapshot) (inbox s)) = map forget_kind (inbox s)"
    using assms(2) by (simp add: of_snapshot_repair)
  moreover have "inbox (appendAll (map forget_kind (inbox s)) r) = map forget_kind (inbox s)"
    using appendAll_fresh [of r "map forget_kind (inbox s)"] assms(1,7) by (simp add: inbox_ok_def)
  ultimately show ?thesis
    using snap.load_reads [of r io' b] b assms(3,6,8,9) by (simp del: map_map)
qed

text \<open>
  The snapshot that a successful \<open>persistInboxLocked\<close> left on disk gives back, in a new process,
  the whole inbox in order, every field that the snapshot carries unchanged.
\<close>

theorem restart_restores_inbox:
  assumes "inbox_ok (inbox s)" "\<forall>e \<in> set (inbox s). entry_valid e"
    and "inboxPath s \<noteq> ''''" "write_tmp io = Write_ok" "rename_ok io" "read_ok io'"
  shows "inbox (LoadInbox snapshot_json io'
           (NewStore\<lparr>inboxPath := inboxPath s, disk := disk (persistInboxLocked snapshot_json io s)\<rparr>))
         = map forget_kind (inbox s)"
  by (rule load_after_persist [OF assms]) (simp_all add: NewStore_def)

theorem restart_restores_inbox_witness:
  "inbox (LoadInbox snapshot_json io0
     (NewStore\<lparr>inboxPath := ''inbox.json'',
        disk := disk (persistInboxLocked snapshot_json io0 (NewStore\<lparr>inboxPath := ''inbox.json'', inbox := [hello]\<rparr>))\<rparr>))
   = [hello]"
proof -
  have "entry_valid hello"
    by (simp add: entry_valid_def hello_def valid_utf8_ascii byte_of_def)
  moreover have "inbox_ok [hello]" by (simp add: inbox_ok_def inboxSoftCap_def)
  moreover have "map forget_kind [hello] = [hello]" by (simp add: forget_kind_def hello_def)
  ultimately show ?thesis
    using restart_restores_inbox [of "NewStore\<lparr>inboxPath := ''inbox.json'', inbox := [hello]\<rparr>" io0 io0]
    by (simp add: io0_def)
qed

text \<open>
  The snapshot is replaced atomically: unless both the temporary file was written and
  the rename succeeded, the file at \<open>InboxPath\<close> is the last good snapshot, untouched.
\<close>

theorem failed_persist_keeps_snapshot:
  assumes "write_tmp io \<noteq> Write_ok \<or> \<not> rename_ok io"
  shows "disk (persistInboxLocked cd io s) (inboxPath s) = disk s (inboxPath s)"
  using assms by (auto simp: persistInboxLocked_def Let_def split: option.split write_outcome.split)

theorem failed_persist_keeps_snapshot_witness:
  "disk (persistInboxLocked snapshot_json (io0\<lparr>rename_ok := False\<rparr>)
      (NewStore\<lparr>inboxPath := ''i'', disk := [''i'' \<mapsto> ''old'']\<rparr>)) ''i'' = Some ''old''"
  using failed_persist_keeps_snapshot [of "io0\<lparr>rename_ok := False\<rparr>" snapshot_json
      "NewStore\<lparr>inboxPath := ''i'', disk := [''i'' \<mapsto> ''old'']\<rparr>"]
  by (simp add: io0_def)

text \<open>
  \<open>appendInboxLocked\<close>: an entry whose non-empty message ID is queued already changes
  nothing and is reported as a duplicate; any other entry becomes the last of the inbox, and
  of the entries before it the last \<open>inboxSoftCap - 1\<close> remain, in order.
\<close>

theorem append_effectively_once:
  "appendInboxLocked e s =
     (if e_messageId e \<noteq> '''' \<and> e_messageId e \<in> e_messageId ` set (inbox s) then (False, s)
      else (True, s\<lparr>inbox := drop (length (inbox s) - (inboxSoftCap - 1)) (inbox s) @ [e]\<rparr>))"
proof -
  have "drop (Suc (length (inbox s)) - inboxSoftCap) (inbox s @ [e]) =
      drop (length (inbox s) - (inboxSoftCap - 1)) (inbox s) @ [e]"
    by (simp add: inboxSoftCap_def)
  then show ?thesis
    by (cases "inboxContainsLocked (e_messageId e) s")
       (simp_all only: inboxContains_iff [symmetric] append_dup append_new if_True if_False simp_thms)
qed

text \<open>
  \<open>PeekInbox\<close> returns the whole inbox and consumes exactly the one-shot replies: a
  second peek returns the genuine entries alone, in order, and leaves them.
\<close>

theorem peek_consumes_replies:
  "fst (PeekInbox cd io s) = inbox s \<and>
   fst (PeekInbox cd io' (snd (PeekInbox cd io s))) =
     filter (\<lambda>e. \<not> has_prefix (e_messageId e) replyMessageIDPrefix) (inbox s) \<and>
   snd (PeekInbox cd io' (snd (PeekInbox cd io s))) = snd (PeekInbox cd io s)"
proof -
  have "filter (\<lambda>e. \<not> has_reply_id e) (inbox s) = inbox s" if "\<not> list_ex has_reply_id (inbox s)"
    using that by (auto simp: list_ex_iff intro: filter_True)
  moreover have "\<not> list_ex has_reply_id (filter (\<lambda>e. \<not> has_reply_id e) (inbox s))"
    by (simp add: list_ex_iff)
  ultimately show ?thesis
    by (simp add: PeekInbox_def Let_def flip: has_reply_id_def)
qed

lemma reply_expired_synthetic:
  assumes "formattable (time_utc sent)"
  shows "reply_expired cutoff (synthetic_reply p r st sent) \<longleftrightarrow>
    unix_nano sent div second_d * second_d < unix_nano cutoff"
proof -
  have "time_parse (time_format False (time_utc sent)) =
      Some ((time_utc sent)\<lparr>unix_nano := unix_nano sent div 1000000000 * 1000000000\<rparr>)"
    using time_parse_format(2) [OF assms] by (simp add: time_utc_def)
  moreover from this have "time_format False (time_utc sent) \<noteq> ''''"
    by (auto simp: time_parse_def get_year_def)
  ultimately show ?thesis
    by (simp add: reply_expired_def synthetic_reply_def time_before_def second_d_def)
qed

lemma evict_inbox:
  "inbox (snd (evictExpiredReplies cd io now s)) =
   filter (\<lambda>e. \<not> reply_expired (time_add now (- replyEntryTTL)) e) (inbox s)"
proof -
  let ?P = "\<lambda>e. \<not> reply_expired (time_add now (- replyEntryTTL)) e"
  have "filter ?P (inbox s) = inbox s" if "\<not> 0 < length (inbox s) - length (filter ?P (inbox s))"
    using that length_filter_le [of ?P "inbox s"]
    by (metis (no_types, lifting) diff_is_0_eq filter_True length_filter_less not_gr_zero
        leD)
  then show ?thesis by (auto simp: evictExpiredReplies_def Let_def)
qed

text \<open>
  The janitor's rule for a reply that was delivered at \<open>sent\<close>: a run at \<open>now\<close> removes it
  exactly when \<open>sent\<close>, rounded down to the second as the timestamp is, lies more than
  \<open>replyEntryTTL\<close> before \<open>now\<close>; and it never removes an entry without the reply prefix.
\<close>

theorem evict_exact:
  assumes "formattable (time_utc sent)" "synthetic_reply p r st sent \<in> set (inbox s)"
  shows "(synthetic_reply p r st sent \<in> set (inbox (snd (evictExpiredReplies cd io now s))) \<longleftrightarrow>
      unix_nano now \<le> unix_nano sent div second_d * second_d + replyEntryTTL) \<and>
    filter (\<lambda>e. \<not> has_prefix (e_messageId e) replyMessageIDPrefix) (inbox (snd (evictExpiredReplies cd io now s)))
      = filter (\<lambda>e. \<not> has_prefix (e_messageId e) replyMessageIDPrefix) (inbox s)"
proof
  show "synthetic_reply p r st sent \<in> set (inbox (snd (evictExpiredReplies cd io now s))) \<longleftrightarrow>
      unix_nano now \<le> unix_nano sent div second_d * second_d + replyEntryTTL"
    using assms(2) by (simp add: evict_inbox reply_expired_synthetic [OF assms(1)] time_add_def not_less) linarith
  show "filter (\<lambda>e. \<not> has_prefix (e_messageId e) replyMessageIDPrefix) (inbox (snd (evictExpiredReplies cd io now s)))
      = filter (\<lambda>e. \<not> has_prefix (e_messageId e) replyMessageIDPrefix) (inbox s)"
    by (auto simp: evict_inbox reply_expired_def intro: filter_cong)
qed

definition asked :: pending_task where
  "asked = \<lparr>p_taskId = ''t7'', p_peerURL = ''http://p'', p_question = ''ok?'', p_peerName = ''bob'',
     p_sentAt = \<lparr>unix_nano = 0, zone_off = 0\<rparr>\<rparr>"

theorem evict_exact_witness:
  "synthetic_reply asked ''yes'' TaskStateCompleted \<lparr>unix_nano = 1500000000, zone_off = 0\<rparr> \<notin>
     set (inbox (snd (evictExpiredReplies snapshot_json io0 \<lparr>unix_nano = 121000000001, zone_off = 0\<rparr>
       (NewStore\<lparr>inbox := [synthetic_reply asked ''yes'' TaskStateCompleted \<lparr>unix_nano = 1500000000, zone_off = 0\<rparr>]\<rparr>))))"
proof -
  have "formattable (time_utc \<lparr>unix_nano = 1500000000, zone_off = 0\<rparr>)" by code_simp
  from evict_exact [OF this, of asked "''yes''" TaskStateCompleted
      "NewStore\<lparr>inbox := [synthetic_reply asked ''yes'' TaskStateCompleted \<lparr>unix_nano = 1500000000, zone_off = 0\<rparr>]\<rparr>"
      snapshot_json io0 "\<lparr>unix_nano = 121000000001, zone_off = 0\<rparr>"]
  show ?thesis by (simp add: replyEntryTTL_def minute_d_def second_d_def)
qed

text \<open>
  \<open>IngestOutgoingTerminal\<close> on a pending task that ended with a reply: it reports True, the
  reply is the last inbox entry, the task is no longer pending, the hook is fired with the
  bare reply text; and a second call for the same task reports False and changes nothing.
\<close>

theorem ingest_delivers_once:
  assumes "task_terminal k t" "pendingOutgoing s (t_id t) = Some p" "p_taskId p = t_id t"
    and "trim_space (extractReplyText k t) \<noteq> ''''"
    and "\<not> inboxContainsLocked (replyMessageIDPrefix @ t_id t) s"
    and run: "IngestOutgoingTerminal k cd io now (Some t) s = (reported, s')"
  shows "reported \<and>
    last (inbox s') = synthetic_reply p (extractReplyText k t) (st_state (t_status t)) now \<and>
    inbox s' \<noteq> [] \<and> pendingOutgoing s' = (pendingOutgoing s)(t_id t := None) \<and>
    last (fired s') = Hook ''on-outgoing-reply''
      [(''taskId'', t_id t), (''from'', p_peerName p), (''text'', extractReplyText k t),
       (''state'', st_state (t_status t))] \<and>
    IngestOutgoingTerminal k cd io' now' (Some t) s' = (False, s')"
proof -
  let ?e = "synthetic_reply p (extractReplyText k t) (st_state (t_status t)) now"
  let ?s = "s\<lparr>pendingOutgoing := (pendingOutgoing s)(t_id t := None)\<rparr>"
  have id: "e_messageId ?e = replyMessageIDPrefix @ t_id t" by (simp add: synthetic_reply_def assms(3))
  have "\<not> inboxContainsLocked (e_messageId ?e) ?s"
    using assms(5) by (simp add: id inboxContainsLocked_def)
  note app = append_new [OF this]
  have s'_def: "s' = appendSyntheticReply cd io now p (extractReplyText k t) (st_state (t_status t)) ?s"
    and ing: reported
    using assms(1,2) run by (simp_all add: IngestOutgoingTerminal_def takePending_def)
  have "inbox s' = drop (Suc (length (inbox s)) - inboxSoftCap) (inbox s @ [?e])"
    using assms(4) app by (simp add: s'_def appendSyntheticReply_def Let_def)
  then have "inbox s' \<noteq> []" "last (inbox s') = ?e"
    by (simp_all add: inboxSoftCap_def)
  moreover have "last (fired s') = Hook ''on-outgoing-reply''
      [(''taskId'', t_id t), (''from'', p_peerName p), (''text'', extractReplyText k t),
       (''state'', st_state (t_status t))]"
    using assms(3,4) app by (simp add: s'_def appendSyntheticReply_def Let_def)
  moreover have "pendingOutgoing s' = (pendingOutgoing s)(t_id t := None)"
    by (simp add: s'_def)
  moreover from this have "IngestOutgoingTerminal k cd io' now' (Some t) s' = (False, s')"
    by (simp add: IngestOutgoingTerminal_def takePending_def)
  ultimately show ?thesis by (simp add: ing)
qed

theorem ingest_delivers_once_witness:
  "\<exists>s'. IngestOutgoingTerminal sdk0 snapshot_json io0 \<lparr>unix_nano = 0, zone_off = 0\<rparr> (Some done_task)
       (NewStore\<lparr>pendingOutgoing := [''t7'' \<mapsto> asked]\<rparr>) = (True, s') \<and>
     last (inbox s') = synthetic_reply asked ''yes'' TaskStateCompleted \<lparr>unix_nano = 0, zone_off = 0\<rparr>"
proof -
  let ?s = "NewStore\<lparr>pendingOutgoing := [''t7'' \<mapsto> asked]\<rparr>" and ?t = "\<lparr>unix_nano = 0, zone_off = 0\<rparr>"
  obtain b s' where run: "IngestOutgoingTerminal sdk0 snapshot_json io0 ?t (Some done_task) ?s = (b, s')"
    by fastforce
  have yes: "extractReplyText sdk0 done_task = ''yes''" by (simp add: done_task_def eval_ops)
  have "trim_space ''yes'' \<noteq> ''''" by code_simp
  then have "b \<and> last (inbox s') = synthetic_reply asked ''yes'' TaskStateCompleted ?t"
    using ingest_delivers_once [OF _ _ _ _ _ run, of asked io0 ?t] yes
    by (simp add: done_task_def asked_def task_terminal_def sdk0_def NewStore_def inboxContainsLocked_def)
  with run show ?thesis by auto
qed

lemma string_of_runes_append: "string_of_runes (a @ b) = string_of_runes a @ string_of_runes b"
  by (simp add: string_of_runes_def)

text \<open>
  \<open>trimTo\<close>: the result has at most \<open>n + 3\<close> runes; when the flattened
  text has more than \<open>n\<close> runes, its first \<open>n\<close> runes are kept whole and an ellipsis follows,
  otherwise the flattened text is returned unchanged.
\<close>

theorem trimTo_spec:
  "(let flat = replace_char s (CHR 0x0A) '' ''
    in (if length (runes flat) \<le> n then trimTo s n = flat
        else runes (trimTo s n) = take n (runes flat) @ runes ''...'')) \<and>
   length (runes (trimTo s n)) \<le> n + 3"
proof -
  define flat where "flat = replace_char s (CHR 0x0A) '' ''"
  have dots: "runes ''...'' = [0x2E, 0x2E, 0x2E]" by (simp add: runes_ascii byte_of_def)
  have tk: "list_all scalar (take n (runes flat))"
    using runes_scalar [of flat] by (auto simp: list_all_iff dest: in_set_takeD)
  have "runes (trimTo s n) = take n (runes flat) @ runes ''...''" if "\<not> length (runes flat) \<le> n"
    using that runes_string_of_runes_append [OF tk, of "''...''"]
    by (simp add: trimTo_def flat_def Let_def)
  moreover have "trimTo s n = flat" if "length (runes flat) \<le> n"
    using that by (simp add: trimTo_def flat_def Let_def)
  ultimately show ?thesis
    by (auto simp: flat_def [symmetric] Let_def dots)
qed

end
