(* ===== verification/Store_Steps.thy ===== *)
theory Store_Steps
  imports Inbox_Store
begin

text \<open>
  internal/agent/store.go under concurrency.  The store's mutex makes every critical section
  atomic; a delivery of an outgoing reply has two of them (take the pending task, append the
  reply) with other goroutines in between.  The step relation interleaves the critical
  sections: a reply that is taken but not yet appended is in flight.  History: the task IDs
  passed to \<open>TrackOutgoing\<close>.

  Shown: the inbox invariant in every reachable state, and that every tracked task is
  announced at most once however the subscription, the polling loop, the expiry and the
  other operations interleave.
\<close>

record reply_in_flight =
  f_task :: pending_task
  f_reply :: string
  f_state :: string

record world =
  w_store :: store
  w_flight :: "reply_in_flight list"
  w_tracked :: "string list"

definition world0 :: "string \<Rightarrow> bool \<Rightarrow> (string \<rightharpoonup> string) \<Rightarrow> world" where
  "world0 path cb d =
     \<lparr>w_store = NewStore\<lparr>inboxPath := path, onIncoming := cb, disk := d\<rparr>, w_flight = [], w_tracked = []\<rparr>"

text \<open>The first critical section of the fast path and of the polling loop.\<close>

definition ingest_take :: "sdk \<Rightarrow> task \<Rightarrow> world \<Rightarrow> world option" where
  "ingest_take k t w =
     (if \<not> task_terminal k t then None
      else (case takePending (t_id t) (w_store w) of
              None \<Rightarrow> None
            | Some (p, s) \<Rightarrow>
                Some (w\<lparr>w_store := s,
                        w_flight := w_flight w @
                          [\<lparr>f_task = p, f_reply = extractReplyText k t, f_state = st_state (t_status t)\<rparr>]\<rparr>)))"

definition poll_take :: "sdk \<Rightarrow> pending_task \<Rightarrow> task \<Rightarrow> world \<Rightarrow> world option" where
  "poll_take k p t w =
     (if \<not> task_terminal k t then None
      else (case takePending (p_taskId p) (w_store w) of
              None \<Rightarrow> None
            | Some (_, s) \<Rightarrow>
                Some (w\<lparr>w_store := s,
                        w_flight := w_flight w @
                          [\<lparr>f_task = p, f_reply = extractReplyText k t, f_state = st_state (t_status t)\<rparr>]\<rparr>)))"

definition poll_expire :: "pending_task \<Rightarrow> world \<Rightarrow> world" where
  "poll_expire p w =
     w\<lparr>w_store := (w_store w)\<lparr>pendingOutgoing := (pendingOutgoing (w_store w))(p_taskId p := None)\<rparr>\<rparr>"

text \<open>The second critical section, with the goroutines it launches.\<close>

definition land :: "snapshot_codec \<Rightarrow> disk_io \<Rightarrow> gotime \<Rightarrow> reply_in_flight \<Rightarrow> store \<Rightarrow> store" where
  "land cd io now f s = appendSyntheticReply cd io now (f_task f) (f_reply f) (f_state f) s"

inductive store_step :: "sdk \<Rightarrow> snapshot_codec \<Rightarrow> world \<Rightarrow> world \<Rightarrow> bool" for k cd where
  step_track: "store_step k cd w
     (w\<lparr>w_store := TrackOutgoing tid url name q now (w_store w), w_tracked := tid # w_tracked w\<rparr>)"
| step_ingest: "ingest_take k t w = Some w' \<Longrightarrow> store_step k cd w w'"
| step_poll: "poll_take k p t w = Some w' \<Longrightarrow> store_step k cd w w'"
| step_expire: "store_step k cd w (poll_expire p w)"
| step_land: "w_flight w = fs @ f # gs \<Longrightarrow>
     store_step k cd w (w\<lparr>w_store := land cd io now f (w_store w), w_flight := fs @ gs\<rparr>)"
| step_deliver: "store_step k cd w (w\<lparr>w_store := snd (deliverIncoming cd io e (w_store w))\<rparr>)"
| step_drain: "store_step k cd w (w\<lparr>w_store := snd (DrainInbox cd io (w_store w))\<rparr>)"
| step_peek: "store_step k cd w (w\<lparr>w_store := snd (PeekInbox cd io (w_store w))\<rparr>)"
| step_drop: "store_step k cd w (w\<lparr>w_store := snd (dropTaskEntries cd io tid (w_store w))\<rparr>)"
| step_evict: "store_step k cd w (w\<lparr>w_store := snd (evictExpiredReplies cd io now (w_store w))\<rparr>)"
| step_load: "store_step k cd w (w\<lparr>w_store := LoadInbox cd io (w_store w)\<rparr>)"

inductive_simps store_step_iff: "store_step k cd w w'"

abbreviation steps :: "sdk \<Rightarrow> snapshot_codec \<Rightarrow> world \<Rightarrow> world \<Rightarrow> bool" where
  "steps k cd \<equiv> (store_step k cd)\<^sup>*\<^sup>*"

section \<open>Invariants of the reachable states\<close>

definition announces :: "string \<Rightarrow> launched \<Rightarrow> bool" where
  "announces tid l =
     (case l of Hook ev fl \<Rightarrow> ev = ''on-outgoing-reply'' \<and> (''taskId'', tid) \<in> set fl
      | Callback _ \<Rightarrow> False)"

definition announced :: "string \<Rightarrow> world \<Rightarrow> nat" where
  "announced tid w = length (filter (announces tid) (fired (w_store w)))"

definition in_flight :: "string \<Rightarrow> world \<Rightarrow> nat" where
  "in_flight tid w = length (filter (\<lambda>f. p_taskId (f_task f) = tid) (w_flight w))"

definition still_pending :: "string \<Rightarrow> world \<Rightarrow> nat" where
  "still_pending tid w = (if pendingOutgoing (w_store w) tid = None then 0 else 1)"

definition world_ok :: "world \<Rightarrow> bool" where
  "world_ok w =
     (inbox_ok (inbox (w_store w)) \<and>
      (\<forall>tid p. pendingOutgoing (w_store w) tid = Some p \<longrightarrow> p_taskId p = tid) \<and>
      (\<forall>tid. announced tid w + in_flight tid w + still_pending tid w \<le> count_list (w_tracked w) tid))"

lemmas tally_defs = announced_def in_flight_def still_pending_def

lemma world0_ok: "world_ok (world0 path cb d)"
  by (simp add: world_ok_def world0_def NewStore_def tally_defs)

text \<open>Of the operations on the inbox, none touches the pending tasks, and only \<open>land\<close> announces.\<close>

lemma quiet_ops:
  "pendingOutgoing (snd (deliverIncoming cd io e s)) = pendingOutgoing s"
  "pendingOutgoing (snd (DrainInbox cd io s)) = pendingOutgoing s"
  "pendingOutgoing (snd (PeekInbox cd io s)) = pendingOutgoing s"
  "pendingOutgoing (snd (dropTaskEntries cd io tid s)) = pendingOutgoing s"
  "pendingOutgoing (snd (evictExpiredReplies cd io now s)) = pendingOutgoing s"
  "pendingOutgoing (LoadInbox cd io s) = pendingOutgoing s"
  "fired (snd (DrainInbox cd io s)) = fired s"
  "fired (snd (PeekInbox cd io s)) = fired s"
  "fired (snd (dropTaskEntries cd io tid s)) = fired s"
  "fired (snd (evictExpiredReplies cd io now s)) = fired s"
  "fired (LoadInbox cd io s) = fired s"
  by (auto simp: deliverIncoming_def DrainInbox_def PeekInbox_def dropTaskEntries_def
      evictExpiredReplies_def LoadInbox_def appendInboxLocked_def Let_def split: option.split)

lemma deliver_announces:
  "filter (announces tid) (fired (snd (deliverIncoming cd io e s))) = filter (announces tid) (fired s)"
  by (auto simp: deliverIncoming_def appendInboxLocked_def Let_def announces_def)

lemma land_announces:
  "length (filter (announces tid) (fired (land cd io now f s))) \<le>
   length (filter (announces tid) (fired s)) + (if p_taskId (f_task f) = tid then 1 else 0)"
  by (auto simp: land_def appendSyntheticReply_def appendInboxLocked_def Let_def announces_def)

lemma world_ok_inbox: "world_ok w \<Longrightarrow> inbox_ok (inbox (w_store w))"
  by (simp add: world_ok_def)

lemma world_okI:
  assumes "world_ok w" "inbox_ok (inbox (w_store w'))"
    and "\<And>tid p. pendingOutgoing (w_store w') tid = Some p \<Longrightarrow> p_taskId p = tid"
    and "\<And>tid. announced tid w' + in_flight tid w' + still_pending tid w' + count_list (w_tracked w) tid \<le>
      announced tid w + in_flight tid w + still_pending tid w + count_list (w_tracked w') tid"
  shows "world_ok w'"
  unfolding world_ok_def
proof (intro conjI allI impI)
  fix tid
  have "announced tid w + in_flight tid w + still_pending tid w \<le> count_list (w_tracked w) tid"
    using assms(1) by (simp add: world_ok_def)
  with assms(4) [of tid]
  show "announced tid w' + in_flight tid w' + still_pending tid w' \<le> count_list (w_tracked w') tid"
    by linarith
qed (use assms(2,3) in auto)

lemma world_ok_quiet:
  assumes "world_ok w" "inbox_ok (inbox s)" "pendingOutgoing s = pendingOutgoing (w_store w)"
    and "\<And>tid. filter (announces tid) (fired s) = filter (announces tid) (fired (w_store w))"
  shows "world_ok (w\<lparr>w_store := s\<rparr>)"
  by (rule world_okI [OF assms(1)]) (use assms in \<open>auto simp: world_ok_def tally_defs\<close>)

lemma take_ok:
  assumes "world_ok w" "takePending (p_taskId p) (w_store w) = Some (q, s)"
  shows "world_ok (w\<lparr>w_store := s, w_flight := w_flight w @ [\<lparr>f_task = p, f_reply = r, f_state = st\<rparr>]\<rparr>)"
  by (rule world_okI [OF assms(1)])
     (use assms in \<open>auto simp: world_ok_def tally_defs takePending_frame split: if_splits\<close>)

lemma land_ok:
  assumes "world_ok w" "w_flight w = fs @ f # gs"
  shows "world_ok (w\<lparr>w_store := land cd io now f (w_store w), w_flight := fs @ gs\<rparr>)"
proof (rule world_okI [OF assms(1)])
  have "inbox_ok (inbox (w_store w))" using assms(1) by (simp add: world_ok_def)
  then show "inbox_ok (inbox (w_store (w\<lparr>w_store := land cd io now f (w_store w), w_flight := fs @ gs\<rparr>)))"
    by (simp add: land_def appendSyntheticReply_ok)
  show "p_taskId p = tid"
    if "pendingOutgoing (w_store (w\<lparr>w_store := land cd io now f (w_store w), w_flight := fs @ gs\<rparr>)) tid = Some p"
    for tid p
    using that assms(1) by (simp add: land_def world_ok_def)
  show "announced tid (w\<lparr>w_store := land cd io now f (w_store w), w_flight := fs @ gs\<rparr>) +
      in_flight tid (w\<lparr>w_store := land cd io now f (w_store w), w_flight := fs @ gs\<rparr>) +
      still_pending tid (w\<lparr>w_store := land cd io now f (w_store w), w_flight := fs @ gs\<rparr>) +
      count_list (w_tracked w) tid
    \<le> announced tid w + in_flight tid w + still_pending tid w +
      count_list (w_tracked (w\<lparr>w_store := land cd io now f (w_store w), w_flight := fs @ gs\<rparr>)) tid" for tid
    using land_announces [of tid cd io now f "w_store w"] assms(2)
    by (simp add: tally_defs land_def split: if_splits)
qed

lemma store_step_ok:
  assumes "store_step k cd w w'" "world_ok w"
  shows "world_ok w'"
  using assms
proof cases
  case (step_track tid url name q now)
  show ?thesis unfolding step_track(1)
    by (rule world_okI [OF assms(2)])
       (use assms(2) in \<open>auto simp: world_ok_def tally_defs TrackOutgoing_def split: if_splits\<close>)
next
  case (step_ingest t)
  then obtain p s where *: "takePending (t_id t) (w_store w) = Some (p, s)"
    and w': "w' = w\<lparr>w_store := s, w_flight := w_flight w @
        [\<lparr>f_task = p, f_reply = extractReplyText k t, f_state = st_state (t_status t)\<rparr>]\<rparr>"
    by (auto simp: ingest_take_def split: if_splits option.splits)
  then have "p_taskId p = t_id t"
    using assms(2) by (auto simp: takePending_frame world_ok_def)
  with take_ok [OF assms(2), of p] * w' show ?thesis by simp
next
  case (step_poll p t)
  then show ?thesis
    using take_ok [OF assms(2), of p] by (auto simp: poll_take_def split: if_splits option.splits)
next
  case (step_expire p)
  show ?thesis unfolding step_expire
    by (rule world_okI [OF assms(2)])
       (use assms(2) in \<open>auto simp: poll_expire_def world_ok_def tally_defs split: if_splits\<close>)
next
  case (step_land fs f gs io now)
  then show ?thesis using land_ok [OF assms(2)] by simp
qed (use assms(2) in \<open>auto intro!: world_ok_quiet ops_keep_ok world_ok_inbox
    simp: quiet_ops deliver_announces\<close>)

lemma steps_ok: "steps k cd w w' \<Longrightarrow> world_ok w \<Longrightarrow> world_ok w'"
  by (induction rule: rtranclp_induct) (auto intro: store_step_ok)

section \<open>The whole operations are sequences of steps\<close>

definition reaches :: "sdk \<Rightarrow> snapshot_codec \<Rightarrow> world \<Rightarrow> store \<Rightarrow> bool" where
  "reaches k cd w s = (\<exists>F T. steps k cd w (w\<lparr>w_store := s, w_flight := F, w_tracked := T\<rparr>))"

text \<open>A fetcher during whose network call other goroutines take any number of steps.\<close>

definition fetch_interleaves :: "sdk \<Rightarrow> snapshot_codec \<Rightarrow> fetcher \<Rightarrow> bool" where
  "fetch_interleaves k cd fetch = (\<forall>u t w. reaches k cd w (snd (fetch u t (w_store w))))"

lemma world_updates:
  "w\<lparr>w_flight := F, w_tracked := T, w_store := s\<rparr> = w\<lparr>w_store := s, w_flight := F, w_tracked := T\<rparr>"
  by (cases w) simp

lemma reaches_refl: "reaches k cd w (w_store w)"
  unfolding reaches_def by (rule exI [of _ "w_flight w"], rule exI [of _ "w_tracked w"]) simp

lemma reaches_trans:
  assumes "reaches k cd w s" "\<And>F T. reaches k cd (w\<lparr>w_store := s, w_flight := F, w_tracked := T\<rparr>) s'"
  shows "reaches k cd w s'"
proof -
  obtain F T where 1: "steps k cd w (w\<lparr>w_store := s, w_flight := F, w_tracked := T\<rparr>)"
    using assms(1) by (auto simp: reaches_def)
  obtain F' T' where "steps k cd (w\<lparr>w_store := s, w_flight := F, w_tracked := T\<rparr>)
      (w\<lparr>w_store := s', w_flight := F', w_tracked := T'\<rparr>)"
    using assms(2) [where F = F and T = T] by (auto simp: reaches_def)
  with 1 show ?thesis unfolding reaches_def by (blast intro: rtranclp_trans)
qed

lemma take_then_land:
  assumes "store_step k cd w
      (w\<lparr>w_store := s, w_flight := w_flight w @ [\<lparr>f_task = p, f_reply = r, f_state = st\<rparr>]\<rparr>)"
  shows "steps k cd w (w\<lparr>w_store := appendSyntheticReply cd io now p r st s\<rparr>)"
proof -
  let ?f = "\<lparr>f_task = p, f_reply = r, f_state = st\<rparr>"
  let ?w = "w\<lparr>w_store := s, w_flight := w_flight w @ [?f]\<rparr>"
  have "store_step k cd ?w (?w\<lparr>w_store := land cd io now ?f (w_store ?w), w_flight := w_flight w @ []\<rparr>)"
    by (rule step_land) simp
  then have "store_step k cd ?w (w\<lparr>w_store := appendSyntheticReply cd io now p r st s\<rparr>)"
    by (simp add: land_def)
  with assms show ?thesis by (meson r_into_rtranclp rtranclp.rtrancl_into_rtrancl)
qed

lemma ingest_steps:
  "steps k cd w (w\<lparr>w_store := snd (IngestOutgoingTerminal k cd io now mt (w_store w))\<rparr>)"
proof (cases "\<exists>t p s. mt = Some t \<and> task_terminal k t \<and> takePending (t_id t) (w_store w) = Some (p, s)")
  case True
  then obtain t p s where t: "mt = Some t" "task_terminal k t" "takePending (t_id t) (w_store w) = Some (p, s)"
    by blast
  have "store_step k cd w (w\<lparr>w_store := s, w_flight := w_flight w @
      [\<lparr>f_task = p, f_reply = extractReplyText k t, f_state = st_state (t_status t)\<rparr>]\<rparr>)"
    using t by (intro step_ingest [of k t]) (simp add: ingest_take_def)
  from take_then_land [OF this, of io now] t show ?thesis by (simp add: IngestOutgoingTerminal_def)
next
  case False
  then have "snd (IngestOutgoingTerminal k cd io now mt (w_store w)) = w_store w"
    by (auto simp: IngestOutgoingTerminal_def split: option.split)
  then show ?thesis by simp
qed

lemma poll_one_reaches:
  assumes "fetch_interleaves k cd fetch"
  shows "reaches k cd w (snd (poll_one k cd io clock fetch maxAge p (w_store w)))"
proof (cases "maxAge < unix_nano (clock (p_taskId p)) - unix_nano (p_sentAt p)")
  case True
  have "steps k cd w (poll_expire p w)" by (intro r_into_rtranclp step_expire)
  then show ?thesis
    using True unfolding reaches_def poll_one_def poll_expire_def
    by (intro exI [of _ "w_flight w"] exI [of _ "w_tracked w"]) simp
next
  case False
  obtain res s where f: "fetch (p_peerURL p) (p_taskId p) (w_store w) = (res, s)" by fastforce
  then have fs: "reaches k cd w s"
    using assms unfolding fetch_interleaves_def by (metis snd_conv)
  consider t q s' where "res = Some (Some t)" "task_terminal k t" "takePending (p_taskId p) s = Some (q, s')"
    | "snd (poll_one k cd io clock fetch maxAge p (w_store w)) = s"
  proof (cases "\<exists>t q s'. res = Some (Some t) \<and> task_terminal k t \<and> takePending (p_taskId p) s = Some (q, s')")
    case no: False
    have "snd (poll_one k cd io clock fetch maxAge p (w_store w)) = s"
      using no False f by (auto simp: poll_one_def split: option.split)
    then show ?thesis by (rule that(2))
  qed (use that(1) in blast)
  then show ?thesis
  proof cases
    case 1
    have "reaches k cd (w\<lparr>w_store := s, w_flight := F, w_tracked := T\<rparr>)
        (appendSyntheticReply cd io (clock (p_taskId p)) p (extractReplyText k t) (st_state (t_status t)) s')"
      (is "reaches k cd ?w _") for F T
    proof -
      have "store_step k cd ?w (?w\<lparr>w_store := s', w_flight := w_flight ?w @
          [\<lparr>f_task = p, f_reply = extractReplyText k t, f_state = st_state (t_status t)\<rparr>]\<rparr>)"
        using 1 by (intro step_poll [of k p t]) (simp add: poll_take_def)
      from take_then_land [OF this, of io "clock (p_taskId p)"] show ?thesis
        unfolding reaches_def by (intro exI [of _ F] exI [of _ T]) (simp add: world_updates)
    qed
    from reaches_trans [OF fs this] show ?thesis
      using False f 1 by (simp add: poll_one_def)
  qed (use fs in simp)
qed

lemma poll_list_reaches:
  assumes "fetch_interleaves k cd fetch"
  shows "reaches k cd w (snd (poll_list k cd io clock fetch maxAge ps (w_store w)))"
proof (induction ps arbitrary: w)
  case (Cons p ps)
  let ?s = "snd (poll_one k cd io clock fetch maxAge p (w_store w))"
  have "reaches k cd (w\<lparr>w_store := ?s, w_flight := F, w_tracked := T\<rparr>)
      (snd (poll_list k cd io clock fetch maxAge ps ?s))" for F T
    using Cons.IH [of "w\<lparr>w_store := ?s, w_flight := F, w_tracked := T\<rparr>"] by simp
  from reaches_trans [OF poll_one_reaches [OF assms] this] show ?case
    by (simp add: case_prod_beta)
qed (simp add: reaches_refl)

section \<open>Properties\<close>

text \<open>
  C1. Whatever interleaving of critical sections leads to a state, the inbox there holds at
  most \<open>inboxSoftCap\<close> entries and no two entries with the same non-empty message ID.
\<close>

theorem reachable_inbox_bounded_distinct:
  assumes "steps k cd (world0 path cb d) w"
  shows "length (inbox (w_store w)) \<le> inboxSoftCap \<and>
    distinct (filter (\<lambda>i. i \<noteq> '''') (map e_messageId (inbox (w_store w))))"
  using steps_ok [OF assms world0_ok] by (simp_all add: world_ok_def inbox_ok_def ids_def)

lemma hello_steps:
  "steps sdk0 snapshot_json (world0 '''' False Map.empty)
     ((world0 '''' False Map.empty)\<lparr>w_store :=
        snd (deliverIncoming snapshot_json io0 hello (w_store (world0 '''' False Map.empty)))\<rparr>)"
  by (intro r_into_rtranclp step_deliver)

theorem reachable_inbox_bounded_distinct_witness:
  "inbox (snd (deliverIncoming snapshot_json io0 hello (w_store (world0 '''' False Map.empty)))) = [hello] \<and>
   length [hello] \<le> inboxSoftCap"
  using reachable_inbox_bounded_distinct [OF hello_steps]
  by (simp add: world0_def NewStore_def deliverIncoming_def appendInboxLocked_def inboxContainsLocked_def
      Let_def inboxSoftCap_def)

text \<open>
  C12. Every call of \<open>TrackOutgoing\<close> for a task is accounted for at most once: the
  announcements of its reply (the \<open>on-outgoing-reply\<close> hook), the replies on their way to the
  inbox and the task while it is pending are together no more than those calls, in every
  interleaving of the subscription, the polling loop, expiry and the rest.
\<close>

theorem reply_announced_at_most_once:
  assumes "steps k cd (world0 path cb d) w"
  shows "announced tid w + in_flight tid w + still_pending tid w \<le> count_list (w_tracked w) tid"
  using steps_ok [OF assms world0_ok] by (simp add: world_ok_def)

definition tracked_world :: world where
  "tracked_world =
     (let w = world0 '''' False Map.empty
      in w\<lparr>w_store := TrackOutgoing ''t7'' ''http://p'' ''bob'' ''ok?'' \<lparr>unix_nano = 0, zone_off = 0\<rparr> (w_store w),
           w_tracked := ''t7'' # w_tracked w\<rparr>)"

lemma tracked_steps: "steps sdk0 snapshot_json (world0 '''' False Map.empty) tracked_world"
  unfolding tracked_world_def Let_def by (intro r_into_rtranclp step_track)

theorem reply_announced_at_most_once_witness:
  "announced ''t7'' (tracked_world\<lparr>w_store :=
      snd (IngestOutgoingTerminal sdk0 snapshot_json io0 \<lparr>unix_nano = 0, zone_off = 0\<rparr> (Some done_task)
        (w_store tracked_world))\<rparr>) = 1"
proof -
  let ?w = "tracked_world\<lparr>w_store :=
      snd (IngestOutgoingTerminal sdk0 snapshot_json io0 \<lparr>unix_nano = 0, zone_off = 0\<rparr> (Some done_task)
        (w_store tracked_world))\<rparr>"
  have "announced ''t7'' ?w \<le> 1"
    using reply_announced_at_most_once [OF rtranclp_trans [OF tracked_steps ingest_steps
          [where io = io0 and now = "\<lparr>unix_nano = 0, zone_off = 0\<rparr>" and mt = "Some done_task"]],
        of "''t7''"]
    by (simp add: tracked_world_def world0_def)
  moreover have "trim_space ''yes'' \<noteq> ''''" by code_simp
  then have "announced ''t7'' ?w \<noteq> 0"
    by (simp add: tracked_world_def done_task_def eval_ops world0_def announced_def announces_def)
  ultimately show ?thesis by linarith
qed


definition fetch_done :: fetcher where
  "fetch_done url tid s = (Some (Some done_task), s)"


end
