(* ===== verification/Durable_Inbox.thy ===== *)
theory Durable_Inbox
  imports Store_Steps
begin

text \<open>
  The inbox of internal/agent/store.go together with its snapshot file, over whole histories:
  any order of the store's operations, of the prompt hook emptying the file
  (internal/assets/hook/a2a-inbox-hook.sh) and of restarts of the bridge, each with its own
  disk outcomes.

  The specification is a mailbox of two lists: what the process holds and what a new process
  would read.  It has no files, no encoding and no temporary file.  Shown: the store implements
  it step by step, and, when every write succeeds and nobody else empties the file, a restart at
  any point of a history gives the inbox back.
\<close>

section \<open>Histories of the store\<close>

datatype inbox_op =
    Op_deliver inbox_entry
  | Op_land gotime pending_task string string
  | Op_drain
  | Op_peek
  | Op_drop string
  | Op_evict gotime
  | Op_truncate
  | Op_restart

text \<open>The last line of the hook script, on the file the bridge wrote.\<close>

definition hook_truncates :: "store \<Rightarrow> store" where
  "hook_truncates s =
     (if disk s (inboxPath s) = None then s else s\<lparr>disk := (disk s)(inboxPath s \<mapsto> '''')\<rparr>)"

text \<open>
  A new process on the same state directory: \<open>NewStore\<close>, \<open>InboxPath\<close>, \<open>LoadInbox\<close>.  The
  outgoing tasks the old process waited for are in memory only.
\<close>

definition restart :: "snapshot_codec \<Rightarrow> disk_io \<Rightarrow> store \<Rightarrow> store" where
  "restart cd io s =
     LoadInbox cd io (NewStore\<lparr>inboxPath := inboxPath s, onIncoming := onIncoming s, disk := disk s\<rparr>)"

fun inbox_run :: "snapshot_codec \<Rightarrow> inbox_op \<times> disk_io \<Rightarrow> store \<Rightarrow> store" where
  "inbox_run cd (Op_deliver e, io) s = snd (deliverIncoming cd io e s)"
| "inbox_run cd (Op_land now p r st, io) s = appendSyntheticReply cd io now p r st s"
| "inbox_run cd (Op_drain, io) s = snd (DrainInbox cd io s)"
| "inbox_run cd (Op_peek, io) s = snd (PeekInbox cd io s)"
| "inbox_run cd (Op_drop tid, io) s = snd (dropTaskEntries cd io tid s)"
| "inbox_run cd (Op_evict now, io) s = snd (evictExpiredReplies cd io now s)"
| "inbox_run cd (Op_truncate, io) s = hook_truncates s"
| "inbox_run cd (Op_restart, io) s = restart cd io s"

abbreviation inbox_history :: "snapshot_codec \<Rightarrow> (inbox_op \<times> disk_io) list \<Rightarrow> store \<Rightarrow> store" where
  "inbox_history cd \<equiv> fold (inbox_run cd)"

text \<open>The janitor: one eviction per tick of its timer until \<open>Close\<close>.\<close>

fun janitor :: "snapshot_codec \<Rightarrow> (gotime \<times> disk_io) list \<Rightarrow> store \<Rightarrow> store" where
  "janitor cd [] s = s"
| "janitor cd ((now, io) # ticks) s = janitor cd ticks (snd (evictExpiredReplies cd io now s))"

lemma janitor_history: "janitor cd ticks s = inbox_history cd (map (\<lambda>(now, io). (Op_evict now, io)) ticks) s"
  by (induction ticks arbitrary: s) auto

section \<open>The specification: a mailbox\<close>

record mailbox =
  mem :: "inbox_entry list"
  saved :: "inbox_entry list"

definition box_has :: "inbox_entry \<Rightarrow> inbox_entry list \<Rightarrow> bool" where
  "box_has e es = (e_messageId e \<noteq> '''' \<and> e_messageId e \<in> e_messageId ` set es)"

definition box_add :: "inbox_entry \<Rightarrow> inbox_entry list \<Rightarrow> inbox_entry list" where
  "box_add e es = (if box_has e es then es else drop (Suc (length es) - inboxSoftCap) (es @ [e]))"

text \<open>What the operation does to the list in memory, and whether it saves.\<close>

fun box_mem :: "inbox_op \<Rightarrow> inbox_entry list \<Rightarrow> inbox_entry list" where
  "box_mem (Op_deliver e) es = box_add e es"
| "box_mem (Op_land now p r st) es =
     (if trim_space r = '''' then es else box_add (synthetic_reply p r st now) es)"
| "box_mem Op_drain es = []"
| "box_mem Op_peek es = filter (\<lambda>e. \<not> has_reply_id e) es"
| "box_mem (Op_drop tid) es = filter (\<lambda>e. e_taskId e \<noteq> tid) es"
| "box_mem (Op_evict now) es = filter (\<lambda>e. \<not> reply_expired (time_add now (- replyEntryTTL)) e) es"
| "box_mem Op_truncate es = es"
| "box_mem Op_restart es = es"

fun box_saves :: "inbox_op \<Rightarrow> inbox_entry list \<Rightarrow> bool" where
  "box_saves (Op_deliver e) es = (\<not> box_has e es)"
| "box_saves (Op_land now p r st) es = (trim_space r \<noteq> '''' \<and> \<not> box_has (synthetic_reply p r st now) es)"
| "box_saves Op_drain es = True"
| "box_saves Op_truncate es = False"
| "box_saves Op_restart es = False"
| "box_saves p es = (box_mem p es \<noteq> es)"

text \<open>An entry after a round through the file: repaired UTF-8, without kind and state.\<close>

definition reread :: "inbox_entry \<Rightarrow> inbox_entry" where
  "reread e = of_snapshot (repair_entry (to_snapshot e))"

definition box_run :: "inbox_op \<times> disk_io \<Rightarrow> mailbox \<Rightarrow> mailbox" where
  "box_run p m =
     (case p of
        (Op_truncate, _) \<Rightarrow> m\<lparr>saved := []\<rparr>
      | (Op_restart, io) \<Rightarrow> m\<lparr>mem := if disk_io.read_ok io then fold box_add (saved m) [] else []\<rparr>
      | (q, io) \<Rightarrow>
          (let es = box_mem q (mem m)
           in m\<lparr>mem := es,
                saved := if box_saves q (mem m) \<and> write_tmp io = Write_ok \<and> rename_ok io
                         then map reread es else saved m\<rparr>))"

text \<open>The mailbox a store stands for.\<close>

definition snapshot_entries :: "snapshot_codec \<Rightarrow> store \<Rightarrow> inbox_entry list" where
  "snapshot_entries cd s =
     (case disk s (inboxPath s) of
        None \<Rightarrow> []
      | Some b \<Rightarrow> if b = '''' then []
                  else (case dec_snapshot cd b of None \<Rightarrow> [] | Some ns \<Rightarrow> map of_snapshot ns))"

definition mailbox_of :: "store \<Rightarrow> mailbox" where
  "mailbox_of s = \<lparr>mem = inbox s, saved = snapshot_entries snapshot_json s\<rparr>"

section \<open>The store implements the mailbox\<close>

lemma box_add_inbox: "inbox (snd (appendInboxLocked e s)) = box_add e (inbox s)"
  by (cases "inboxContainsLocked (e_messageId e) s")
     (simp_all add: append_dup append_new box_add_def box_has_def inboxContains_iff [symmetric])

lemma append_saves: "fst (appendInboxLocked e s) = (\<not> box_has e (inbox s))"
  by (simp add: append_fst box_has_def inboxContains_iff)

lemma appendAll_box: "inbox (appendAll es s) = fold box_add es (inbox s)"
  by (induction es arbitrary: s) (simp_all add: box_add_inbox)

lemma filter_neq_iff: "filter (\<lambda>e. \<not> P e) es \<noteq> es \<longleftrightarrow> list_ex P es"
  by (auto simp: list_ex_iff filter_id_conv)

lemma filter_idle: "\<not> list_ex P es \<Longrightarrow> filter (\<lambda>e. \<not> P e) es = es"
  using filter_neq_iff [of P es] by blast

lemma entries_persist:
  assumes "inboxPath s \<noteq> ''''"
  shows "snapshot_entries snapshot_json (persistInboxLocked snapshot_json io s) =
    (if write_tmp io = Write_ok \<and> rename_ok io then map reread (inbox s) else snapshot_entries snapshot_json s)"
proof (cases "write_tmp io = Write_ok \<and> rename_ok io")
  case True
  then show ?thesis
    using snap.persist_writes [OF assms, of io] by (auto simp: snapshot_entries_def reread_def)
next
  case False
  then have "disk (persistInboxLocked snapshot_json io s) (inboxPath s) = disk s (inboxPath s)"
    by (auto simp: persistInboxLocked_def Let_def split: option.split write_outcome.split)
  with False show ?thesis by (auto simp: snapshot_entries_def)
qed

lemma entries_cong:
  "disk s = disk s' \<Longrightarrow> inboxPath s = inboxPath s' \<Longrightarrow> snapshot_entries cd s = snapshot_entries cd s'"
  by (simp add: snapshot_entries_def)

lemma mailbox_of_cong:
  "inbox s = inbox s' \<Longrightarrow> disk s = disk s' \<Longrightarrow> inboxPath s = inboxPath s' \<Longrightarrow> mailbox_of s = mailbox_of s'"
  by (simp add: mailbox_of_def snapshot_entries_def)

lemma mailbox_persist:
  assumes "inboxPath s \<noteq> ''''"
  shows "mailbox_of (persistInboxLocked snapshot_json io (s\<lparr>inbox := es\<rparr>)) =
    \<lparr>mem = es, saved = if write_tmp io = Write_ok \<and> rename_ok io then map reread es
                       else saved (mailbox_of s)\<rparr>"
  using entries_persist [of "s\<lparr>inbox := es\<rparr>" io] assms
  by (simp add: mailbox_of_def snapshot_entries_def)

lemma mailbox_restart:
  assumes "inboxPath s \<noteq> ''''"
  shows "mailbox_of (restart snapshot_json io s) =
    (mailbox_of s)\<lparr>mem := if disk_io.read_ok io then fold box_add (saved (mailbox_of s)) [] else []\<rparr>"
  using assms
  by (auto simp: mailbox_of_def restart_def LoadInbox_def snapshot_entries_def appendAll_box NewStore_def
      Let_def split: option.split)

lemma mailbox_truncate: "mailbox_of (hook_truncates s) = (mailbox_of s)\<lparr>saved := []\<rparr>"
  by (auto simp: mailbox_of_def hook_truncates_def snapshot_entries_def)

lemma mailbox_append:
  assumes "inboxPath s \<noteq> ''''" "appendInboxLocked e s = (True, s')"
  shows "mailbox_of (persistInboxLocked snapshot_json io s') =
    \<lparr>mem = box_add e (inbox s), saved = if write_tmp io = Write_ok \<and> rename_ok io
       then map reread (box_add e (inbox s)) else saved (mailbox_of s)\<rparr>"
proof -
  have "s' = s\<lparr>inbox := box_add e (inbox s)\<rparr>"
    using assms(2) append_saves [of e s] append_new [of e s]
    by (simp add: box_add_def box_has_def inboxContains_iff [symmetric] del: drop_append)
  then show ?thesis using mailbox_persist [OF assms(1)] by simp
qed

lemma mailbox_deliver:
  assumes "inboxPath s \<noteq> ''''"
  shows "mailbox_of (snd (deliverIncoming snapshot_json io e s)) = box_run (Op_deliver e, io) (mailbox_of s)"
proof (cases "appendInboxLocked e s")
  case (Pair b s')
  show ?thesis
  proof (cases b)
    case True
    have "mailbox_of (snd (deliverIncoming snapshot_json io e s)) =
        mailbox_of (persistInboxLocked snapshot_json io s')"
      using Pair True by (intro mailbox_of_cong) (simp_all add: deliverIncoming_def Let_def)
    then show ?thesis
      using mailbox_append [OF assms] append_saves [of e s] Pair True
      by (simp add: box_run_def mailbox_of_def Let_def)
  next
    case False
    then show ?thesis
      using Pair append_saves [of e s] append_dup [of e s] append_fst [of e s]
      by (simp add: deliverIncoming_def box_run_def box_add_def mailbox_of_def Let_def)
  qed
qed

lemma mailbox_land:
  assumes "inboxPath s \<noteq> ''''"
  shows "mailbox_of (appendSyntheticReply snapshot_json io now p r st s) =
    box_run (Op_land now p r st, io) (mailbox_of s)"
proof (cases "appendInboxLocked (synthetic_reply p r st now) s")
  case (Pair b s')
  show ?thesis
  proof (cases "b \<and> trim_space r \<noteq> ''''")
    case True
    have "mailbox_of (appendSyntheticReply snapshot_json io now p r st s) =
        mailbox_of (persistInboxLocked snapshot_json io s')"
      using Pair True by (intro mailbox_of_cong) (simp_all add: appendSyntheticReply_def Let_def)
    then show ?thesis
      using mailbox_append [OF assms] append_saves [of "synthetic_reply p r st now" s] Pair True
      by (simp add: box_run_def mailbox_of_def Let_def)
  next
    case False
    then show ?thesis
      using Pair append_saves [of "synthetic_reply p r st now" s] append_dup [of "synthetic_reply p r st now" s]
        append_fst [of "synthetic_reply p r st now" s]
      by (auto simp: appendSyntheticReply_def box_run_def box_add_def mailbox_of_def Let_def)
  qed
qed

lemma evict_saves:
  "evictExpiredReplies cd io now s =
    (let es = box_mem (Op_evict now) (inbox s)
     in (length (inbox s) - length es, if es \<noteq> inbox s then persistInboxLocked cd io (s\<lparr>inbox := es\<rparr>) else s))"
proof -
  have "0 < length (inbox s) - length (filter P (inbox s)) \<longleftrightarrow> filter P (inbox s) \<noteq> inbox s" for P
    using length_filter_less [of _ "inbox s" P] by (auto simp: filter_id_conv) (metis filter_True less_irrefl)
  then show ?thesis by (simp add: evictExpiredReplies_def Let_def)
qed

lemma mailbox_filters:
  assumes "inboxPath s \<noteq> ''''"
  shows "mailbox_of (snd (PeekInbox snapshot_json io s)) = box_run (Op_peek, io) (mailbox_of s)"
    and "mailbox_of (snd (dropTaskEntries snapshot_json io tid s)) = box_run (Op_drop tid, io) (mailbox_of s)"
    and "mailbox_of (snd (evictExpiredReplies snapshot_json io now s)) = box_run (Op_evict now, io) (mailbox_of s)"
    and "mailbox_of (snd (DrainInbox snapshot_json io s)) = box_run (Op_drain, io) (mailbox_of s)"
  using filter_neq_iff [of has_reply_id "inbox s"] filter_neq_iff [of "\<lambda>e. e_taskId e = tid" "inbox s"]
    filter_idle [of has_reply_id "inbox s"] filter_idle [of "\<lambda>e. e_taskId e = tid" "inbox s"]
    mailbox_persist [OF assms, of io]
  by (simp_all add: PeekInbox_def dropTaskEntries_def evict_saves DrainInbox_def box_run_def Let_def mailbox_of_def)

lemma mailbox_run:
  "inboxPath s \<noteq> '''' \<Longrightarrow> mailbox_of (inbox_run snapshot_json p s) = box_run p (mailbox_of s)"
  by (cases p; cases "fst p")
     (auto simp: mailbox_deliver mailbox_land mailbox_filters mailbox_truncate mailbox_restart box_run_def)

lemma run_path: "inboxPath (inbox_run cd p s) = inboxPath s"
  by (cases p; cases "fst p")
     (auto simp: deliverIncoming_def DrainInbox_def PeekInbox_def dropTaskEntries_def evictExpiredReplies_def
       hook_truncates_def restart_def LoadInbox_def NewStore_def Let_def split: option.split prod.split bool.split
       dest: arg_cong [where f = "\<lambda>p. inboxPath (snd p)"])


section \<open>Nothing is lost\<close>

text \<open>
  A history in which every write and every read of the snapshot succeeds, nobody else empties
  the file, and every text that arrives is valid UTF-8.
\<close>

fun op_clean :: "inbox_op \<times> disk_io \<Rightarrow> bool" where
  "op_clean (p, io) =
     (write_tmp io = Write_ok \<and> rename_ok io \<and> disk_io.read_ok io \<and>
      (case p of Op_deliver e \<Rightarrow> entry_valid e
       | Op_land now q r st \<Rightarrow> entry_valid (synthetic_reply q r st now)
       | Op_truncate \<Rightarrow> False
       | _ \<Rightarrow> True))"

definition box_ok :: "mailbox \<Rightarrow> bool" where
  "box_ok m = (inbox_ok (mem m) \<and> list_all entry_valid (mem m) \<and> saved m = map forget_kind (mem m))"

lemma reread_valid: "list_all entry_valid es \<Longrightarrow> map reread es = map forget_kind es"
  by (simp add: reread_def of_snapshot_repair list_all_iff)

lemma forget_kind_idem [simp]: "forget_kind (forget_kind e) = forget_kind e"
  by (simp add: forget_kind_def)

lemma entry_valid_forget [simp]: "entry_valid (forget_kind e) = entry_valid e"
  by (simp add: entry_valid_def forget_kind_def)

lemma inbox_ok_forget [simp]: "inbox_ok (map forget_kind es) = inbox_ok es"
  by (simp add: inbox_ok_def)

lemma box_add_ok: "inbox_ok es \<Longrightarrow> inbox_ok (box_add e es)"
  using append_ok [of "NewStore\<lparr>inbox := es\<rparr>" e] box_add_inbox [of e "NewStore\<lparr>inbox := es\<rparr>"] by simp

lemma box_add_valid: "list_all entry_valid es \<Longrightarrow> entry_valid e \<Longrightarrow> list_all entry_valid (box_add e es)"
  by (auto simp: box_add_def list_all_iff dest: in_set_dropD)

lemma fold_box_add: "inbox_ok es \<Longrightarrow> fold box_add es [] = es"
  using appendAll_box [of es NewStore] appendAll_fresh [of NewStore es] by (simp add: NewStore_def)

lemma box_mem_ok: "inbox_ok es \<Longrightarrow> inbox_ok (box_mem p es)"
  by (cases p) (simp_all add: box_add_ok inbox_ok_filter)

lemma box_mem_valid:
  "list_all entry_valid es \<Longrightarrow> op_clean (p, io) \<Longrightarrow> list_all entry_valid (box_mem p es)"
  by (cases p; simp add: box_add_valid) (auto simp: list_all_iff)

lemma box_unsaved: "\<not> box_saves p es \<Longrightarrow> box_mem p es = es"
  by (cases p) (auto simp: box_add_def)

lemma box_run_ok: "op_clean p \<Longrightarrow> box_ok m \<Longrightarrow> box_ok (box_run p m)"
proof (cases p)
  case (Pair q io)
  assume clean: "op_clean p" and ok: "box_ok m"
  show ?thesis
  proof (cases "q = Op_restart")
    case True
    with Pair clean ok show ?thesis by (simp add: box_run_def box_ok_def fold_box_add list_all_iff)
  next
    case False
    let ?es = "box_mem q (mem m)"
    have "box_run p m = m\<lparr>mem := ?es, saved := if box_saves q (mem m) then map reread ?es else saved m\<rparr>"
      using Pair clean False by (cases q) (simp_all add: box_run_def Let_def)
    moreover have "inbox_ok ?es" "list_all entry_valid ?es"
      using ok clean Pair box_mem_valid [of "mem m" q io] by (simp_all add: box_ok_def box_mem_ok del: op_clean.simps)
    ultimately show ?thesis
      using ok box_unsaved [of q "mem m"] by (simp add: box_ok_def reread_valid)
  qed
qed

lemma box_history_ok: "list_all op_clean ps \<Longrightarrow> box_ok m \<Longrightarrow> box_ok (fold box_run ps m)"
  by (induction ps arbitrary: m) (simp_all add: box_run_ok)

definition fresh_store :: "string \<Rightarrow> bool \<Rightarrow> store" where
  "fresh_store path cb = NewStore\<lparr>inboxPath := path, onIncoming := cb\<rparr>"

lemma mailbox_history:
  "inboxPath s \<noteq> '''' \<Longrightarrow>
   mailbox_of (inbox_history snapshot_json ps s) = fold box_run ps (mailbox_of s) \<and>
   inboxPath (inbox_history snapshot_json ps s) = inboxPath s"
  by (induction ps arbitrary: s) (simp_all add: mailbox_run run_path)

section \<open>Properties\<close>

text \<open>
  C2. The store with its snapshot file implements the mailbox.  For every history of deliveries,
  landing replies, drains, peeks, drops, evictions, truncations by the prompt hook and restarts,
  whatever writes and renames fail on the way and whatever the file held at the start: the inbox
  in memory and the entries a new process would read are those of the mailbox after the same
  history.
\<close>

theorem store_refines_mailbox:
  assumes "inboxPath s \<noteq> ''''"
  shows "mailbox_of (inbox_history snapshot_json ps s) = fold box_run ps (mailbox_of s)"
  using mailbox_history [OF assms] by simp

definition full_disk :: disk_io where
  "full_disk = io0\<lparr>write_tmp := Write_fail None\<rparr>"

theorem store_refines_mailbox_witness:
  "mailbox_of (inbox_history snapshot_json
       [(Op_deliver hello, io0), (Op_deliver (hello\<lparr>e_messageId := ''m2''\<rparr>), full_disk), (Op_restart, io0)]
       (fresh_store ''inbox.json'' False))
   = \<lparr>mem = [hello], saved = [hello]\<rparr>"
proof -
  have "entry_valid hello"
    by (simp add: entry_valid_def hello_def valid_utf8_ascii byte_of_def)
  then have "reread hello = hello"
    by (simp add: reread_def of_snapshot_repair forget_kind_def hello_def)
  then have *: "fold box_run
      [(Op_deliver hello, io0), (Op_deliver (hello\<lparr>e_messageId := ''m2''\<rparr>), full_disk), (Op_restart, io0)]
      \<lparr>mem = [], saved = []\<rparr> = \<lparr>mem = [hello], saved = [hello]\<rparr>"
    by (simp add: box_run_def Let_def box_add_def box_has_def full_disk_def io0_def inboxSoftCap_def hello_def)
  have "mailbox_of (fresh_store ''inbox.json'' False) = \<lparr>mem = [], saved = []\<rparr>"
    by (simp add: mailbox_of_def fresh_store_def NewStore_def snapshot_entries_def)
  with * store_refines_mailbox [of "fresh_store ''inbox.json'' False"
      "[(Op_deliver hello, io0), (Op_deliver (hello\<lparr>e_messageId := ''m2''\<rparr>), full_disk), (Op_restart, io0)]"]
  show ?thesis by (simp add: fresh_store_def)
qed

text \<open>
  C3. A bridge that starts with no snapshot may stop at any point of any history in which its
  writes succeed and the hook does not empty the file: the process started next has the whole
  inbox, in order, every field that the snapshot carries unchanged.
\<close>

theorem restart_loses_nothing:
  assumes "path \<noteq> ''''" "list_all op_clean ps" "disk_io.read_ok io"
  shows "inbox (restart snapshot_json io (inbox_history snapshot_json ps (fresh_store path cb))) =
    map forget_kind (inbox (inbox_history snapshot_json ps (fresh_store path cb)))"
proof -
  let ?s = "inbox_history snapshot_json ps (fresh_store path cb)"
  have fresh: "inboxPath (fresh_store path cb) \<noteq> ''''" "box_ok (mailbox_of (fresh_store path cb))"
    using assms(1) by (simp_all add: fresh_store_def mailbox_of_def NewStore_def snapshot_entries_def box_ok_def)
  then have "box_ok (mailbox_of ?s)" "inboxPath ?s \<noteq> ''''"
    using mailbox_history [OF fresh(1), of ps] box_history_ok [OF assms(2)] by simp_all
  then have "inbox_ok (inbox ?s)" "saved (mailbox_of ?s) = map forget_kind (inbox ?s)" "inboxPath ?s \<noteq> ''''"
    by (simp_all add: box_ok_def mailbox_of_def)
  then show ?thesis
    using mailbox_restart [of ?s io] assms(3) by (simp add: mailbox_of_def fold_box_add)
qed

theorem restart_loses_nothing_witness:
  "inbox (restart snapshot_json io0 (inbox_history snapshot_json
       [(Op_deliver hello, io0), (Op_peek, io0), (Op_restart, io0)] (fresh_store ''i'' True)))
   = map forget_kind (inbox (inbox_history snapshot_json
       [(Op_deliver hello, io0), (Op_peek, io0), (Op_restart, io0)] (fresh_store ''i'' True)))"
  by (rule restart_loses_nothing)
     (simp_all add: io0_def entry_valid_def hello_def valid_utf8_ascii byte_of_def)

end
