(* ===== verification/Go_Base64.thy ===== *)
theory Go_Base64
  imports Go_Utf8
begin

text \<open>
  Package encoding/base64, \<open>URLEncoding\<close>: padded, the decoder skips CR and LF and ignores
  the unused bits of a last group.  Decoding undoes encoding.
\<close>

definition b64_char :: "nat \<Rightarrow> char" where
  "b64_char v = (if v < 26 then char_of (65 + v) else if v < 52 then char_of (71 + v)
                 else if v < 62 then char_of (v - 4) else if v = 62 then CHR ''-'' else CHR ''_'')"

definition b64_val :: "char \<Rightarrow> nat option" where
  "b64_val c =
     (let b = byte_of c
      in if 65 \<le> b \<and> b \<le> 90 then Some (b - 65)
         else if 97 \<le> b \<and> b \<le> 122 then Some (b - 71)
         else if 48 \<le> b \<and> b \<le> 57 then Some (b + 4)
         else if b = 45 then Some 62
         else if b = 95 then Some 63
         else None)"

definition pad_char :: char where "pad_char = CHR ''=''"

fun b64_encode :: "string \<Rightarrow> string" where
  "b64_encode (x # y # z # r) =
     (let a = byte_of x; b = byte_of y; c = byte_of z
      in b64_char (a div 4) # b64_char (a mod 4 * 16 + b div 16) #
         b64_char (b mod 16 * 4 + c div 64) # b64_char (c mod 64) # b64_encode r)"
| "b64_encode [x, y] =
     (let a = byte_of x; b = byte_of y
      in [b64_char (a div 4), b64_char (a mod 4 * 16 + b div 16), b64_char (b mod 16 * 4), pad_char])"
| "b64_encode [x] =
     (let a = byte_of x in [b64_char (a div 4), b64_char (a mod 4 * 16), pad_char, pad_char])"
| "b64_encode [] = []"

fun b64_groups :: "string \<Rightarrow> string option" where
  "b64_groups [] = Some []"
| "b64_groups (p # q # r # s # t) =
     (case (b64_val p, b64_val q) of
        (Some u, Some v) \<Rightarrow>
          (let x = char_of (u * 4 + v div 16)
           in case b64_val r of
                None \<Rightarrow> (if r = pad_char \<and> s = pad_char \<and> t = [] then Some [x] else None)
              | Some w \<Rightarrow>
                  (let y = char_of (v mod 16 * 16 + w div 4)
                   in case b64_val s of
                        None \<Rightarrow> (if s = pad_char \<and> t = [] then Some [x, y] else None)
                      | Some m \<Rightarrow>
                          map_option (\<lambda>l. x # y # char_of (w mod 4 * 64 + m) # l) (b64_groups t)))
      | _ \<Rightarrow> None)"
| "b64_groups _ = None"

definition b64_decode :: "string \<Rightarrow> string option" where
  "b64_decode s = b64_groups (filter (\<lambda>c. c \<noteq> CHR 0x0D \<and> c \<noteq> CHR 0x0A) s)"

lemma byte_of_char: "n < 256 \<Longrightarrow> byte_of (char_of n) = n"
  unfolding byte_of_def of_char_of by simp

lemma b64_val_char [simp]: "v < 64 \<Longrightarrow> b64_val (b64_char v) = Some v"
proof -
  assume "v < 64"
  then consider "v < 26" | "26 \<le> v" "v < 52" | "52 \<le> v" "v < 62" | "v = 62" | "v = 63" by linarith
  then show ?thesis
  proof cases
    case 3
    then obtain w where "v = 52 + w" using le_Suc_ex by blast
    with 3 show ?thesis by (simp add: b64_val_def b64_char_def byte_of_char Let_def)
  qed (simp_all add: b64_val_def b64_char_def byte_of_char Let_def, simp_all add: byte_of_def)
qed

lemma b64_val_pad [simp]: "b64_val pad_char = None"
  by (simp add: b64_val_def pad_char_def byte_of_def)

lemma char_of_byte [simp]: "char_of (byte_of c) = c"
  by (simp add: byte_of_def)

lemma byte_parts:
  fixes a b :: nat
  assumes "a < 256" "b < 256"
  shows "a div 4 < 64" "a mod 4 * 16 + b div 16 < 64" "b mod 16 * 4 + a div 64 < 64" "a mod 64 < 64"
    "a mod 4 * 16 < 64" "b mod 16 * 4 < 64"
  using assms by (auto simp: less_mult_imp_div_less intro: mult_mono
      mod_less_divisor [of 4 a, THEN less_le_trans])

lemma byte_join:
  fixes a b c :: nat
  assumes "a < 256" "b < 256" "c < 256"
  shows "a div 4 * 4 + (a mod 4 * 16 + b div 16) div 16 = a"
    "(a mod 4 * 16 + b div 16) mod 16 * 16 + (b mod 16 * 4 + c div 64) div 4 = b"
    "(b mod 16 * 4 + c div 64) mod 4 * 64 + c mod 64 = c"
proof -
  have "b div 16 < 16" "c div 64 < 4" using assms by auto
  then show "a div 4 * 4 + (a mod 4 * 16 + b div 16) div 16 = a"
    "(a mod 4 * 16 + b div 16) mod 16 * 16 + (b mod 16 * 4 + c div 64) div 4 = b"
    "(b mod 16 * 4 + c div 64) mod 4 * 64 + c mod 64 = c"
    by (simp_all add: mult.commute)
qed

lemma byte_of_bound: "byte_of c < 256"
  by (simp add: byte_of_def)

lemma b64_groups_encode: "b64_groups (b64_encode s) = Some s"
proof (induction s rule: b64_encode.induct)
  case (1 x y z r)
  note bd = byte_of_bound [of x] byte_of_bound [of y] byte_of_bound [of z]
  have "byte_of y div 16 < 16" "byte_of z div 64 < 4" using bd by auto
  then show ?case
    using "1.IH" [OF refl refl refl]
    by (simp add: Let_def byte_parts [OF bd(1,2)] byte_parts [OF bd(3,2)] byte_join [OF bd])
next
  case (2 x y)
  note bd = byte_of_bound [of x] byte_of_bound [of y]
  show ?case
    using byte_join [OF bd, of 0]
    by (simp add: Let_def byte_parts [OF bd])
next
  case (3 x)
  note bd = byte_of_bound [of x]
  show ?case
    using byte_join(1) [OF bd, of 0]
    by (simp add: Let_def byte_parts [OF bd bd])
qed simp

lemma b64_char_plain: "b64_char v \<noteq> CHR 0x0D \<and> b64_char v \<noteq> CHR 0x0A" if "v < 64"
proof -
  have "b64_val (CHR 0x0D) = None" "b64_val (CHR 0x0A) = None" by (simp_all add: b64_val_def byte_of_def)
  then show ?thesis using b64_val_char [OF that] by auto
qed

lemma b64_encode_plain: "\<forall>c \<in> set (b64_encode s). c \<noteq> CHR 0x0D \<and> c \<noteq> CHR 0x0A"
proof (induction s rule: b64_encode.induct)
  case (1 x y z r)
  note bd = byte_of_bound [of x] byte_of_bound [of y] byte_of_bound [of z]
  show ?case
    using "1.IH" [OF refl refl refl] b64_char_plain byte_parts [OF bd(1,2)] byte_parts [OF bd(3,2)]
    by (simp add: Let_def)
next
  case (2 x y)
  then show ?case
    using b64_char_plain byte_parts [OF byte_of_bound [of x] byte_of_bound [of y]]
    by (simp add: Let_def pad_char_def)
next
  case (3 x)
  then show ?case
    using b64_char_plain byte_parts [OF byte_of_bound [of x] byte_of_bound [of x]]
    by (simp add: Let_def pad_char_def)
qed simp

lemma b64_decode_encode: "b64_decode (b64_encode s) = Some s"
  using b64_encode_plain by (simp add: b64_decode_def b64_groups_encode filter_id_conv)

end
