(* ===== verification/Task_Store.thy ===== *)
theory Task_Store
  imports A2A_Types Go_Base64 "HOL-Library.Multiset"
begin

text \<open>
  internal/agent/taskstore.go (the in-memory task store with optimistic concurrency, paging
  and eviction of finished tasks) and the timestamp normalisation of internal/agent/utc.go.

  The store's operations hold its mutex, so each is a function on the store; the time is an
  argument.  Where the code ranges over its map, the order is an argument.  The push
  configuration store is the SDK's: the model records which tasks \<open>DeleteAll\<close> was called for.
\<close>

section \<open>Timestamps in UTC\<close>

definition statusInUTC :: "task_status \<Rightarrow> task_status" where
  "statusInUTC s = (case st_timestamp s of None \<Rightarrow> s | Some t \<Rightarrow> s\<lparr>st_timestamp := Some (time_utc t)\<rparr>)"

definition eventInUTC :: "event \<Rightarrow> event" where
  "eventInUTC ev =
     (case ev of
        Ev_status i s \<Rightarrow> Ev_status i (statusInUTC s)
      | Ev_task t \<Rightarrow> Ev_task (t\<lparr>t_status := statusInUTC (t_status t)\<rparr>)
      | _ \<Rightarrow> ev)"

definition utcEvents :: "event list \<Rightarrow> event list" where
  "utcEvents = map eventInUTC"

section \<open>Data\<close>

definition terminalTaskTTL :: duration where "terminalTaskTTL = 30 * minute_d"
definition defaultListPageSize :: int where "defaultListPageSize = 50"
definition maxListPageSize :: int where "maxListPageSize = 100"
definition defaultListHistoryLength :: int where "defaultListHistoryLength = 100"
definition pageTokenSeparator :: string where "pageTokenSeparator = ''_''"

text \<open>Task versions are the SDK's 64-bit integers; 0 stands for a missing version.\<close>

type_synonym task_version = "64 word"

definition TaskVersionMissing :: task_version where "TaskVersionMissing = 0"

record ttl_entry =
  te_task :: task
  te_version :: task_version
  te_lastUpdated :: gotime

record ttl_store =
  ts_tasks :: "task_id \<rightharpoonup> ttl_entry"
  ts_pushConfigs :: bool
  ts_pushDeleted :: "task_id list"

definition NewTTLStore :: "bool \<Rightarrow> ttl_store" where
  "NewTTLStore hasPush = \<lparr>ts_tasks = Map.empty, ts_pushConfigs = hasPush, ts_pushDeleted = []\<rparr>"

section \<open>Create, update, get\<close>

definition cloneTask :: "sdk \<Rightarrow> task \<Rightarrow> a2a_error + task" where
  "cloneTask k t =
     (case sdk_marshal k t of
        None \<Rightarrow> Inl ErrEncodeTask
      | Some b \<Rightarrow> (case sdk_unmarshal k b of None \<Rightarrow> Inl ErrDecodeTask | Some cp \<Rightarrow> Inr cp))"

definition Create :: "sdk \<Rightarrow> gotime \<Rightarrow> task option \<Rightarrow> ttl_store \<Rightarrow> (a2a_error + task_version) \<times> ttl_store" where
  "Create k now mt s =
     (case mt of
        None \<Rightarrow> (Inl ErrNilTask, s)
      | Some t \<Rightarrow>
          (case cloneTask k t of
             Inl e \<Rightarrow> (Inl e, s)
           | Inr cp \<Rightarrow>
               (let cp = cp\<lparr>t_status := statusInUTC (t_status cp)\<rparr>
                in if ts_tasks s (t_id t) \<noteq> None then (Inl ErrTaskAlreadyExists, s)
                   else (Inr 1, s\<lparr>ts_tasks := (ts_tasks s)(t_id t \<mapsto>
                           \<lparr>te_task = cp, te_version = 1, te_lastUpdated = now\<rparr>)\<rparr>))))"

record update_request =
  ur_task :: "task option"
  ur_prevVersion :: task_version

definition Update :: "sdk \<Rightarrow> gotime \<Rightarrow> update_request option \<Rightarrow> ttl_store \<Rightarrow> (a2a_error + task_version) \<times> ttl_store" where
  "Update k now mr s =
     (case mr of
        None \<Rightarrow> (Inl ErrNilTask, s)
      | Some r \<Rightarrow>
          (case ur_task r of
             None \<Rightarrow> (Inl ErrNilTask, s)
           | Some t \<Rightarrow>
               (case cloneTask k t of
                  Inl e \<Rightarrow> (Inl e, s)
                | Inr cp \<Rightarrow>
                    (let cp = cp\<lparr>t_status := statusInUTC (t_status cp)\<rparr>
                     in case ts_tasks s (t_id t) of
                          None \<Rightarrow> (Inl ErrTaskNotFound, s)
                        | Some stored \<Rightarrow>
                            (if ur_prevVersion r \<noteq> TaskVersionMissing \<and> te_version stored \<noteq> ur_prevVersion r
                             then (Inl ErrConcurrentModification, s)
                             else (let version = te_version stored + 1
                                   in (Inr version, s\<lparr>ts_tasks := (ts_tasks s)(t_id t \<mapsto>
                                         \<lparr>te_task = cp, te_version = version, te_lastUpdated = now\<rparr>)\<rparr>)))))))"

record stored_task =
  sd_task :: task
  sd_version :: task_version

definition Get :: "sdk \<Rightarrow> task_id \<Rightarrow> ttl_store \<Rightarrow> a2a_error + stored_task" where
  "Get k i s =
     (case ts_tasks s i of
        None \<Rightarrow> Inl ErrTaskNotFound
      | Some stored \<Rightarrow>
          (case cloneTask k (te_task stored) of
             Inl e \<Rightarrow> Inl e
           | Inr cp \<Rightarrow> Inr \<lparr>sd_task = cp, sd_version = te_version stored\<rparr>))"

section \<open>Eviction\<close>

definition evictable :: "sdk \<Rightarrow> gotime \<Rightarrow> ttl_entry \<Rightarrow> bool" where
  "evictable k cutoff e = (task_terminal k (te_task e) \<and> time_before (te_lastUpdated e) cutoff)"

definition EvictTerminal :: "sdk \<Rightarrow> task_id list \<Rightarrow> gotime \<Rightarrow> ttl_store \<Rightarrow> nat \<times> ttl_store" where
  "EvictTerminal k order now s =
     (let cutoff = time_add now (- terminalTaskTTL);
          evicted = filter (\<lambda>i. case ts_tasks s i of None \<Rightarrow> False | Some e \<Rightarrow> evictable k cutoff e) order
      in (length evicted,
          s\<lparr>ts_tasks := (\<lambda>i. if i \<in> set evicted then None else ts_tasks s i),
            ts_pushDeleted := ts_pushDeleted s @ (if ts_pushConfigs s then evicted else [])\<rparr>))"

section \<open>Listing\<close>

record list_request =
  lr_contextId :: string
  lr_status :: task_state
  lr_pageSize :: int
  lr_pageToken :: string
  lr_historyLength :: "int option"
  lr_statusTimestampAfter :: "gotime option"
  lr_includeArtifacts :: bool

record list_response =
  lp_tasks :: "task list"
  lp_totalSize :: nat
  lp_pageSize :: nat
  lp_nextPageToken :: string

definition zero_list_request :: "sdk \<Rightarrow> list_request" where
  "zero_list_request k = \<lparr>lr_contextId = '''', lr_status = sdk_unspecified k, lr_pageSize = 0,
     lr_pageToken = '''', lr_historyLength = None, lr_statusTimestampAfter = None,
     lr_includeArtifacts = False\<rparr>"

definition matchesListFilter :: "sdk \<Rightarrow> ttl_entry \<Rightarrow> list_request \<Rightarrow> bool" where
  "matchesListFilter k e req =
     (if lr_contextId req \<noteq> '''' \<and> t_contextId (te_task e) \<noteq> lr_contextId req then False
      else if lr_status req \<noteq> sdk_unspecified k \<and> st_state (t_status (te_task e)) \<noteq> lr_status req then False
      else (case (lr_statusTimestampAfter req, st_timestamp (t_status (te_task e))) of
              (Some a, Some t) \<Rightarrow> \<not> time_before t a
            | _ \<Rightarrow> True))"

text \<open>The comparison of \<open>slices.SortFunc\<close>: the later updated entry first, then the greater ID.\<close>

definition entry_key :: "ttl_entry \<Rightarrow> int \<times> string" where
  "entry_key e = (unix_nano (te_lastUpdated e), t_id (te_task e))"

definition key_less :: "int \<times> string \<Rightarrow> int \<times> string \<Rightarrow> bool" where
  "key_less a b = (if fst a \<noteq> fst b then fst a < fst b else snd a < snd b)"

fun insert_entry :: "ttl_entry \<Rightarrow> ttl_entry list \<Rightarrow> ttl_entry list" where
  "insert_entry e [] = [e]"
| "insert_entry e (x # xs) =
     (if key_less (entry_key e) (entry_key x) then x # insert_entry e xs else e # x # xs)"

definition sort_entries :: "ttl_entry list \<Rightarrow> ttl_entry list" where
  "sort_entries es = foldr insert_entry es []"

text \<open>\<open>sort.Search\<close>: binary search for the first index at which \<open>f\<close> holds.\<close>

function search_loop :: "(nat \<Rightarrow> bool) \<Rightarrow> nat \<Rightarrow> nat \<Rightarrow> nat" where
  "search_loop f i j =
     (if i < j then
        (let h = (i + j) div 2
         in if \<not> f h then search_loop f (h + 1) j else search_loop f i h)
      else i)"
  by pat_completeness auto
termination
  by (relation "measure (\<lambda>(f, i, j). j - i)") auto

declare search_loop.simps [simp del]

definition sort_Search :: "nat \<Rightarrow> (nat \<Rightarrow> bool) \<Rightarrow> nat" where
  "sort_Search n f = search_loop f 0 n"

definition encodePageToken :: "gotime \<Rightarrow> task_id \<Rightarrow> string" where
  "encodePageToken updated i = b64_encode (time_format True updated @ pageTokenSeparator @ i)"

definition decodePageToken :: "string \<Rightarrow> a2a_error + (gotime \<times> task_id)" where
  "decodePageToken token =
     (case b64_decode token of
        None \<Rightarrow> Inl ErrInvalidParams
      | Some raw \<Rightarrow>
          (case str_cut raw pageTokenSeparator of
             None \<Rightarrow> Inl ErrInvalidParams
           | Some (ts, i) \<Rightarrow>
               (if i = '''' then Inl ErrInvalidParams
                else (case time_parse ts of
                        None \<Rightarrow> Inl ErrInvalidParams
                      | Some updated \<Rightarrow> Inr (updated, i)))))"

definition after_cursor :: "gotime \<times> task_id \<Rightarrow> ttl_entry \<Rightarrow> bool" where
  "after_cursor c e = key_less (entry_key e) (unix_nano (fst c), snd c)"

definition page_from :: "list_request \<Rightarrow> ttl_entry list \<Rightarrow> a2a_error + ttl_entry list" where
  "page_from req filtered =
     (if lr_pageToken req = '''' then Inr filtered
      else (case decodePageToken (lr_pageToken req) of
              Inl e \<Rightarrow> Inl e
            | Inr c \<Rightarrow> Inr (drop (sort_Search (length filtered) (\<lambda>i. after_cursor c (filtered ! i))) filtered)))"

definition trim_task :: "list_request \<Rightarrow> int \<Rightarrow> task \<Rightarrow> task" where
  "trim_task req historyLength cp =
     (let cp = (if historyLength \<le> 0 then cp\<lparr>t_history := []\<rparr>
                else if historyLength < int (length (t_history cp))
                then cp\<lparr>t_history := drop (length (t_history cp) - nat historyLength) (t_history cp)\<rparr>
                else cp)
      in if lr_includeArtifacts req then cp else cp\<lparr>t_artifacts := []\<rparr>)"

fun clone_page :: "sdk \<Rightarrow> list_request \<Rightarrow> int \<Rightarrow> ttl_entry list \<Rightarrow> a2a_error + task list" where
  "clone_page k req h [] = Inr []"
| "clone_page k req h (e # es) =
     (case cloneTask k (te_task e) of
        Inl er \<Rightarrow> Inl er
      | Inr cp \<Rightarrow> (case clone_page k req h es of
                    Inl er \<Rightarrow> Inl er
                  | Inr ts \<Rightarrow> Inr (trim_task req h cp # ts)))"

definition filtered_entries :: "sdk \<Rightarrow> task_id list \<Rightarrow> list_request \<Rightarrow> ttl_store \<Rightarrow> ttl_entry list" where
  "filtered_entries k order req s =
     sort_entries (filter (\<lambda>e. matchesListFilter k e req) (List.map_filter (ts_tasks s) order))"

definition List_tasks :: "sdk \<Rightarrow> task_id list \<Rightarrow> list_request option \<Rightarrow> ttl_store \<Rightarrow> a2a_error + list_response" where
  "List_tasks k order mreq s =
     (let req = (case mreq of None \<Rightarrow> zero_list_request k | Some r \<Rightarrow> r);
          pageSize = (if lr_pageSize req = 0 then defaultListPageSize else lr_pageSize req)
      in if lr_pageSize req \<noteq> 0 \<and> (lr_pageSize req < 1 \<or> maxListPageSize < lr_pageSize req)
         then Inl ErrInvalidRequest
         else
           (let filtered = filtered_entries k order req s
            in case page_from req filtered of
                 Inl e \<Rightarrow> Inl e
               | Inr page \<Rightarrow>
                   (let more = pageSize < int (length page);
                        last = page ! nat (pageSize - 1);
                        nextPageToken = (if more then encodePageToken (te_lastUpdated last) (t_id (te_task last)) else '''');
                        page = (if more then take (nat pageSize) page else page);
                        historyLength = (case lr_historyLength req of None \<Rightarrow> defaultListHistoryLength | Some h \<Rightarrow> h)
                    in case clone_page k req historyLength page of
                         Inl e \<Rightarrow> Inl e
                       | Inr tasks \<Rightarrow>
                           Inr \<lparr>lp_tasks = tasks, lp_totalSize = length filtered, lp_pageSize = length tasks,
                                lp_nextPageToken = nextPageToken\<rparr>)))"

section \<open>Binary search\<close>

lemma search_loop_spec:
  assumes "\<forall>a b. a \<le> b \<longrightarrow> b < n \<longrightarrow> f a \<longrightarrow> f b" "i \<le> j" "j \<le> n"
    and "\<forall>a < i. \<not> f a" "\<forall>a. j \<le> a \<longrightarrow> a < n \<longrightarrow> f a"
  shows "search_loop f i j \<le> n \<and> (\<forall>a < n. f a \<longleftrightarrow> search_loop f i j \<le> a)"
  using assms
proof (induction f i j rule: search_loop.induct)
  case (1 f i j)
  define h where "h = (i + j) div 2"
  show ?case
  proof (cases "i < j")
    case True
    then have h: "i \<le> h" "h < j" by (auto simp: h_def)
    show ?thesis
    proof (cases "f h")
      case fh: True
      have "search_loop f i j = search_loop f i h"
        using True fh by (simp add: search_loop.simps [of f i j] h_def)
      moreover have "\<forall>a. h \<le> a \<longrightarrow> a < n \<longrightarrow> f a" using "1.prems"(1) fh by blast
      moreover have "h \<le> n" using h "1.prems"(3) by simp
      ultimately show ?thesis
        using "1.IH"(2) [OF True h_def _ "1.prems"(1) h(1) _ "1.prems"(4)] fh by presburger
    next
      case nfh: False
      have "search_loop f i j = search_loop f (h + 1) j"
        using True nfh by (simp add: search_loop.simps [of f i j] h_def)
      moreover have "\<forall>a < h + 1. \<not> f a"
      proof (intro allI impI notI)
        fix a assume "a < h + 1" "f a"
        then have "a \<le> h" "h < n" using h "1.prems"(3) by simp_all
        then show False using "1.prems"(1) nfh \<open>f a\<close> by blast
      qed
      moreover have "h + 1 \<le> j" using h by simp
      ultimately show ?thesis
        using "1.IH"(1) [OF True h_def nfh "1.prems"(1) _ "1.prems"(3) _ "1.prems"(5)] by presburger
    qed
  next
    case False
    then have "search_loop f i j = i" by (simp add: search_loop.simps [of f i j])
    moreover have "i = j" using False "1.prems"(2) by simp
    ultimately show ?thesis using "1.prems"(3-5) by (simp add: not_le) (meson not_less)
  qed
qed

lemma sort_Search_spec:
  assumes "\<forall>a b. a \<le> b \<longrightarrow> b < n \<longrightarrow> f a \<longrightarrow> f b"
  shows "sort_Search n f \<le> n" "a < n \<Longrightarrow> f a \<longleftrightarrow> sort_Search n f \<le> a"
  using search_loop_spec [OF assms, of 0 n] by (auto simp: sort_Search_def)

section \<open>The listing order\<close>

lemma key_less_trans: "key_less a b \<Longrightarrow> key_less b c \<Longrightarrow> key_less a c"
  by (auto simp: key_less_def split: if_splits)

lemma key_less_irrefl [simp]: "\<not> key_less a a"
  by (simp add: key_less_def)

lemma key_less_total: "a \<noteq> b \<Longrightarrow> \<not> key_less a b \<Longrightarrow> key_less b a"
  by (auto simp: key_less_def prod_eq_iff split: if_splits)

definition newest_first :: "ttl_entry list \<Rightarrow> bool" where
  "newest_first es = sorted_wrt (\<lambda>x y. key_less (entry_key y) (entry_key x)) es"

lemma set_insert_entry [simp]: "set (insert_entry e es) = insert e (set es)"
  by (induction es) auto

lemma mset_insert_entry [simp]: "mset (insert_entry e es) = add_mset e (mset es)"
  by (induction es) auto

lemma mset_sort_entries: "mset (sort_entries es) = mset es"
  by (induction es) (simp_all add: sort_entries_def)

lemma insert_entry_newest_first:
  "newest_first es \<Longrightarrow> entry_key e \<notin> entry_key ` set es \<Longrightarrow> newest_first (insert_entry e es)"
proof (induction es)
  case (Cons x xs)
  show ?case
  proof (cases "key_less (entry_key e) (entry_key x)")
    case True
    with Cons show ?thesis by (auto simp: newest_first_def)
  next
    case False
    then have "key_less (entry_key x) (entry_key e)" using Cons.prems(2) key_less_total by auto
    with False Cons.prems(1) show ?thesis
      by (auto simp: newest_first_def intro: key_less_trans)
  qed
qed (simp add: newest_first_def)

lemma set_sort_entries [simp]: "set (sort_entries es) = set es"
  using mset_sort_entries by (metis set_mset_mset)

lemma sort_entries_newest_first: "distinct (map entry_key es) \<Longrightarrow> newest_first (sort_entries es)"
proof (induction es)
  case (Cons e es)
  have "newest_first (sort_entries es)" "entry_key e \<notin> entry_key ` set (sort_entries es)"
    using Cons by simp_all
  then show ?case by (simp add: sort_entries_def insert_entry_newest_first)
qed (simp add: sort_entries_def newest_first_def)

lemma search_after_entry:
  assumes "newest_first es" "m < length es" "unix_nano (fst c) = unix_nano (te_lastUpdated (es ! m))"
    "snd c = t_id (te_task (es ! m))"
  shows "sort_Search (length es) (\<lambda>i. after_cursor c (es ! i)) = Suc m"
proof -
  let ?f = "\<lambda>i. after_cursor c (es ! i)"
  have iff: "?f i \<longleftrightarrow> m < i" if "i < length es" for i
  proof -
    have c: "(unix_nano (fst c), snd c) = entry_key (es ! m)" using assms(3,4) by (simp add: entry_key_def)
    consider "i < m" | "i = m" | "m < i" by linarith
    then show ?thesis
    proof cases
      case 1
      then have "key_less (entry_key (es ! m)) (entry_key (es ! i))"
        using assms(1,2) by (simp add: newest_first_def sorted_wrt_iff_nth_less)
      then show ?thesis using 1 key_less_trans key_less_irrefl unfolding after_cursor_def c
        by (metis not_less_iff_gr_or_eq)
    next
      case 3
      then show ?thesis
        using assms(1) that by (simp add: newest_first_def sorted_wrt_iff_nth_less after_cursor_def c)
    qed (simp add: after_cursor_def c)
  qed
  have mono: "\<forall>a b. a \<le> b \<longrightarrow> b < length es \<longrightarrow> ?f a \<longrightarrow> ?f b" using iff by auto
  note sp = sort_Search_spec [OF mono]
  have "sort_Search (length es) ?f \<le> Suc m"
    using sp(2) [of "Suc m"] iff [of "Suc m"] sp(1) assms(2) by (cases "Suc m < length es") auto
  moreover have "\<not> sort_Search (length es) ?f \<le> m"
    using sp(2) [of m] iff [of m] assms(2) by simp
  ultimately show ?thesis by simp
qed

section \<open>Page tokens\<close>

lemma page_token_roundtrip:
  assumes "formattable t" "i \<noteq> ''''"
  shows "decodePageToken (encodePageToken t i) = Inr (t, i)"
proof -
  have "CHR ''_'' \<notin> set (time_format True t)"
    using time_format_chars [OF assms(1), of True] by (auto simp: time_chars_def is_digit_def)
  then have "str_cut (time_format True t @ pageTokenSeparator @ i) pageTokenSeparator = Some (time_format True t, i)"
    using str_cut_char by (simp add: pageTokenSeparator_def)
  then show ?thesis
    using assms time_parse_format(1) [OF assms(1)]
    by (simp add: decodePageToken_def encodePageToken_def b64_decode_encode)
qed

section \<open>Following the page tokens\<close>

text \<open>A client that asks for page after page until there is no token.\<close>

fun follow_pages :: "nat \<Rightarrow> sdk \<Rightarrow> task_id list \<Rightarrow> list_request \<Rightarrow> ttl_store \<Rightarrow> task list option" where
  "follow_pages 0 k order req s = None"
| "follow_pages (Suc n) k order req s =
     (case List_tasks k order (Some req) s of
        Inl _ \<Rightarrow> None
      | Inr resp \<Rightarrow>
          (if lp_nextPageToken resp = '''' then Some (lp_tasks resp)
           else map_option (\<lambda>ts. lp_tasks resp @ ts)
                  (follow_pages n k order (req\<lparr>lr_pageToken := lp_nextPageToken resp\<rparr>) s)))"

definition request_history :: "list_request \<Rightarrow> int" where
  "request_history req = (case lr_historyLength req of None \<Rightarrow> defaultListHistoryLength | Some h \<Rightarrow> h)"

definition request_size :: "list_request \<Rightarrow> nat" where
  "request_size req = nat (if lr_pageSize req = 0 then defaultListPageSize else lr_pageSize req)"

definition size_ok :: "list_request \<Rightarrow> bool" where
  "size_ok req = (lr_pageSize req = 0 \<or> (1 \<le> lr_pageSize req \<and> lr_pageSize req \<le> maxListPageSize))"

lemma size_ok_pos: "size_ok req \<Longrightarrow> 0 < request_size req"
  by (auto simp: size_ok_def request_size_def defaultListPageSize_def)

lemma request_size_int:
  "size_ok req \<Longrightarrow> int (request_size req) = (if lr_pageSize req = 0 then defaultListPageSize else lr_pageSize req)"
  by (auto simp: size_ok_def request_size_def defaultListPageSize_def)

definition render :: "list_request \<Rightarrow> ttl_entry \<Rightarrow> task" where
  "render req e = trim_task req (request_history req) (te_task e)"

lemma clone_page_ok:
  "\<forall>e \<in> set es. cloneTask k (te_task e) = Inr (te_task e) \<Longrightarrow>
   clone_page k req h es = Inr (map (\<lambda>e. trim_task req h (te_task e)) es)"
  by (induction es) simp_all

lemma token_irrelevant [simp]:
  "filtered_entries k order (req\<lparr>lr_pageToken := x\<rparr>) s = filtered_entries k order req s"
  "render (req\<lparr>lr_pageToken := x\<rparr>) e = render req e"
  "request_size (req\<lparr>lr_pageToken := x\<rparr>) = request_size req"
  "size_ok (req\<lparr>lr_pageToken := x\<rparr>) = size_ok req"
  by (simp_all add: filtered_entries_def matchesListFilter_def render_def trim_task_def
      request_history_def request_size_def size_ok_def Let_def)

lemma List_page:
  assumes "size_ok req" "page_from req (filtered_entries k order req s) = Inr page"
    and "\<forall>e \<in> set page. cloneTask k (te_task e) = Inr (te_task e)"
  shows "List_tasks k order (Some req) s = Inr
    \<lparr>lp_tasks = map (render req) (take (request_size req) page),
     lp_totalSize = length (filtered_entries k order req s),
     lp_pageSize = length (take (request_size req) page),
     lp_nextPageToken =
       (if request_size req < length page
        then encodePageToken (te_lastUpdated (page ! (request_size req - 1)))
               (t_id (te_task (page ! (request_size req - 1))))
        else '''')\<rparr>"
proof -
  let ?n = "request_size req"
  let ?ps = "if lr_pageSize req = 0 then defaultListPageSize else lr_pageSize req"
  have ps: "?ps = int ?n" using request_size_int [OF assms(1)] by simp
  have pg: "(if int ?n < int (length page) then take (nat (int ?n)) page else page) = take ?n page"
    by simp
  have "clone_page k req (request_history req) (take ?n page) = Inr (map (render req) (take ?n page))"
    using clone_page_ok [of "take ?n page" k req "request_history req"] in_set_takeD [of _ ?n page] assms(3)
    by (simp add: render_def [abs_def])
  moreover have "\<not> (lr_pageSize req \<noteq> 0 \<and> (lr_pageSize req < 1 \<or> maxListPageSize < lr_pageSize req))"
    using assms(1) by (auto simp: size_ok_def)
  moreover have "nat (int ?n - 1) = ?n - 1" by simp
  ultimately show ?thesis
    unfolding List_tasks_def option.case Let_def ps pg assms(2) sum.case request_history_def [symmetric]
    by (simp add: pg [simplified])
qed

definition listable :: "sdk \<Rightarrow> ttl_entry list \<Rightarrow> bool" where
  "listable k es =
     (newest_first es \<and>
      (\<forall>e \<in> set es. cloneTask k (te_task e) = Inr (te_task e) \<and> formattable (te_lastUpdated e) \<and>
         t_id (te_task e) \<noteq> ''''))"

lemma encodePageToken_nonempty [simp]: "encodePageToken t i \<noteq> ''''"
proof -
  have "\<exists>a b l. time_format True t = a # b # l"
    by (auto simp: time_format_def pad4_def Let_def split: prod.split)
  then show ?thesis
    by (cases i) (auto simp: encodePageToken_def pageTokenSeparator_def Let_def
        elim!: b64_encode.elims)
qed

lemma page_after_token:
  assumes "listable k es" "m < length es"
    and "lr_pageToken req = encodePageToken (te_lastUpdated (es ! m)) (t_id (te_task (es ! m)))"
  shows "page_from req es = Inr (drop (Suc m) es)"
proof -
  have "es ! m \<in> set es" using assms(2) by simp
  then have "decodePageToken (lr_pageToken req) = Inr (te_lastUpdated (es ! m), t_id (te_task (es ! m)))"
    using assms(1,3) page_token_roundtrip by (auto simp: listable_def)
  moreover have "sort_Search (length es)
      (\<lambda>i. after_cursor (te_lastUpdated (es ! m), t_id (te_task (es ! m))) (es ! i)) = Suc m"
    by (rule search_after_entry) (use assms in \<open>auto simp: listable_def\<close>)
  ultimately show ?thesis using assms(3) by (simp add: page_from_def)
qed

lemma follow_from:
  assumes "listable k (filtered_entries k order req s)" "size_ok req"
    and "page_from req (filtered_entries k order req s) = Inr (drop m (filtered_entries k order req s))"
    and "m \<le> length (filtered_entries k order req s)" "length (filtered_entries k order req s) < n + m"
  shows "follow_pages n k order req s = Some (map (render req) (drop m (filtered_entries k order req s)))"
  using assms
proof (induction n arbitrary: req m)
  case (Suc n)
  define es where "es = filtered_entries k order req s"
  define z where "z = request_size req"
  note prems = Suc.prems [folded es_def]
  have z: "0 < z" using size_ok_pos prems(2) by (simp add: z_def)
  have "\<forall>e \<in> set (drop m es). cloneTask k (te_task e) = Inr (te_task e)"
    using prems(1) in_set_dropD by (fastforce simp: listable_def)
  note page = List_page [OF Suc.prems(2,3) this [unfolded es_def], folded es_def z_def]
  show ?case
  proof (cases "z < length (drop m es)")
    case True
    let ?tok = "encodePageToken (te_lastUpdated (es ! (m + z - 1))) (t_id (te_task (es ! (m + z - 1))))"
    have last: "drop m es ! (z - 1) = es ! (m + z - 1)" using True z by simp
    have "page_from (req\<lparr>lr_pageToken := ?tok\<rparr>) es = Inr (drop (m + z) es)"
      using page_after_token [OF prems(1), of "m + z - 1"] True z by simp
    then have "follow_pages n k order (req\<lparr>lr_pageToken := ?tok\<rparr>) s = Some (map (render req) (drop (m + z) es))"
      using Suc.IH [of "req\<lparr>lr_pageToken := ?tok\<rparr>" "m + z"] prems True z by (simp add: es_def)
    moreover have "map (render req) (take z (drop m es)) @ map (render req) (drop (m + z) es) =
        map (render req) (drop m es)"
      by (metis append_take_drop_id drop_drop add.commute map_append)
    ultimately show ?thesis
      using page last True by (simp add: es_def [symmetric])
  qed (use page in \<open>simp add: es_def [symmetric]\<close>)
qed simp

section \<open>The store's invariant\<close>

text \<open>
  A stored task survives its wire form unchanged and is filed under its own, non-empty ID; its
  status timestamp is in UTC.
\<close>

definition stored_ok :: "sdk \<Rightarrow> ttl_store \<Rightarrow> bool" where
  "stored_ok k s =
     (\<forall>i e. ts_tasks s i = Some e \<longrightarrow>
        t_id (te_task e) = i \<and> i \<noteq> '''' \<and> cloneTask k (te_task e) = Inr (te_task e) \<and>
        formattable (te_lastUpdated e) \<and> statusInUTC (t_status (te_task e)) = t_status (te_task e))"

definition in_utc :: "task \<Rightarrow> task" where
  "in_utc t = t\<lparr>t_status := statusInUTC (t_status t)\<rparr>"

lemma statusInUTC_idem [simp]: "statusInUTC (statusInUTC s) = statusInUTC s"
  by (simp add: statusInUTC_def time_utc_def split: option.split)

text \<open>What the store needs of a task that is passed to it: the wire form keeps it.\<close>

definition wire_stable :: "sdk \<Rightarrow> task \<Rightarrow> bool" where
  "wire_stable k t = (t_id t \<noteq> '''' \<and> cloneTask k t = Inr t \<and> cloneTask k (in_utc t) = Inr (in_utc t))"

lemma stored_ok_put:
  assumes "stored_ok k s" "wire_stable k t" "formattable now"
  shows "stored_ok k (s\<lparr>ts_tasks := (ts_tasks s)(t_id t \<mapsto>
     \<lparr>te_task = in_utc t, te_version = v, te_lastUpdated = now\<rparr>)\<rparr>)"
  using assms by (auto simp: stored_ok_def wire_stable_def) (simp_all add: in_utc_def)

lemma Create_ok:
  "stored_ok k s \<Longrightarrow> wire_stable k t \<Longrightarrow> formattable now \<Longrightarrow> stored_ok k (snd (Create k now (Some t) s))"
  using stored_ok_put [of k s t now 1]
  by (simp add: Create_def wire_stable_def Let_def in_utc_def)

lemma Update_ok:
  assumes "stored_ok k s" "ur_task r = Some t" "wire_stable k t" "formattable now"
  shows "stored_ok k (snd (Update k now (Some r) s))"
  using assms stored_ok_put [OF assms(1,3,4)]
  by (auto simp: Update_def wire_stable_def Let_def in_utc_def split: option.split)

lemma EvictTerminal_ok: "stored_ok k s \<Longrightarrow> stored_ok k (snd (EvictTerminal k order now s))"
  by (simp add: stored_ok_def EvictTerminal_def Let_def)

lemma map_filter_Some: "set order \<subseteq> dom m \<Longrightarrow> List.map_filter m order = map (\<lambda>i. the (m i)) order"
  by (induction order) (auto simp: List.map_filter_simps)

lemma stored_listable:
  assumes "stored_ok k s" "distinct order" "set order = dom (ts_tasks s)"
  shows "listable k (filtered_entries k order req s)"
    and "set (filtered_entries k order req s) = {e. (\<exists>i. ts_tasks s i = Some e) \<and> matchesListFilter k e req}"
    and "distinct (filtered_entries k order req s)"
proof -
  let ?es = "List.map_filter (ts_tasks s) order"
  have es: "?es = map (\<lambda>i. the (ts_tasks s i)) order" by (rule map_filter_Some) (simp add: assms(3))
  have idk: "t_id (te_task (the (ts_tasks s i))) = i" if "i \<in> set order" for i
    using assms(1,3) that by (auto simp: stored_ok_def)
  have "map (t_id \<circ> te_task) ?es = order" using idk by (simp add: es map_idI)
  then have "distinct (map (t_id \<circ> te_task) ?es)" using assms(2) by simp
  then have dk: "distinct (map entry_key ?es)"
    by (auto simp: distinct_map inj_on_def entry_key_def)
  have st: "set ?es = {e. \<exists>i. ts_tasks s i = Some e}" proof -
    have "set ?es = (\<lambda>i. the (ts_tasks s i)) ` dom (ts_tasks s)" using assms(3) by (simp add: es)
    also have "\<dots> = {e. \<exists>i. ts_tasks s i = Some e}" by (auto simp: image_iff) (metis domI option.sel)
    finally show ?thesis .
  qed
  have df: "distinct (map entry_key (filter (\<lambda>e. matchesListFilter k e req) ?es))"
    using dk by (simp add: distinct_map_filter)
  show "set (filtered_entries k order req s) = {e. (\<exists>i. ts_tasks s i = Some e) \<and> matchesListFilter k e req}"
    using st by (auto simp: filtered_entries_def)
  show "listable k (filtered_entries k order req s)"
    using sort_entries_newest_first [OF df] assms(1) st
    by (auto simp: listable_def filtered_entries_def stored_ok_def)
  show "distinct (filtered_entries k order req s)"
    using df mset_sort_entries [of "filter (\<lambda>e. matchesListFilter k e req) ?es"]
    by (metis distinct_map filtered_entries_def mset_eq_imp_distinct_iff)
qed

section \<open>The interface of a task store\<close>

text \<open>
  What clients of the SDK's \<open>taskstore.Store\<close> (the protocol guard, the SDK's handlers) rely
  on: which IDs are known after each operation, and that a failed operation changes nothing.
\<close>

locale task_store =
  fixes create :: "gotime \<Rightarrow> task option \<Rightarrow> 's \<Rightarrow> (a2a_error + task_version) \<times> 's"
    and update :: "gotime \<Rightarrow> update_request option \<Rightarrow> 's \<Rightarrow> (a2a_error + task_version) \<times> 's"
    and get :: "task_id \<Rightarrow> 's \<Rightarrow> a2a_error + stored_task"
    and known :: "'s \<Rightarrow> task_id set"
  assumes get_not_found: "get i s = Inl ErrTaskNotFound \<longleftrightarrow> i \<notin> known s"
    and create_fails: "create now mt s = (Inl e, s') \<Longrightarrow> s' = s"
    and create_succeeds: "create now mt s = (Inr v, s') \<Longrightarrow>
      \<exists>t. mt = Some t \<and> t_id t \<notin> known s \<and> known s' = insert (t_id t) (known s)"
    and update_fails: "update now mr s = (Inl e, s') \<Longrightarrow> s' = s"
    and update_succeeds: "update now mr s = (Inr v, s') \<Longrightarrow>
      \<exists>r t. mr = Some r \<and> ur_task r = Some t \<and> t_id t \<in> known s \<and> known s' = known s"
begin

lemma create_then_found:
  "create now (Some t) s = (Inr v, s') \<Longrightarrow> get (t_id t) s' \<noteq> Inl ErrTaskNotFound"
  using create_succeeds by (fastforce simp: get_not_found)

lemma create_once:
  assumes "create now (Some t) s = (Inr v, s')"
  shows "\<exists>e. create now' (Some t) s' = (Inl e, s')"
proof (cases "create now' (Some t) s'")
  case (Pair r s'')
  show ?thesis
  proof (cases r)
    case (Inr w)
    then show ?thesis using Pair create_succeeds [OF assms] create_succeeds by fastforce
  qed (use Pair create_fails in blast)
qed

lemma update_never_creates:
  "update now mr s = (res, s') \<Longrightarrow> known s' = known s"
  using update_fails update_succeeds by (cases res) blast+

end

lemma cloneTask_not_found [simp]: "cloneTask k t \<noteq> Inl ErrTaskNotFound"
  by (simp add: cloneTask_def split: option.split)

lemma Create_cases:
  "Create k now mt s =
     (case mt of None \<Rightarrow> (Inl ErrNilTask, s)
      | Some t \<Rightarrow>
          (case cloneTask k t of Inl e \<Rightarrow> (Inl e, s)
           | Inr cp \<Rightarrow>
               if ts_tasks s (t_id t) = None
               then (Inr 1, s\<lparr>ts_tasks := (ts_tasks s)(t_id t \<mapsto>
                      \<lparr>te_task = in_utc cp, te_version = 1, te_lastUpdated = now\<rparr>)\<rparr>)
               else (Inl ErrTaskAlreadyExists, s)))"
  by (auto simp: Create_def in_utc_def Let_def split: option.split sum.split)

interpretation ttl: task_store "Create k" "Update k" "Get k" "\<lambda>s. dom (ts_tasks s)" for k
proof
  fix i :: task_id and s :: ttl_store
  show "(Get k i s = Inl ErrTaskNotFound) = (i \<notin> dom (ts_tasks s))"
    by (auto simp: Get_def domIff split: option.split sum.split)
next
  fix now mt s e s'
  show "Create k now mt s = (Inl e, s') \<Longrightarrow> s' = s"
    by (auto simp: Create_cases split: option.splits sum.splits if_splits)
next
  fix now mt s v s'
  show "Create k now mt s = (Inr v, s') \<Longrightarrow>
      \<exists>t. mt = Some t \<and> t_id t \<notin> dom (ts_tasks s) \<and> dom (ts_tasks s') = insert (t_id t) (dom (ts_tasks s))"
    by (auto simp: Create_cases split: option.splits sum.splits if_splits)
next
  fix now mr s e s'
  show "Update k now mr s = (Inl e, s') \<Longrightarrow> s' = s"
    by (auto simp: Update_def Let_def split: option.splits sum.splits if_splits)
next
  fix now mr s v s'
  show "Update k now mr s = (Inr v, s') \<Longrightarrow>
      \<exists>r t. mr = Some r \<and> ur_task r = Some t \<and> t_id t \<in> dom (ts_tasks s) \<and> dom (ts_tasks s') = dom (ts_tasks s)"
    by (auto simp: Update_def Let_def split: option.splits sum.splits if_splits)
qed

section \<open>Properties\<close>

text \<open>
  C8. Paging is complete: a client that follows the page tokens from an empty token, with a
  page size in the allowed range, gets after at most as many requests as there are tasks, and
  one more, every stored task that matches the filter, each exactly once, the most recently
  updated first (ties by descending ID).
\<close>

theorem paging_complete:
  assumes "stored_ok k s" "distinct order" "set order = dom (ts_tasks s)"
    and "lr_pageToken req = ''''" "size_ok req" "length order < n"
  shows "\<exists>es. follow_pages n k order req s = Some (map (render req) es) \<and> distinct es \<and>
    newest_first es \<and> set es = {e. (\<exists>i. ts_tasks s i = Some e) \<and> matchesListFilter k e req}"
proof -
  let ?es = "filtered_entries k order req s"
  note l = stored_listable [OF assms(1-3), of req]
  have "length ?es = length (filter (\<lambda>e. matchesListFilter k e req) (List.map_filter (ts_tasks s) order))"
    unfolding filtered_entries_def by (metis mset_sort_entries size_mset)
  also have "\<dots> \<le> length (List.map_filter (ts_tasks s) order)" by (rule length_filter_le)
  also have "\<dots> \<le> length order" by (induction order) (auto simp: List.map_filter_simps split: option.split)
  finally have len: "length ?es < n" using assms(6) by simp
  have "follow_pages n k order req s = Some (map (render req) (drop 0 ?es))"
    by (rule follow_from [OF l(1) assms(5)]) (use assms(4) len in \<open>simp_all add: page_from_def\<close>)
  then show ?thesis using l by (auto simp: listable_def)
qed

text \<open>Two finished tasks, and an SDK whose wire form carries them.\<close>

definition sample_task :: "task_id \<Rightarrow> task" where
  "sample_task i = \<lparr>t_id = i, t_contextId = ''c'',
     t_status = \<lparr>st_state = TaskStateCompleted, st_message = None, st_timestamp = None\<rparr>,
     t_artifacts = [], t_history = [], t_metadata = []\<rparr>"

definition sdk1 :: sdk where
  "sdk1 = sdk0\<lparr>sdk_marshal := (\<lambda>t. if t = sample_task (t_id t) then Some (t_id t) else None),
               sdk_unmarshal := (\<lambda>b. Some (sample_task b))\<rparr>"

definition entry_at :: "task_id \<Rightarrow> int \<Rightarrow> ttl_entry" where
  "entry_at i n = \<lparr>te_task = sample_task i, te_version = 1, te_lastUpdated = \<lparr>unix_nano = n, zone_off = 0\<rparr>\<rparr>"

definition two_tasks :: ttl_store where
  "two_tasks = (NewTTLStore True)\<lparr>ts_tasks := [''a'' \<mapsto> entry_at ''a'' 5, ''b'' \<mapsto> entry_at ''b'' 7]\<rparr>"

lemma sdk1_clone [simp]: "cloneTask sdk1 (sample_task i) = Inr (sample_task i)"
  by (simp add: cloneTask_def sdk1_def) (simp add: sample_task_def)

lemma sample_task_id [simp]: "t_id (sample_task i) = i" "in_utc (sample_task i) = sample_task i"
  by (simp_all add: sample_task_def in_utc_def statusInUTC_def)

lemma formattable_epoch: "formattable \<lparr>unix_nano = 5, zone_off = 0\<rparr>" "formattable \<lparr>unix_nano = 7, zone_off = 0\<rparr>"
  by code_simp+

lemma two_tasks_ok: "stored_ok sdk1 two_tasks"
  using formattable_epoch
  by (auto simp: stored_ok_def two_tasks_def entry_at_def NewTTLStore_def split: if_splits)
     (auto simp: sample_task_def statusInUTC_def)

definition one_per_page :: list_request where
  "one_per_page = (zero_list_request sdk1)\<lparr>lr_pageSize := 1\<rparr>"

lemma one_per_page_matches: "matchesListFilter sdk1 e one_per_page"
  by (simp add: matchesListFilter_def one_per_page_def zero_list_request_def)

lemma two_tasks_entries:
  "(\<exists>i. ts_tasks two_tasks i = Some e) \<longleftrightarrow> e = entry_at ''a'' 5 \<or> e = entry_at ''b'' 7"
proof
  show "\<exists>i. ts_tasks two_tasks i = Some e" if "e = entry_at ''a'' 5 \<or> e = entry_at ''b'' 7"
    using that by (auto simp: two_tasks_def intro: exI [of _ "''a''"] exI [of _ "''b''"])
qed (auto simp: two_tasks_def split: if_splits)

theorem paging_complete_witness:
  "\<exists>es. follow_pages 3 sdk1 [''a'', ''b''] one_per_page two_tasks = Some (map (render one_per_page) es) \<and>
     distinct es \<and> newest_first es \<and> set es = {entry_at ''a'' 5, entry_at ''b'' 7}"
proof -
  have "set [''a'', ''b''] = dom (ts_tasks two_tasks)" by (auto simp: two_tasks_def)
  moreover have "size_ok one_per_page"
    by (simp add: size_ok_def one_per_page_def maxListPageSize_def)
  moreover have "{e. (\<exists>i. ts_tasks two_tasks i = Some e) \<and> matchesListFilter sdk1 e one_per_page} =
      {entry_at ''a'' 5, entry_at ''b'' 7}"
    by (auto simp: two_tasks_entries one_per_page_matches)
  ultimately show ?thesis
    using paging_complete [OF two_tasks_ok, of "[''a'', ''b'']" one_per_page 3]
    by (simp add: one_per_page_def zero_list_request_def)
qed

text \<open>
  A page token that the store issued for a time and a non-empty task ID is accepted and
  gives back exactly that time and ID.
\<close>

theorem page_token_accepted:
  assumes "formattable t" "i \<noteq> ''''"
  shows "decodePageToken (encodePageToken t i) = Inr (t, i)"
  by (rule page_token_roundtrip [OF assms])

theorem page_token_accepted_witness:
  "decodePageToken (encodePageToken \<lparr>unix_nano = 5, zone_off = 0\<rparr> ''a_b'') = Inr (\<lparr>unix_nano = 5, zone_off = 0\<rparr>, ''a_b'')"
  using page_token_accepted [OF formattable_epoch(1), of "''a_b''"] by simp



text \<open>
  No lost update: of two updates that were both prepared against the same stored version,
  the second is refused, whatever the first one wrote.
\<close>

theorem no_lost_update:
  assumes "ur_prevVersion r = v" "ur_prevVersion r' = v" "v \<noteq> TaskVersionMissing"
    and "ur_task r = Some t" "ur_task r' = Some t'" "t_id t' = t_id t" "cloneTask k t' = Inr cp'"
    and "Update k now (Some r) s = (Inr w, s')"
  shows "Update k now' (Some r') s' = (Inl ErrConcurrentModification, s')"
proof -
  obtain stored cp where st: "ts_tasks s (t_id t) = Some stored" "cloneTask k t = Inr cp"
      "te_version stored = v"
    and s': "s' = s\<lparr>ts_tasks := (ts_tasks s)(t_id t \<mapsto>
        \<lparr>te_task = in_utc cp, te_version = te_version stored + 1, te_lastUpdated = now\<rparr>)\<rparr>"
    using assms(1,3,4,8)
    by (auto simp: Update_def Let_def in_utc_def split: option.splits sum.splits if_splits)
  have "ts_tasks s' (t_id t') = Some \<lparr>te_task = in_utc cp, te_version = v + 1, te_lastUpdated = now\<rparr>"
    using s' st assms(6) by simp
  moreover have "v + 1 \<noteq> v" by simp
  ultimately show ?thesis
    using assms(2,3,5,7) by (simp add: Update_def Let_def)
qed

theorem no_lost_update_witness:
  "\<exists>s'. Update sdk1 \<lparr>unix_nano = 9, zone_off = 0\<rparr> (Some \<lparr>ur_task = Some (sample_task ''a''), ur_prevVersion = 1\<rparr>) two_tasks = (Inr 2, s') \<and>
     Update sdk1 \<lparr>unix_nano = 9, zone_off = 0\<rparr> (Some \<lparr>ur_task = Some (sample_task ''a''), ur_prevVersion = 1\<rparr>) s' = (Inl ErrConcurrentModification, s')"
proof -
  let ?r = "\<lparr>ur_task = Some (sample_task ''a''), ur_prevVersion = 1\<rparr>" and ?t = "\<lparr>unix_nano = 9, zone_off = 0\<rparr>"
  have "fst (Update sdk1 ?t (Some ?r) two_tasks) = Inr 2"
    by (simp add: Update_def two_tasks_def entry_at_def Let_def)
  then obtain s' where "Update sdk1 ?t (Some ?r) two_tasks = (Inr 2, s')" by (metis prod.collapse)
  with no_lost_update [of ?r 1 ?r "sample_task ''a''" "sample_task ''a''" sdk1 "sample_task ''a''" ?t two_tasks 2 s' ?t]
  show ?thesis by (simp add: TaskVersionMissing_def)
qed

definition outlived :: "sdk \<Rightarrow> gotime \<Rightarrow> ttl_entry \<Rightarrow> bool" where
  "outlived k now e =
     (task_terminal k (te_task e) \<and> unix_nano (te_lastUpdated e) < unix_nano now - terminalTaskTTL)"

text \<open>
  Eviction removes exactly the terminal tasks that were last updated more than
  \<open>terminalTaskTTL\<close> before \<open>now\<close>, keeps every other entry as it is, returns how many it removed
  and, when there is a push configuration store, deletes there the configurations of precisely
  those.
\<close>

theorem evict_exactly_finished:
  assumes "distinct order" "set order = dom (ts_tasks s)" "ts_pushConfigs s"
  shows "(\<forall>i. ts_tasks (snd (EvictTerminal k order now s)) i =
           (case ts_tasks s i of None \<Rightarrow> None | Some e \<Rightarrow> if outlived k now e then None else Some e)) \<and>
    fst (EvictTerminal k order now s) = card {i. \<exists>e. ts_tasks s i = Some e \<and> outlived k now e} \<and>
    set (ts_pushDeleted (snd (EvictTerminal k order now s))) =
       set (ts_pushDeleted s) \<union> {i. \<exists>e. ts_tasks s i = Some e \<and> outlived k now e}"
proof -
  let ?cut = "time_add now (- terminalTaskTTL)"
  let ?ev = "filter (\<lambda>i. case ts_tasks s i of None \<Rightarrow> False | Some e \<Rightarrow> evictable k ?cut e) order"
  have old: "evictable k ?cut e \<longleftrightarrow> outlived k now e" for e
    by (auto simp: evictable_def outlived_def time_before_def time_add_def)
  have ev: "set ?ev = {i. \<exists>e. ts_tasks s i = Some e \<and> outlived k now e}"
    using assms(2) by (auto simp: old split: option.splits)
  have len: "length ?ev = card {i. \<exists>e. ts_tasks s i = Some e \<and> outlived k now e}"
    using distinct_card [of ?ev] assms(1) unfolding ev by simp
  show ?thesis
    unfolding EvictTerminal_def Let_def fst_conv snd_conv len
    using assms(3) ev by (auto split: option.split)
qed

theorem evict_exactly_finished_witness:
  "fst (EvictTerminal sdk1 [''a'', ''b''] \<lparr>unix_nano = terminalTaskTTL + 6, zone_off = 0\<rparr> two_tasks) = 1"
proof -
  have "set [''a'', ''b''] = dom (ts_tasks two_tasks)" by (auto simp: two_tasks_def)
  moreover have "{i. \<exists>e. ts_tasks two_tasks i = Some e \<and>
      outlived sdk1 \<lparr>unix_nano = terminalTaskTTL + 6, zone_off = 0\<rparr> e} = {''a''}"
    by (auto simp: two_tasks_def outlived_def entry_at_def sample_task_def task_terminal_def sdk1_def
        sdk0_def split: if_splits)
  ultimately show ?thesis
    using evict_exactly_finished [of "[''a'', ''b'']" two_tasks sdk1 "\<lparr>unix_nano = terminalTaskTTL + 6, zone_off = 0\<rparr>"]
    by (simp add: two_tasks_def NewTTLStore_def)
qed

text \<open>
  A created task can be read back: \<open>Get\<close> returns the task with its timestamp in UTC under
  version 1, a second \<open>Create\<close> of the ID is refused without a change, and no other task is affected.
\<close>

theorem create_then_get:
  assumes "wire_stable k t" "t_id t \<notin> dom (ts_tasks s)" "Create k now (Some t) s = (res, s')"
  shows "res = Inr 1 \<and> Get k (t_id t) s' = Inr \<lparr>sd_task = in_utc t, sd_version = 1\<rparr> \<and>
    (\<exists>e. Create k now' (Some t) s' = (Inl e, s')) \<and>
    (i \<noteq> t_id t \<longrightarrow> Get k i s' = Get k i s)"
proof -
  have r: "Create k now (Some t) s = (Inr 1, s\<lparr>ts_tasks := (ts_tasks s)(t_id t \<mapsto>
      \<lparr>te_task = in_utc t, te_version = 1, te_lastUpdated = now\<rparr>)\<rparr>)"
    using assms(1,2) by (auto simp: Create_cases wire_stable_def domIff)
  then show ?thesis
    using assms ttl.create_once [OF r, of now'] by (auto simp: Get_def wire_stable_def)
qed

theorem create_then_get_witness:
  "Get sdk1 ''c'' (snd (Create sdk1 \<lparr>unix_nano = 5, zone_off = 0\<rparr> (Some (sample_task ''c'')) two_tasks)) =
     Inr \<lparr>sd_task = sample_task ''c'', sd_version = 1\<rparr>"
proof -
  have "wire_stable sdk1 (sample_task ''c'')" by (simp add: wire_stable_def)
  moreover have "t_id (sample_task ''c'') \<notin> dom (ts_tasks two_tasks)" by (simp add: two_tasks_def)
  ultimately show ?thesis
    using create_then_get [of sdk1 "sample_task ''c''" two_tasks "\<lparr>unix_nano = 5, zone_off = 0\<rparr>"]
    by (metis prod.collapse sample_task_id)
qed

end
