(* ===== verification/Executor.thy ===== *)
theory Executor
  imports Store_Steps Task_Store
begin

text \<open>
  internal/agent/executor.go: every inbound message becomes an inbox entry and an execution
  that stays WORKING until the host answers through \<open>CompleteTask\<close> or the task is canceled.

  \<open>Execute\<close> is an iterator; between its yields and lock regions other goroutines run.  An
  execution is therefore a record with the point it has reached, and every region is one
  step; whether the consumer takes a yielded event (\<open>yield\<close> returned true) is an argument.
  A waiter is a channel with one slot: its content, if any.  The events that the SDK
  constructs are parameters (\<open>event_sdk\<close>).
\<close>

section \<open>Data\<close>

definition replyArtifactName :: string where "replyArtifactName = ''reply''"

record executor =
  ex_store :: store
  ex_waiters :: "task_id \<rightharpoonup> string option"

definition NewExecutor :: "store \<Rightarrow> executor" where
  "NewExecutor s = \<lparr>ex_store = s, ex_waiters = Map.empty\<rparr>"

text \<open>The SDK's constructors: \<open>NewSubmittedTask\<close>, \<open>NewStatusUpdateEvent\<close>, \<open>NewArtifactEvent\<close>, \<open>NewMessageForTask\<close>.\<close>

record event_sdk =
  new_submitted :: "task_id \<Rightarrow> string \<Rightarrow> message \<Rightarrow> event"
  new_status :: "task_id \<Rightarrow> string \<Rightarrow> task_state \<Rightarrow> message option \<Rightarrow> event"
  new_artifact :: "task_id \<Rightarrow> string \<Rightarrow> part \<Rightarrow> artifact"
  new_message_for :: "task_id \<Rightarrow> string \<Rightarrow> part \<Rightarrow> message"

datatype yielded = Y_event event | Y_error a2a_error

datatype exec_point =
    At_start
  | At_register
  | At_deliver
  | At_wait
  | At_answer string
  | At_finish string
  | Ended

record execution =
  x_task :: task_id
  x_context :: string
  x_message :: "message option"
  x_stored :: bool
  x_point :: exec_point
  x_out :: "yielded list"

section \<open>Waiters and completion\<close>

definition registerWaiter :: "task_id \<Rightarrow> executor \<Rightarrow> a2a_error + executor" where
  "registerWaiter i ex =
     (case ex_waiters ex i of
        Some _ \<Rightarrow> Inl ErrWaiterExists
      | None \<Rightarrow> Inr (ex\<lparr>ex_waiters := (ex_waiters ex)(i \<mapsto> None)\<rparr>))"

definition unregisterWaiter :: "task_id \<Rightarrow> executor \<Rightarrow> executor" where
  "unregisterWaiter i ex = ex\<lparr>ex_waiters := (ex_waiters ex)(i := None)\<rparr>"

definition pendingWaiters :: "executor \<Rightarrow> nat" where
  "pendingWaiters ex = card (dom (ex_waiters ex))"

definition CompleteTask :: "snapshot_codec \<Rightarrow> disk_io \<Rightarrow> task_id \<Rightarrow> string \<Rightarrow> executor \<Rightarrow> a2a_error option \<times> executor" where
  "CompleteTask cd io i reply ex =
     (case dropTaskEntries cd io i (ex_store ex) of
        (droppedReply, st) \<Rightarrow>
          (let ex = ex\<lparr>ex_store := st\<rparr>
           in case ex_waiters ex i of
                None \<Rightarrow> (if droppedReply then None else Some ErrTaskNotFound, ex)
              | Some None \<Rightarrow> (None, ex\<lparr>ex_waiters := (ex_waiters ex)(i \<mapsto> Some reply)\<rparr>)
              | Some (Some _) \<Rightarrow> (Some ErrReplyPending, ex)))"

definition metadataString :: "(string \<times> json) list \<Rightarrow> string \<Rightarrow> string" where
  "metadataString meta key = (case map_of meta key of Some (JStr v) \<Rightarrow> v | _ \<Rightarrow> '''')"

section \<open>The regions of Execute\<close>

definition emit_out :: "yielded \<Rightarrow> execution \<Rightarrow> execution" where
  "emit_out y x = x\<lparr>x_out := x_out x @ [y]\<rparr>"

definition end_exec :: "execution \<Rightarrow> execution" where
  "end_exec x = x\<lparr>x_point := Ended\<rparr>"

definition exec_start :: "event_sdk \<Rightarrow> bool \<Rightarrow> execution \<Rightarrow> execution" where
  "exec_start es taken x =
     (case x_message x of
        None \<Rightarrow> end_exec (emit_out (Y_error ErrInvalidParams) x)
      | Some m \<Rightarrow>
          (if x_stored x then x\<lparr>x_point := At_register\<rparr>
           else (let x = emit_out (Y_event (new_submitted es (x_task x) (x_context x) m)) x
                 in if taken then x\<lparr>x_point := At_register\<rparr> else end_exec x)))"

definition exec_register :: "execution \<Rightarrow> executor \<Rightarrow> execution \<times> executor" where
  "exec_register x ex =
     (case registerWaiter (x_task x) ex of
        Inl e \<Rightarrow> (end_exec (emit_out (Y_error e) x), ex)
      | Inr ex' \<Rightarrow> (x\<lparr>x_point := At_deliver\<rparr>, ex'))"

definition inbound_entry :: "sdk \<Rightarrow> execution \<Rightarrow> message \<Rightarrow> inbox_entry" where
  "inbound_entry k x m =
     \<lparr>e_messageId = m_id m, e_taskId = x_task x, e_contextId = x_context x,
      e_from = metadataString (m_metadata m) ''from'', e_text = messageText k m,
      e_kind = '''', e_state = '''', e_ts = ''''\<rparr>"

definition exec_deliver ::
  "sdk \<Rightarrow> event_sdk \<Rightarrow> snapshot_codec \<Rightarrow> disk_io \<Rightarrow> bool \<Rightarrow> message \<Rightarrow> execution \<Rightarrow> executor \<Rightarrow> execution \<times> executor" where
  "exec_deliver k es cd io taken m x ex =
     (case deliverIncoming cd io (inbound_entry k x m) (ex_store ex) of
        (False, st) \<Rightarrow>
          (let notice = new_message_for es (x_task x) (x_context x)
                 (NewTextPart (''message '' @ m_id m @ '' is already queued for this agent''));
               x = emit_out (Y_event (new_status es (x_task x) (x_context x) TaskStateRejected (Some notice))) x;
               st = (if taken then st\<lparr>mets := IncTaskFailed (mets st)\<rparr> else st)
           in (end_exec x, unregisterWaiter (x_task x) (ex\<lparr>ex_store := st\<rparr>)))
      | (True, st) \<Rightarrow>
          (let x = emit_out (Y_event (new_status es (x_task x) (x_context x) TaskStateWorking None)) x;
               ex = ex\<lparr>ex_store := st\<rparr>
           in if taken then (x\<lparr>x_point := At_wait\<rparr>, ex)
              else (end_exec x, unregisterWaiter (x_task x) ex)))"

text \<open>The select: a reply is received from the channel, or the context is canceled.\<close>

definition exec_receive :: "execution \<Rightarrow> executor \<Rightarrow> (execution \<times> executor) option" where
  "exec_receive x ex =
     (case ex_waiters ex (x_task x) of
        Some (Some reply) \<Rightarrow>
          Some (x\<lparr>x_point := At_answer reply\<rparr>, ex\<lparr>ex_waiters := (ex_waiters ex)(x_task x \<mapsto> None)\<rparr>)
      | _ \<Rightarrow> None)"

definition exec_canceled :: "execution \<Rightarrow> executor \<Rightarrow> execution \<times> executor" where
  "exec_canceled x ex = (end_exec x, unregisterWaiter (x_task x) ex)"

definition exec_answer :: "event_sdk \<Rightarrow> bool \<Rightarrow> string \<Rightarrow> execution \<Rightarrow> executor \<Rightarrow> execution \<times> executor" where
  "exec_answer es taken reply x ex =
     (let a = (new_artifact es (x_task x) (x_context x) (NewTextPart reply))\<lparr>a_name := replyArtifactName\<rparr>;
          x = emit_out (Y_event (Ev_artifact (x_task x) a True)) x
      in if taken then (x\<lparr>x_point := At_finish reply\<rparr>, ex)
         else (end_exec x, unregisterWaiter (x_task x) ex))"

definition exec_finish :: "event_sdk \<Rightarrow> bool \<Rightarrow> string \<Rightarrow> execution \<Rightarrow> executor \<Rightarrow> execution \<times> executor" where
  "exec_finish es taken reply x ex =
     (let answer = new_message_for es (x_task x) (x_context x) (NewTextPart reply);
          x = emit_out (Y_event (new_status es (x_task x) (x_context x) TaskStateCompleted (Some answer))) x;
          st = ex_store ex;
          st = (if taken then st\<lparr>mets := IncTaskCompleted (mets st)\<rparr> else st)
      in (end_exec x, unregisterWaiter (x_task x) (ex\<lparr>ex_store := st\<rparr>)))"

definition Cancel :: "event_sdk \<Rightarrow> bool \<Rightarrow> task_id \<Rightarrow> string \<Rightarrow> executor \<Rightarrow> yielded list \<times> executor" where
  "Cancel es taken i ctx ex =
     (let st = ex_store ex
      in ([Y_event (new_status es i ctx TaskStateCanceled None)],
          if taken then ex\<lparr>ex_store := st\<lparr>mets := IncTaskFailed (mets st)\<rparr>\<rparr> else ex))"

text \<open>
  The step of one execution: which region runs is given by the point it has reached;
  \<open>canceled\<close> says which branch of the select is taken.  \<open>None\<close>: it blocks or has ended.
\<close>

definition exec_step ::
  "sdk \<Rightarrow> event_sdk \<Rightarrow> snapshot_codec \<Rightarrow> disk_io \<Rightarrow> bool \<Rightarrow> bool \<Rightarrow> execution \<Rightarrow> executor \<Rightarrow>
   (execution \<times> executor) option" where
  "exec_step k es cd io taken canceled x ex =
     (case x_point x of
        At_start \<Rightarrow> Some (exec_start es taken x, ex)
      | At_register \<Rightarrow> Some (exec_register x ex)
      | At_deliver \<Rightarrow> map_option (\<lambda>m. exec_deliver k es cd io taken m x ex) (x_message x)
      | At_wait \<Rightarrow> (if canceled then Some (exec_canceled x ex) else exec_receive x ex)
      | At_answer r \<Rightarrow> Some (exec_answer es taken r x ex)
      | At_finish r \<Rightarrow> Some (exec_finish es taken r x ex)
      | Ended \<Rightarrow> None)"

section \<open>The system\<close>

record exec_system =
  sy_executor :: executor
  sy_runs :: "execution list"
  sy_given :: "(task_id \<times> string) list"

definition new_execution :: "task_id \<Rightarrow> string \<Rightarrow> message option \<Rightarrow> bool \<Rightarrow> execution" where
  "new_execution i ctx m stored =
     \<lparr>x_task = i, x_context = ctx, x_message = m, x_stored = stored, x_point = At_start, x_out = []\<rparr>"

text \<open>
  Executions start, take their steps in any order, replies come in, and the store changes.
  History: the replies that \<open>CompleteTask\<close> handed to a waiter.
\<close>

inductive sys_step :: "sdk \<Rightarrow> event_sdk \<Rightarrow> snapshot_codec \<Rightarrow> exec_system \<Rightarrow> exec_system \<Rightarrow> bool" for k es cd where
  sys_spawn: "sys_step k es cd y (y\<lparr>sy_runs := sy_runs y @ [new_execution i ctx m stored]\<rparr>)"
| sys_exec: "n < length (sy_runs y) \<Longrightarrow>
    exec_step k es cd io taken canceled (sy_runs y ! n) (sy_executor y) = Some (x, ex) \<Longrightarrow>
    sys_step k es cd y (y\<lparr>sy_executor := ex, sy_runs := (sy_runs y)[n := x]\<rparr>)"
| sys_complete: "CompleteTask cd io i reply (sy_executor y) = (res, ex) \<Longrightarrow>
    sys_step k es cd y (y\<lparr>sy_executor := ex, sy_given := sy_given y @
      (if ex_waiters (sy_executor y) i = Some None then [(i, reply)] else [])\<rparr>)"
| sys_cancel: "Cancel es taken i ctx (sy_executor y) = (out, ex) \<Longrightarrow>
    sys_step k es cd y (y\<lparr>sy_executor := ex\<rparr>)"
| sys_store: "sys_step k es cd y (y\<lparr>sy_executor := (sy_executor y)\<lparr>ex_store := st\<rparr>\<rparr>)"

abbreviation sys_steps :: "sdk \<Rightarrow> event_sdk \<Rightarrow> snapshot_codec \<Rightarrow> exec_system \<Rightarrow> exec_system \<Rightarrow> bool" where
  "sys_steps k es cd \<equiv> (sys_step k es cd)\<^sup>*\<^sup>*"

definition sys0 :: "store \<Rightarrow> exec_system" where
  "sys0 s = \<lparr>sy_executor = NewExecutor s, sy_runs = [], sy_given = []\<rparr>"

section \<open>Invariants\<close>

text \<open>An execution owns its task's waiter from its registration until it ends.\<close>

definition owns :: "task_id \<Rightarrow> execution \<Rightarrow> bool" where
  "owns i x = (x_task x = i \<and>
     (case x_point x of At_start \<Rightarrow> False | At_register \<Rightarrow> False | Ended \<Rightarrow> False | _ \<Rightarrow> True))"

definition waiters_owned :: "exec_system \<Rightarrow> bool" where
  "waiters_owned y =
     (\<forall>i. length (filter (owns i) (sy_runs y)) = (if ex_waiters (sy_executor y) i = None then 0 else 1))"

text \<open>The events of one execution, by the point it has reached.\<close>

definition submitted_out :: "event_sdk \<Rightarrow> execution \<Rightarrow> yielded list" where
  "submitted_out es x =
     (case x_message x of
        None \<Rightarrow> []
      | Some m \<Rightarrow> if x_stored x then [] else [Y_event (new_submitted es (x_task x) (x_context x) m)])"

definition working_out :: "event_sdk \<Rightarrow> execution \<Rightarrow> yielded" where
  "working_out es x = Y_event (new_status es (x_task x) (x_context x) TaskStateWorking None)"

definition artifact_out :: "event_sdk \<Rightarrow> execution \<Rightarrow> string \<Rightarrow> yielded" where
  "artifact_out es x r = Y_event (Ev_artifact (x_task x)
     ((new_artifact es (x_task x) (x_context x) (NewTextPart r))\<lparr>a_name := replyArtifactName\<rparr>) True)"

definition completed_out :: "event_sdk \<Rightarrow> execution \<Rightarrow> string \<Rightarrow> yielded" where
  "completed_out es x r = Y_event (new_status es (x_task x) (x_context x) TaskStateCompleted
     (Some (new_message_for es (x_task x) (x_context x) (NewTextPart r))))"

definition rejected_out :: "event_sdk \<Rightarrow> execution \<Rightarrow> message \<Rightarrow> yielded" where
  "rejected_out es x m = Y_event (new_status es (x_task x) (x_context x) TaskStateRejected
     (Some (new_message_for es (x_task x) (x_context x)
        (NewTextPart (''message '' @ m_id m @ '' is already queued for this agent'')))))"

lemmas out_defs = submitted_out_def working_out_def artifact_out_def completed_out_def rejected_out_def

definition finished_outs :: "event_sdk \<Rightarrow> (task_id \<times> string) set \<Rightarrow> execution \<Rightarrow> bool" where
  "finished_outs es given x =
     (if x_message x = None then x_out x = [Y_error ErrInvalidParams]
      else (\<exists>tl. x_out x = submitted_out es x @ tl \<and>
             (tl = [] \<or> tl = [Y_error ErrWaiterExists] \<or> tl = [rejected_out es x (the (x_message x))] \<or>
              tl = [working_out es x] \<or>
              (\<exists>r. (x_task x, r) \<in> given \<and>
                 (tl = [working_out es x, artifact_out es x r] \<or>
                  tl = [working_out es x, artifact_out es x r, completed_out es x r])))))"

definition outs_at :: "event_sdk \<Rightarrow> (task_id \<times> string) set \<Rightarrow> execution \<Rightarrow> bool" where
  "outs_at es given x =
     (case x_point x of
        At_start \<Rightarrow> x_out x = []
      | At_register \<Rightarrow> x_message x \<noteq> None \<and> x_out x = submitted_out es x
      | At_deliver \<Rightarrow> x_message x \<noteq> None \<and> x_out x = submitted_out es x
      | At_wait \<Rightarrow> x_message x \<noteq> None \<and> x_out x = submitted_out es x @ [working_out es x]
      | At_answer r \<Rightarrow> x_message x \<noteq> None \<and> (x_task x, r) \<in> given \<and>
          x_out x = submitted_out es x @ [working_out es x]
      | At_finish r \<Rightarrow> x_message x \<noteq> None \<and> (x_task x, r) \<in> given \<and>
          x_out x = submitted_out es x @ [working_out es x, artifact_out es x r]
      | Ended \<Rightarrow> finished_outs es given x)"

definition replies_given :: "exec_system \<Rightarrow> bool" where
  "replies_given y = (\<forall>i r. ex_waiters (sy_executor y) i = Some (Some r) \<longrightarrow> (i, r) \<in> set (sy_given y))"

definition sys_ok :: "event_sdk \<Rightarrow> exec_system \<Rightarrow> bool" where
  "sys_ok es y = (waiters_owned y \<and> replies_given y \<and> (\<forall>x \<in> set (sy_runs y). outs_at es (set (sy_given y)) x))"

lemmas exec_defs =
  exec_start_def exec_register_def exec_deliver_def exec_receive_def exec_canceled_def exec_answer_def
  exec_finish_def emit_out_def end_exec_def registerWaiter_def unregisterWaiter_def

lemma sys0_ok: "sys_ok es (sys0 s)"
  by (simp add: sys_ok_def sys0_def NewExecutor_def waiters_owned_def replies_given_def)

lemma length_filter_update:
  assumes "n < length xs"
  shows "length (filter P (xs[n := x])) + (if P (xs ! n) then 1 else 0) =
         length (filter P xs) + (if P x then 1 else 0)"
proof -
  have xs: "xs = take n xs @ xs ! n # drop (Suc n) xs" using assms by (simp add: id_take_nth_drop)
  have "filter P xs = filter P (take n xs) @ (if P (xs ! n) then [xs ! n] else []) @ filter P (drop (Suc n) xs)"
    by (subst xs) simp
  then show ?thesis using assms by (simp add: upd_conv_take_nth_drop)
qed

text \<open>What a region does to the execution's point and to the waiters.\<close>

datatype effect = Same | Add | Remove | Take

definition waiters_after :: "effect \<Rightarrow> task_id \<Rightarrow> (task_id \<rightharpoonup> string option) \<Rightarrow> (task_id \<rightharpoonup> string option)" where
  "waiters_after ef i w =
     (case ef of Same \<Rightarrow> w | Add \<Rightarrow> w(i \<mapsto> None) | Remove \<Rightarrow> w(i := None) | Take \<Rightarrow> w(i \<mapsto> None))"

definition region_effect :: "exec_point \<Rightarrow> exec_point \<Rightarrow> effect" where
  "region_effect p q =
     (case q of
        Ended \<Rightarrow> (if p = At_start \<or> p = At_register then Same else Remove)
      | At_deliver \<Rightarrow> Add
      | At_answer _ \<Rightarrow> Take
      | _ \<Rightarrow> Same)"

definition region_ok :: "execution \<Rightarrow> (task_id \<rightharpoonup> string option) \<Rightarrow> exec_point \<Rightarrow> bool" where
  "region_ok x w q =
     (case x_point x of
        At_start \<Rightarrow> q = At_register \<or> q = Ended
      | At_register \<Rightarrow> (if w (x_task x) = None then q = At_deliver else q = Ended)
      | At_deliver \<Rightarrow> q = At_wait \<or> q = Ended
      | At_wait \<Rightarrow> q = Ended \<or> (\<exists>r. q = At_answer r \<and> w (x_task x) = Some (Some r))
      | At_answer r \<Rightarrow> q = At_finish r \<or> q = Ended
      | At_finish r \<Rightarrow> q = Ended
      | Ended \<Rightarrow> False)"

lemma region_effects:
  assumes "exec_step k es cd io taken canceled x ex = Some (x', ex')"
  shows "x_task x' = x_task x \<and> x_context x' = x_context x \<and> x_message x' = x_message x \<and>
    x_stored x' = x_stored x \<and> region_ok x (ex_waiters ex) (x_point x') \<and>
    ex_waiters ex' = waiters_after (region_effect (x_point x) (x_point x')) (x_task x) (ex_waiters ex)"
proof (cases "x_point x")
  case At_start
  then show ?thesis using assms
    by (auto simp: exec_step_def exec_start_def emit_out_def end_exec_def region_ok_def region_effect_def
        waiters_after_def Let_def split: option.splits if_splits)
next
  case At_register
  then show ?thesis using assms
    by (auto simp: exec_step_def exec_register_def registerWaiter_def emit_out_def end_exec_def region_ok_def
        region_effect_def waiters_after_def split: option.splits)
next
  case At_deliver
  then obtain m where m: "exec_deliver k es cd io taken m x ex = (x', ex')"
    using assms by (auto simp: exec_step_def)
  then show ?thesis using At_deliver
    by (cases "fst (deliverIncoming cd io (inbound_entry k x m) (ex_store ex))"; cases taken)
       (auto simp: exec_deliver_def emit_out_def end_exec_def unregisterWaiter_def region_ok_def
        region_effect_def waiters_after_def Let_def split: prod.splits bool.splits)
next
  case At_wait
  then show ?thesis using assms
    by (auto simp: exec_step_def exec_canceled_def exec_receive_def end_exec_def unregisterWaiter_def region_ok_def
        region_effect_def waiters_after_def split: option.splits if_splits)
next
  case (At_answer r)
  then show ?thesis using assms
    by (auto simp: exec_step_def exec_answer_def emit_out_def end_exec_def unregisterWaiter_def region_ok_def
        region_effect_def waiters_after_def Let_def split: if_splits)
next
  case (At_finish r)
  then show ?thesis using assms
    by (auto simp: exec_step_def exec_finish_def emit_out_def end_exec_def unregisterWaiter_def region_ok_def
        region_effect_def waiters_after_def Let_def split: if_splits)
qed (use assms in \<open>simp add: exec_step_def\<close>)

lemma owner_count:
  fixes w :: "task_id \<rightharpoonup> string option"
  assumes ok: "region_ok x w (x_point x')" and task: "x_task x' = x_task x"
    and w': "w' = waiters_after (region_effect (x_point x) (x_point x')) (x_task x) w"
    and n: "n + (if owns i x then 1 else 0) = m + (if owns i x' then 1 else (0 :: nat))"
    and m: "m = (if w i = None then 0 else 1)" and pos: "owns i x \<Longrightarrow> 0 < m"
  shows "n = (if w' i = None then 0 else 1)"
proof (cases "x_task x = i")
  case False
  then have "\<not> owns i x" "\<not> owns i x'" "w' i = w i"
    using task w' by (auto simp: owns_def waiters_after_def split: effect.split)
  then show ?thesis using n m by simp
next
  case True
  then show ?thesis
    using assms
    by (cases "x_point x"; cases "x_point x'")
       (auto simp: owns_def region_ok_def region_effect_def waiters_after_def split: if_splits)
qed

lemma exec_keeps_owned:
  assumes "waiters_owned y" "n < length (sy_runs y)"
    and "exec_step k es cd io taken canceled (sy_runs y ! n) (sy_executor y) = Some (x', ex')"
  shows "waiters_owned (y\<lparr>sy_executor := ex', sy_runs := (sy_runs y)[n := x']\<rparr>)"
  unfolding waiters_owned_def
proof
  fix i
  let ?x = "sy_runs y ! n"
  note r = region_effects [OF assms(3)]
  have pos: "0 < length (filter (owns i) (sy_runs y))" if "owns i ?x"
    using that assms(2) by (simp add: filter_empty_conv) (metis nth_mem)
  have "length (filter (owns i) ((sy_runs y)[n := x'])) = (if ex_waiters ex' i = None then 0 else 1)"
  proof (rule owner_count [of ?x "ex_waiters (sy_executor y)" x' _ _ _ "length (filter (owns i) (sy_runs y))"])
    show "length (filter (owns i) ((sy_runs y)[n := x'])) + (if owns i ?x then 1 else 0) =
        length (filter (owns i) (sy_runs y)) + (if owns i x' then 1 else 0)"
      by (rule length_filter_update [OF assms(2)])
    show "length (filter (owns i) (sy_runs y)) = (if ex_waiters (sy_executor y) i = None then 0 else 1)"
      using assms(1) by (simp add: waiters_owned_def)
  qed (use r pos in auto)
  then show "length (filter (owns i) (sy_runs (y\<lparr>sy_executor := ex', sy_runs := (sy_runs y)[n := x']\<rparr>))) =
      (if ex_waiters (sy_executor (y\<lparr>sy_executor := ex', sy_runs := (sy_runs y)[n := x']\<rparr>)) i = None then 0 else 1)"
    by simp
qed

lemma exec_keeps_outs:
  assumes "exec_step k es cd io taken canceled x ex = Some (x', ex')" "outs_at es given x"
    and "\<And>r. ex_waiters ex (x_task x) = Some (Some r) \<Longrightarrow> (x_task x, r) \<in> given"
  shows "outs_at es given x'"
proof (cases "x_point x")
  case At_start
  then show ?thesis using assms
    by (cases "x_message x")
       (auto simp: exec_step_def exec_start_def emit_out_def end_exec_def outs_at_def finished_outs_def
        submitted_out_def Let_def)
next
  case At_register
  then show ?thesis using assms
    by (auto simp: exec_step_def exec_register_def registerWaiter_def emit_out_def end_exec_def outs_at_def
        finished_outs_def submitted_out_def split: option.splits)
next
  case At_deliver
  then obtain m where m: "exec_deliver k es cd io taken m x ex = (x', ex')" "x_message x = Some m"
    using assms by (auto simp: exec_step_def)
  then show ?thesis using At_deliver assms(2)
    by (cases "fst (deliverIncoming cd io (inbound_entry k x m) (ex_store ex))"; cases taken)
       (auto simp: exec_deliver_def emit_out_def end_exec_def outs_at_def finished_outs_def out_defs
        Let_def split: prod.splits bool.splits)
next
  case At_wait
  then show ?thesis using assms
    by (auto simp: exec_step_def exec_canceled_def exec_receive_def end_exec_def outs_at_def finished_outs_def
        out_defs split: option.splits if_splits)
next
  case (At_answer r)
  then show ?thesis using assms
    by (auto simp: exec_step_def exec_answer_def emit_out_def end_exec_def outs_at_def finished_outs_def
        out_defs Let_def split: if_splits)
next
  case (At_finish r)
  then show ?thesis using assms
    by (auto simp: exec_step_def exec_finish_def emit_out_def end_exec_def outs_at_def finished_outs_def
        out_defs Let_def split: if_splits)
qed (use assms in \<open>simp add: exec_step_def\<close>)

lemma outs_at_mono: "outs_at es given x \<Longrightarrow> given \<subseteq> given' \<Longrightarrow> outs_at es given' x"
  by (cases "x_point x") (simp_all add: outs_at_def finished_outs_def split: if_splits, blast+)

lemma exec_keeps_given:
  assumes "exec_step k es cd io taken canceled x ex = Some (x', ex')" "ex_waiters ex' i = Some (Some r)"
  shows "ex_waiters ex i = Some (Some r)"
  using region_effects [OF assms(1)] assms(2)
  by (auto simp: waiters_after_def split: effect.splits if_splits)

lemma CompleteTask_waiters:
  "ex_waiters (snd (CompleteTask cd io i reply ex)) =
     (if ex_waiters ex i = Some None then (ex_waiters ex)(i \<mapsto> Some reply) else ex_waiters ex)"
  by (auto simp: CompleteTask_def Let_def split: prod.split option.split)

lemma sys_step_ok:
  assumes "sys_step k es cd y y'" "sys_ok es y"
  shows "sys_ok es y'"
  using assms(1)
proof cases
  case (sys_spawn i ctx m stored)
  then show ?thesis using assms(2)
    by (auto simp: sys_ok_def waiters_owned_def replies_given_def new_execution_def owns_def outs_at_def)
next
  case (sys_exec n io taken canceled x ex)
  have given: "\<And>i r. ex_waiters (sy_executor y) i = Some (Some r) \<Longrightarrow> (i, r) \<in> set (sy_given y)"
    using assms(2) by (simp add: sys_ok_def replies_given_def)
  have "outs_at es (set (sy_given y)) (sy_runs y ! n)" using assms(2) sys_exec(2) by (simp add: sys_ok_def)
  then have "outs_at es (set (sy_given y)) x" by (rule exec_keeps_outs [OF sys_exec(3) _ given])
  moreover have "waiters_owned y'"
    using exec_keeps_owned [OF _ sys_exec(2,3)] assms(2) by (simp add: sys_exec(1) sys_ok_def)
  ultimately show ?thesis
    using assms(2) given exec_keeps_given [OF sys_exec(3)] set_update_subset_insert [of "sy_runs y" n x]
    by (auto simp: sys_exec(1) sys_ok_def replies_given_def)
next
  case (sys_complete io i reply res ex)
  have w: "ex_waiters ex = (if ex_waiters (sy_executor y) i = Some None
      then (ex_waiters (sy_executor y))(i \<mapsto> Some reply) else ex_waiters (sy_executor y))"
    using CompleteTask_waiters [of cd io i reply "sy_executor y"] sys_complete(2) by simp
  have "waiters_owned y'" "replies_given y'"
    using assms(2) by (auto simp: sys_complete(1) w sys_ok_def waiters_owned_def replies_given_def)
  moreover have "\<forall>x \<in> set (sy_runs y'). outs_at es (set (sy_given y')) x"
    using assms(2) outs_at_mono by (auto simp: sys_complete(1) sys_ok_def)
  ultimately show ?thesis by (simp add: sys_ok_def)
next
  case (sys_cancel taken i ctx out ex)
  have "ex_waiters ex = ex_waiters (sy_executor y)"
    using sys_cancel(2) by (auto simp: Cancel_def Let_def)
  then show ?thesis using assms(2) by (simp add: sys_cancel(1) sys_ok_def waiters_owned_def replies_given_def)
next
  case (sys_store st)
  then show ?thesis using assms(2) by (simp add: sys_ok_def waiters_owned_def replies_given_def)
qed

lemma sys_steps_ok: "sys_steps k es cd (sys0 s) y \<Longrightarrow> sys_ok es y"
  by (induction rule: rtranclp_induct) (auto intro: sys0_ok sys_step_ok)

section \<open>Running the system\<close>

datatype command =
    C_spawn task_id string "message option" bool
  | C_exec nat bool bool
  | C_complete task_id string

fun run_command :: "sdk \<Rightarrow> event_sdk \<Rightarrow> snapshot_codec \<Rightarrow> disk_io \<Rightarrow> command \<Rightarrow> exec_system \<Rightarrow> exec_system option" where
  "run_command k es cd io (C_spawn i ctx m stored) y =
     Some (y\<lparr>sy_runs := sy_runs y @ [new_execution i ctx m stored]\<rparr>)"
| "run_command k es cd io (C_exec n taken canceled) y =
     (if n < length (sy_runs y) then
        (case exec_step k es cd io taken canceled (sy_runs y ! n) (sy_executor y) of
           None \<Rightarrow> None
         | Some (x, ex) \<Rightarrow> Some (y\<lparr>sy_executor := ex, sy_runs := (sy_runs y)[n := x]\<rparr>))
      else None)"
| "run_command k es cd io (C_complete i reply) y =
     (case CompleteTask cd io i reply (sy_executor y) of
        (res, ex) \<Rightarrow> Some (y\<lparr>sy_executor := ex, sy_given := sy_given y @
          (if ex_waiters (sy_executor y) i = Some None then [(i, reply)] else [])\<rparr>))"

fun run_commands :: "sdk \<Rightarrow> event_sdk \<Rightarrow> snapshot_codec \<Rightarrow> disk_io \<Rightarrow> command list \<Rightarrow> exec_system \<Rightarrow> exec_system option" where
  "run_commands k es cd io [] y = Some y"
| "run_commands k es cd io (c # cs) y =
     (case run_command k es cd io c y of None \<Rightarrow> None | Some y' \<Rightarrow> run_commands k es cd io cs y')"

lemma run_command_step: "run_command k es cd io c y = Some y' \<Longrightarrow> sys_step k es cd y y'"
proof (cases c)
  case (C_complete i reply)
  assume run: "run_command k es cd io c y = Some y'"
  obtain res ex where c: "CompleteTask cd io i reply (sy_executor y) = (res, ex)" by fastforce
  show ?thesis using sys_complete [OF c, of k es] run c C_complete by simp
qed (auto intro: sys_step.intros split: if_splits option.splits)

lemma run_commands_steps: "run_commands k es cd io cs y = Some y' \<Longrightarrow> sys_steps k es cd y y'"
proof (induction cs arbitrary: y)
  case (Cons c cs)
  then show ?case
    by (auto split: option.splits intro: converse_rtranclp_into_rtranclp run_command_step)
qed simp

text \<open>A sample SDK and message.\<close>

definition es0 :: event_sdk where
  "es0 = \<lparr>new_submitted = (\<lambda>i c m. Ev_task \<lparr>t_id = i, t_contextId = c,
            t_status = \<lparr>st_state = TaskStateSubmitted, st_message = None, st_timestamp = None\<rparr>,
            t_artifacts = [], t_history = [Some m], t_metadata = []\<rparr>),
          new_status = (\<lambda>i c st m. Ev_status i \<lparr>st_state = st, st_message = m, st_timestamp = None\<rparr>),
          new_artifact = (\<lambda>i c p. \<lparr>a_id = '''', a_name = '''', a_parts = [Some p]\<rparr>),
          new_message_for = (\<lambda>i c p. \<lparr>m_id = '''', m_contextId = c, m_taskId = i, m_role = RoleAgent,
            m_parts = [Some p], m_metadata = []\<rparr>)\<rparr>"

definition ping :: message where
  "ping = \<lparr>m_id = ''m1'', m_contextId = ''c'', m_taskId = ''t1'', m_role = RoleUser,
     m_parts = [Some (NewTextPart ''ping'')], m_metadata = [(''from'', JStr ''bob'')]\<rparr>"

definition answered :: "command list" where
  "answered = [C_spawn ''t1'' ''c'' (Some ping) False, C_exec 0 True False, C_exec 0 True False,
     C_exec 0 True False, C_complete ''t1'' ''pong'', C_exec 0 True False, C_exec 0 True False,
     C_exec 0 True False]"

definition run0 :: "command list \<Rightarrow> exec_system option" where
  "run0 cs = run_commands sdk0 es0 snapshot_json io0 cs (sys0 NewStore)"

lemmas eval_exec =
  run0_def sys0_def NewExecutor_def NewStore_def new_execution_def exec_step_def exec_defs Let_def
  deliverIncoming_def appendInboxLocked_def inboxContainsLocked_def persistInboxLocked_def
  CompleteTask_def dropTaskEntries_def inbound_entry_def messageText_def partText_def
  metadataString_def

lemma answered_run:
  "\<exists>y x. run0 answered = Some y \<and> sy_runs y = [x] \<and> x_point x = Ended \<and> x_message x = Some ping \<and>
     x_task x = ''t1'' \<and> sy_given y = [(''t1'', ''pong'')] \<and> length (x_out x) = 4 \<and>
     submitted_out es0 x = [hd (x_out x)]"
  by (simp add: answered_def eval_exec submitted_out_def ping_def)

section \<open>Properties\<close>

text \<open>
  C6. The life of a task: whatever the interleaving, an execution for a message yields
  (after the submitted task, when the task is new) either the error that a waiter exists, or
  the rejection of a duplicate message, or a prefix of WORKING, the reply artifact, COMPLETED,
  where artifact and completion carry one reply that \<open>CompleteTask\<close> handed over for this task.
\<close>

theorem execution_lifecycle:
  assumes "sys_steps k es cd (sys0 s) y" "x \<in> set (sy_runs y)" "x_message x = Some m"
  shows "x_out x = submitted_out es x @ [Y_error ErrWaiterExists] \<or>
    x_out x = submitted_out es x @ [rejected_out es x m] \<or>
    (\<exists>r. prefix (x_out x) (submitted_out es x @ [working_out es x, artifact_out es x r, completed_out es x r]) \<and>
       (length (submitted_out es x) + 1 < length (x_out x) \<longrightarrow> (x_task x, r) \<in> set (sy_given y)))"
proof -
  have "outs_at es (set (sy_given y)) x" using sys_steps_ok [OF assms(1)] assms(2) by (simp add: sys_ok_def)
  then show ?thesis
    using assms(3)
    by (cases "x_point x") (auto simp: outs_at_def finished_outs_def)
qed

theorem execution_lifecycle_witness:
  "\<exists>y x. run0 answered = Some y \<and> x \<in> set (sy_runs y) \<and>
     x_out x = submitted_out es0 x @ [working_out es0 x, artifact_out es0 x ''pong'', completed_out es0 x ''pong'']"
proof -
  obtain y x where r: "run0 answered = Some y" "sy_runs y = [x]" "x_message x = Some ping" "x_task x = ''t1''"
      "sy_given y = [(''t1'', ''pong'')]" "length (x_out x) = 4" "submitted_out es0 x = [hd (x_out x)]"
    using answered_run by auto
  have "sys_steps sdk0 es0 snapshot_json (sys0 NewStore) y"
    using r(1) run_commands_steps by (simp add: run0_def)
  note life = execution_lifecycle [OF this, of x ping]
  obtain a b c d where out: "x_out x = [a, b, c, d]"
    using r(6) by (auto simp: length_Suc_conv numeral_eq_Suc)
  have sub: "submitted_out es0 x = [a]" using r(7) out by simp
  have "x_out x = submitted_out es0 x @ [working_out es0 x, artifact_out es0 x ''pong'', completed_out es0 x ''pong'']"
    using life r(2-5) unfolding out sub by auto
  then show ?thesis using r(1,2) by auto
qed

text \<open>
  C15. Waiters are not leaked and not shared: in every reachable state a waiter exists for a
  task exactly when an execution of that task is between registration and its end, there is
  never more than one such execution, and once all executions have ended no waiter is left.
\<close>

theorem waiters_match_executions:
  assumes "sys_steps k es cd (sys0 s) y"
  shows "(ex_waiters (sy_executor y) i \<noteq> None \<longleftrightarrow> (\<exists>x \<in> set (sy_runs y). owns i x)) \<and>
    length (filter (owns i) (sy_runs y)) \<le> 1 \<and>
    ((\<forall>x \<in> set (sy_runs y). x_point x = Ended) \<longrightarrow> pendingWaiters (sy_executor y) = 0)"
proof -
  have own: "length (filter (owns j) (sy_runs y)) = (if ex_waiters (sy_executor y) j = None then 0 else 1)" for j
    using sys_steps_ok [OF assms] by (simp add: sys_ok_def waiters_owned_def)
  have iff: "ex_waiters (sy_executor y) j \<noteq> None \<longleftrightarrow> (\<exists>x \<in> set (sy_runs y). owns j x)" for j
    using own [of j] by (cases "filter (owns j) (sy_runs y)") (auto simp: filter_empty_conv filter_eq_Cons_iff split: if_splits)
  have "pendingWaiters (sy_executor y) = 0" if "\<forall>x \<in> set (sy_runs y). x_point x = Ended"
  proof -
    have "dom (ex_waiters (sy_executor y)) = {}" using iff that by (auto simp: owns_def)
    then show ?thesis by (simp add: pendingWaiters_def)
  qed
  then show ?thesis using iff own [of i] by simp
qed

theorem waiters_match_executions_witness:
  "\<exists>y. run0 answered = Some y \<and> pendingWaiters (sy_executor y) = 0"
proof -
  obtain y x where r: "run0 answered = Some y" "sy_runs y = [x]" "x_point x = Ended"
    using answered_run by auto
  have "sys_steps sdk0 es0 snapshot_json (sys0 NewStore) y"
    using r(1) run_commands_steps by (simp add: run0_def)
  from waiters_match_executions [OF this, of "''t1''"] r show ?thesis by auto
qed

text \<open>
  \<open>CompleteTask\<close> on every branch: the task's inbox entries are dropped first, in every
  case.  A free slot takes the reply; an occupied slot keeps its reply and the call is refused
  with \<open>ErrReplyPending\<close>; without a waiter the call succeeds exactly when it dropped a
  synthetic reply and otherwise reports \<open>ErrTaskNotFound\<close>.
\<close>

theorem complete_task_spec:
  "let (res, ex') = CompleteTask cd io i reply ex
   in inbox (ex_store ex') = filter (\<lambda>e. e_taskId e \<noteq> i) (inbox (ex_store ex)) \<and>
      (case ex_waiters ex i of
         Some None \<Rightarrow> res = None \<and> ex_waiters ex' = (ex_waiters ex)(i \<mapsto> Some reply)
       | Some (Some old) \<Rightarrow> res = Some ErrReplyPending \<and> ex_waiters ex' i = Some (Some old)
       | None \<Rightarrow> ex_waiters ex' = ex_waiters ex \<and>
           res = (if \<exists>e \<in> set (inbox (ex_store ex)). e_taskId e = i \<and> isSyntheticReply e
                  then None else Some ErrTaskNotFound))"
proof -
  obtain dr st where d: "dropTaskEntries cd io i (ex_store ex) = (dr, st)" by fastforce
  have dr: "dr \<longleftrightarrow> (\<exists>e \<in> set (inbox (ex_store ex)). e_taskId e = i \<and> isSyntheticReply e)"
    using d by (auto simp: dropTaskEntries_def Let_def list_ex_iff)
  have "filter (\<lambda>e. e_taskId e \<noteq> i) (inbox (ex_store ex)) = inbox (ex_store ex)"
    if "\<not> list_ex (\<lambda>e. e_taskId e = i) (inbox (ex_store ex))"
    using that by (auto simp: list_ex_iff intro: filter_True)
  then have st: "inbox st = filter (\<lambda>e. e_taskId e \<noteq> i) (inbox (ex_store ex))"
    using d by (auto simp: dropTaskEntries_def Let_def split: if_splits)
  show ?thesis
    using d dr st by (auto simp: CompleteTask_def Let_def split: option.split)
qed


definition waiting :: execution where
  "waiting = (new_execution ''t1'' ''c'' (Some ping) True)\<lparr>x_point := At_wait\<rparr>"

definition ex_waiting :: executor where
  "ex_waiting = (NewExecutor NewStore)\<lparr>ex_waiters := [''t1'' \<mapsto> Some ''pong'']\<rparr>"

lemma waiting_ready:
  "x_point waiting = At_wait" "ex_waiters ex_waiting (x_task waiting) = Some (Some ''pong'')"
  by (simp_all add: waiting_def ex_waiting_def new_execution_def)



end
