(* ===== verification/Go_Net.thy ===== *)
theory Go_Net
  imports Go_Prelude
begin

text \<open>
  Answers of an HTTP client, and package net as the push sender uses it: \<open>SplitHostPort\<close>,
  \<open>ParseIP\<close> and the classification of addresses.  An address is the list of its 16 bytes, IPv4 addresses in mapped form, which
  is what \<open>ParseIP\<close> returns.
\<close>

unbundle bit_operations_syntax

section \<open>HTTP\<close>

text \<open>An answer of the network: its status, the bytes of the body that arrive, whether the body breaks off.\<close>

datatype net_answer = Net_error | Answer nat string bool

section \<open>Host and port\<close>

definition last_index :: "string \<Rightarrow> char \<Rightarrow> nat option" where
  "last_index s c = map_option (\<lambda>i. length s - Suc i) (str_index (rev s) [c])"

definition SplitHostPort :: "string \<Rightarrow> (string \<times> string) option" where
  "SplitHostPort hp =
     (case last_index hp (CHR '':'') of
        None \<Rightarrow> None
      | Some i \<Rightarrow>
          (let port = drop (Suc i) hp in
           if has_prefix hp ''['' then
             (case str_index hp '']'' of
                None \<Rightarrow> None
              | Some e \<Rightarrow>
                  if Suc e \<noteq> i then None
                  else if CHR ''['' \<in> set (drop 1 hp) \<or> CHR '']'' \<in> set (drop (Suc e) hp) then None
                  else Some (take (e - 1) (drop 1 hp), port))
           else if CHR '':'' \<in> set (take i hp) then None
           else if CHR ''['' \<in> set hp \<or> CHR '']'' \<in> set hp then None
           else Some (take i hp, port)))"

section \<open>Addresses\<close>

type_synonym ip = "8 word list"

text \<open>A decimal field: digits without a leading zero, at most 255.\<close>

definition v4_field :: "string \<Rightarrow> 8 word option" where
  "v4_field s =
     (if s \<noteq> [] \<and> list_all is_digit s \<and> (hd s = CHR ''0'' \<longrightarrow> length s = 1) \<and> digits_val s \<le> 255
      then Some (of_nat (digits_val s)) else None)"

definition v4_fields :: "string \<Rightarrow> ip option" where
  "v4_fields s =
     (case map v4_field (split_char (CHR ''.'') s) of
        [Some a, Some b, Some c, Some d] \<Rightarrow> Some [a, b, c, d]
      | _ \<Rightarrow> None)"

definition v4_mapped :: "ip \<Rightarrow> ip" where
  "v4_mapped b = replicate 10 0 @ [255, 255] @ b"

definition nibble_val :: "char \<Rightarrow> nat option" where
  "nibble_val c =
     (if is_digit c then Some (digit_val c)
      else if of_char c \<in> {97..102::nat} then Some (of_char c - 87)
      else if of_char c \<in> {65..70::nat} then Some (of_char c - 55)
      else None)"

definition is_hex :: "char \<Rightarrow> bool" where
  "is_hex c = (nibble_val c \<noteq> None)"

definition hex_num :: "string \<Rightarrow> nat" where
  "hex_num s = foldl (\<lambda>n c. 16 * n + the (nibble_val c)) 0 s"

text \<open>
  The groups of an IPv6 address: the bytes read so far, where the ellipsis stands, the text
  still to read.  A group has one to four digits, so its value fits in 16 bits.
\<close>

function v6_groups :: "ip \<Rightarrow> nat option \<Rightarrow> string \<Rightarrow> (ip \<times> nat option \<times> string) option" where
  "v6_groups acc el s =
     (if 16 \<le> length acc then Some (acc, el, s)
      else
        let g = takeWhile is_hex s; r = drop (length g) s in
        if g = [] \<or> 4 < length g then None
        else if has_prefix r ''.'' then
          (if el = None \<and> length acc \<noteq> 12 \<or> 16 < length acc + 4 then None
           else map_option (\<lambda>b. (acc @ b, el, [])) (v4_fields s))
        else
          let acc' = acc @ [of_nat (hex_num g div 256), of_nat (hex_num g)] in
          (case r of
             [] \<Rightarrow> Some (acc', el, [])
           | c # r' \<Rightarrow>
               if c \<noteq> CHR '':'' \<or> r' = [] then None
               else if hd r' = CHR '':'' then
                 (if el \<noteq> None then None
                  else if tl r' = [] then Some (acc', Some (length acc'), [])
                  else v6_groups acc' (Some (length acc')) (tl r'))
               else v6_groups acc' el r'))"
  by pat_completeness auto
termination
  by (relation "measure (\<lambda>(acc, el, s). length s)")
    (auto dest!: arg_cong [where f = length] split: list.splits)

declare v6_groups.simps [simp del]

definition v6_fill :: "ip \<times> nat option \<times> string \<Rightarrow> ip option" where
  "v6_fill r =
     (case r of (acc, el, s) \<Rightarrow>
        if s \<noteq> [] then None
        else if length acc < 16 then
          (case el of
             None \<Rightarrow> None
           | Some e \<Rightarrow> Some (take e acc @ replicate (16 - length acc) 0 @ drop e acc))
        else if el \<noteq> None then None else Some acc)"

definition v6_parse :: "string \<Rightarrow> ip option" where
  "v6_parse s =
     (if s = ''::'' then Some (replicate 16 0)
      else if has_prefix s ''::'' then Option.bind (v6_groups [] (Some 0) (drop 2 s)) v6_fill
      else Option.bind (v6_groups [] None s) v6_fill)"

text \<open>\<open>ParseIP\<close> takes no zone.\<close>

definition ParseIP :: "string \<Rightarrow> ip option" where
  "ParseIP s =
     (case List.find (\<lambda>c. c \<in> {CHR ''.'', CHR '':'', CHR ''%''}) s of
        None \<Rightarrow> None
      | Some c \<Rightarrow>
          if c = CHR ''.'' then map_option v4_mapped (v4_fields s)
          else if c = CHR '':'' \<and> CHR ''%'' \<notin> set s then v6_parse s
          else None)"

section \<open>Classes of addresses\<close>

definition To4 :: "ip \<Rightarrow> ip option" where
  "To4 a =
     (if length a = 4 then Some a
      else if length a = 16 \<and> take 12 a = replicate 10 0 @ [255, 255] then Some (drop 12 a)
      else None)"

definition ip_equal :: "ip \<Rightarrow> ip \<Rightarrow> bool" where
  "ip_equal a b =
     (if length a = length b then a = b
      else if length a = 4 \<and> length b = 16 then take 12 b = replicate 10 0 @ [255, 255] \<and> a = drop 12 b
      else if length a = 16 \<and> length b = 4 then take 12 a = replicate 10 0 @ [255, 255] \<and> b = drop 12 a
      else False)"

definition IsLoopback :: "ip \<Rightarrow> bool" where
  "IsLoopback a =
     (case To4 a of Some b \<Rightarrow> b ! 0 = 127 | None \<Rightarrow> ip_equal a (replicate 15 0 @ [1]))"

definition IsPrivate :: "ip \<Rightarrow> bool" where
  "IsPrivate a =
     (case To4 a of
        Some b \<Rightarrow> b ! 0 = 10 \<or> (b ! 0 = 172 \<and> b ! 1 AND 240 = 16) \<or> (b ! 0 = 192 \<and> b ! 1 = 168)
      | None \<Rightarrow> length a = 16 \<and> a ! 0 AND 254 = 252)"

definition IsLinkLocalUnicast :: "ip \<Rightarrow> bool" where
  "IsLinkLocalUnicast a =
     (case To4 a of
        Some b \<Rightarrow> b ! 0 = 169 \<and> b ! 1 = 254
      | None \<Rightarrow> length a = 16 \<and> a ! 0 = 254 \<and> a ! 1 AND 192 = 128)"

definition IsLinkLocalMulticast :: "ip \<Rightarrow> bool" where
  "IsLinkLocalMulticast a =
     (case To4 a of
        Some b \<Rightarrow> b ! 0 = 224 \<and> b ! 1 = 0 \<and> b ! 2 = 0
      | None \<Rightarrow> length a = 16 \<and> a ! 0 = 255 \<and> a ! 1 AND 15 = 2)"

definition IsMulticast :: "ip \<Rightarrow> bool" where
  "IsMulticast a =
     (case To4 a of Some b \<Rightarrow> b ! 0 AND 240 = 224 | None \<Rightarrow> length a = 16 \<and> a ! 0 = 255)"

definition IsUnspecified :: "ip \<Rightarrow> bool" where
  "IsUnspecified a = (ip_equal a (v4_mapped [0, 0, 0, 0]) \<or> ip_equal a (replicate 16 0))"

lemmas ip_class_defs =
  IsLoopback_def IsPrivate_def IsLinkLocalUnicast_def IsLinkLocalMulticast_def IsMulticast_def
  IsUnspecified_def

section \<open>Dotted addresses\<close>

definition dotted :: "nat \<Rightarrow> nat \<Rightarrow> nat \<Rightarrow> nat \<Rightarrow> string" where
  "dotted a b c d = str_join [utoa a, utoa b, utoa c, utoa d] ''.''"

lemma digits_no_dot: "list_all is_digit s \<Longrightarrow> CHR ''.'' \<notin> set s"
  using digit_not_sign by (auto simp: list_all_iff)

lemma utoa_leading_zero: "hd (utoa n) = CHR ''0'' \<Longrightarrow> length (utoa n) = 1"
proof (induction n rule: utoa.induct)
  case (1 n)
  show ?case
  proof (cases "n < 10")
    case False
    have "0 < n div 10" using False by simp
    moreover have "utoa 0 = ''0''" by code_simp
    ultimately have "utoa (n div 10) \<noteq> ''0''" using utoa_inj [of "n div 10" 0] by simp
    moreover have "hd (utoa (n div 10)) = CHR ''0''"
      using 1(2) False by (simp add: utoa.simps [of n] hd_append)
    ultimately have "length (utoa (n div 10)) \<noteq> 1 \<or> False"
      by (cases "utoa (n div 10)") auto
    then show ?thesis using 1(1) False \<open>hd (utoa (n div 10)) = CHR ''0''\<close> by simp
  qed (simp add: utoa.simps [of n])
qed

lemma v4_field_utoa: "n \<le> 255 \<Longrightarrow> v4_field (utoa n) = Some (of_nat n)"
  using utoa_leading_zero [of n] utoa_digits [of n] by (simp add: v4_field_def)

lemma v4_fields_dotted:
  assumes "a \<le> 255" "b \<le> 255" "c \<le> 255" "d \<le> 255"
  shows "v4_fields (dotted a b c d) = Some [of_nat a, of_nat b, of_nat c, of_nat d]"
proof -
  have "split_char (CHR ''.'') (dotted a b c d) = [utoa a, utoa b, utoa c, utoa d]"
    unfolding dotted_def by (rule split_char_join) (auto simp: digits_no_dot utoa_digits)
  then show ?thesis using assms by (simp add: v4_fields_def v4_field_utoa)
qed

end
