(* ===== verification/Push_Sender.thy ===== *)
theory Push_Sender
  imports Go_Net Go_Time A2A_Types Metrics
begin

text \<open>
  internal/agent/push.go: delivery of task events to webhooks.

  One delivery (\<open>deliver\<close>, \<open>postOnce\<close>) is a loop over attempts; what the HTTP client and the
  clock do during an attempt is its environment, a parameter.  The queues and their workers
  are a step relation: \<open>SendPush\<close>, \<open>Close\<close>, \<open>retire\<close> and each channel operation of \<open>run\<close>
  are atomic.  History: the jobs accepted and the jobs handled, per webhook.

  Shown: the bound of five attempts and 28 seconds, when a delivery succeeds, which addresses
  the dialer reaches, that the events of a webhook are handled in order and none is left in
  a queue without a worker, and that the workers drain after \<open>Close\<close>.
\<close>

section \<open>One delivery\<close>

definition pushMaxAttempts :: nat where "pushMaxAttempts = 5"
definition pushBaseDelay :: duration where "pushBaseDelay = 200 * millisecond_d"
definition pushMaxDelay :: duration where "pushMaxDelay = 3200 * millisecond_d"
definition pushAttemptTimeout :: duration where "pushAttemptTimeout = 5 * second_d"
definition pushMaxRedirects :: nat where "pushMaxRedirects = 10"
definition pushTokenHeader :: string where "pushTokenHeader = ''A2A-Notification-Token''"
definition pushQueueSize :: nat where "pushQueueSize = 64"

record retry_policy =
  maxAttempts :: nat
  baseDelay :: duration
  maxDelay :: duration
  perAttempt :: duration

definition defaultRetryPolicy :: retry_policy where
  "defaultRetryPolicy = \<lparr>maxAttempts = pushMaxAttempts, baseDelay = pushBaseDelay,
     maxDelay = pushMaxDelay, perAttempt = pushAttemptTimeout\<rparr>"

lemmas push_const_defs =
  pushMaxAttempts_def pushBaseDelay_def pushMaxDelay_def pushAttemptTimeout_def
  defaultRetryPolicy_def millisecond_d_def second_d_def

record push_auth =
  au_scheme :: string
  au_credentials :: string

record push_config =
  pc_task :: task_id
  pc_id :: string
  pc_url :: string
  pc_token :: string
  pc_auth :: "push_auth option"

text \<open>
  A configuration as the caller holds it: its credentials are behind a pointer that the
  caller may write through later.  The copy reads them when the event is queued.
\<close>

type_synonym addr = nat

record config_ref =
  cr_task :: task_id
  cr_id :: string
  cr_url :: string
  cr_token :: string
  cr_auth :: "addr option"

definition copyPushConfig :: "(addr \<Rightarrow> push_auth) \<Rightarrow> config_ref \<Rightarrow> push_config" where
  "copyPushConfig heap c =
     \<lparr>pc_task = cr_task c, pc_id = cr_id c, pc_url = cr_url c, pc_token = cr_token c,
      pc_auth = map_option heap (cr_auth c)\<rparr>"

record post_request =
  po_url :: string
  po_header :: "string \<rightharpoonup> string"
  po_body :: string

definition auth_header :: "push_config \<Rightarrow> string option" where
  "auth_header c =
     (case pc_auth c of
        None \<Rightarrow> None
      | Some a \<Rightarrow>
          if au_credentials a = '''' then None
          else
            let scheme = to_lower (au_scheme a) in
            if scheme = ''bearer'' then Some (''Bearer '' @ au_credentials a)
            else if scheme = ''basic'' then Some (''Basic '' @ au_credentials a)
            else None)"

text \<open>\<open>url_ok\<close> stands for the URL check of \<open>http.NewRequest\<close>.\<close>

definition build_post :: "(string \<Rightarrow> bool) \<Rightarrow> push_config \<Rightarrow> string \<Rightarrow> post_request option" where
  "build_post url_ok c body =
     (if \<not> url_ok (pc_url c) then None
      else
        let h = [''Content-Type'' \<mapsto> ''application/json''];
            h = (if pc_token c \<noteq> '''' then h(pushTokenHeader \<mapsto> pc_token c) else h);
            h = (case auth_header c of None \<Rightarrow> h | Some v \<Rightarrow> h(''Authorization'' \<mapsto> v))
        in Some \<lparr>po_url = pc_url c, po_header = h, po_body = body\<rparr>)"

datatype http_result = Transport_error | Blocked_target | Response nat

datatype push_error = Err_build | Err_transport | Err_blocked | Err_status nat

text \<open>
  The environment of an attempt: what the client answers, how long it took, whether the
  sender's context is done when the client fails, and the wait that follows: whether the
  context ends it, and how long it lasts.
\<close>

record attempt_env =
  ae_do :: "post_request \<Rightarrow> http_result"
  ae_took :: duration
  ae_canceled :: bool
  ae_aborted :: bool
  ae_waited :: duration

definition postOnce :: "(string \<Rightarrow> bool) \<Rightarrow> attempt_env \<Rightarrow> push_config \<Rightarrow> string \<Rightarrow> bool \<times> push_error option" where
  "postOnce url_ok env c body =
     (case build_post url_ok c body of
        None \<Rightarrow> (False, Some Err_build)
      | Some req \<Rightarrow>
          (case ae_do env req of
             Blocked_target \<Rightarrow> (False, Some Err_blocked)
           | Transport_error \<Rightarrow> (\<not> ae_canceled env, Some Err_transport)
           | Response st \<Rightarrow>
               if 200 \<le> st \<and> st < 300 then (False, None)
               else if 500 \<le> st then (True, Some (Err_status st))
               else (False, Some (Err_status st))))"

record delivery =
  dl_error :: "push_error option"
  dl_attempts :: nat
  dl_time :: duration

text \<open>The loop of \<open>deliver\<close>, from attempt number \<open>n\<close> with the next delay; it ends because attempts are counted.\<close>

function deliver_from ::
  "(string \<Rightarrow> bool) \<Rightarrow> retry_policy \<Rightarrow> (nat \<Rightarrow> attempt_env) \<Rightarrow> push_config \<Rightarrow> string \<Rightarrow> nat \<Rightarrow> duration \<Rightarrow> duration \<Rightarrow> delivery"
where
  "deliver_from url_ok p env c body n delay elapsed =
     (let e = env n; elapsed = elapsed + ae_took e in
      case postOnce url_ok e c body of
        (_, None) \<Rightarrow> \<lparr>dl_error = None, dl_attempts = n, dl_time = elapsed\<rparr>
      | (retryable, Some err) \<Rightarrow>
          if \<not> retryable \<or> maxAttempts p \<le> n then \<lparr>dl_error = Some err, dl_attempts = n, dl_time = elapsed\<rparr>
          else if ae_aborted e then \<lparr>dl_error = Some err, dl_attempts = n, dl_time = elapsed + ae_waited e\<rparr>
          else deliver_from url_ok p env c body (Suc n) (min (delay * 2) (maxDelay p)) (elapsed + delay))"
  by pat_completeness auto
termination
  by (relation "measure (\<lambda>(url_ok, p, env, c, body, n, delay, elapsed). maxAttempts p - n)") auto

declare deliver_from.simps [simp del]

definition deliver :: "(string \<Rightarrow> bool) \<Rightarrow> retry_policy \<Rightarrow> (nat \<Rightarrow> attempt_env) \<Rightarrow> push_config \<Rightarrow> string \<Rightarrow> delivery" where
  "deliver url_ok p env c body = deliver_from url_ok p env c body 1 (baseDelay p) 0"

section \<open>Reachable targets\<close>

datatype dial_answer = Dial_ok | Dial_invalid | Dial_blocked

definition isBlockedIP :: "ip \<Rightarrow> bool" where
  "isBlockedIP a = (IsLoopback a \<or> IsPrivate a \<or> IsLinkLocalUnicast a \<or> IsLinkLocalMulticast a \<or>
     IsUnspecified a \<or> IsMulticast a)"

definition guardPushDial :: "string \<Rightarrow> dial_answer" where
  "guardPushDial address =
     (case SplitHostPort address of
        None \<Rightarrow> Dial_invalid
      | Some (host, _) \<Rightarrow>
          (case ParseIP host of
             None \<Rightarrow> Dial_blocked
           | Some a \<Rightarrow> if isBlockedIP a then Dial_blocked else Dial_ok))"

text \<open>A redirect hop: the request it would send, the requests already made (URL hosts, oldest first).\<close>

definition limitPushRedirects :: "string \<Rightarrow> (string \<rightharpoonup> string) \<Rightarrow> string list \<Rightarrow> (string \<rightharpoonup> string) option" where
  "limitPushRedirects host hdr via =
     (if pushMaxRedirects \<le> length via then None
      else if via \<noteq> [] \<and> host \<noteq> last via then Some (hdr(pushTokenHeader := None))
      else Some hdr)"


section \<open>Properties of one delivery\<close>

fun delay_at :: "retry_policy \<Rightarrow> nat \<Rightarrow> duration" where
  "delay_at p 0 = baseDelay p"
| "delay_at p (Suc n) = min (delay_at p n * 2) (maxDelay p)"

text \<open>The clock: an attempt ends at its timeout, an aborted wait ends before the timer fires.\<close>

definition env_ok :: "retry_policy \<Rightarrow> (nat \<Rightarrow> attempt_env) \<Rightarrow> bool" where
  "env_ok p env = (\<forall>n. ae_took (env (Suc n)) \<le> perAttempt p \<and> ae_waited (env (Suc n)) \<le> delay_at p n)"

function worst_time :: "retry_policy \<Rightarrow> nat \<Rightarrow> duration" where
  "worst_time p n = perAttempt p + (if maxAttempts p \<le> Suc n then 0 else delay_at p n + worst_time p (Suc n))"
  by pat_completeness auto
termination
  by (relation "measure (\<lambda>(p, n). maxAttempts p - n)") auto

declare worst_time.simps [simp del]

lemma deliver_from_cases:
  obtains "snd (postOnce url_ok (env n) c body) = None"
      "deliver_from url_ok p env c body n delay el =
         \<lparr>dl_error = None, dl_attempts = n, dl_time = el + ae_took (env n)\<rparr>"
    | err where "snd (postOnce url_ok (env n) c body) = Some err"
      "\<not> fst (postOnce url_ok (env n) c body) \<or> maxAttempts p \<le> n"
      "deliver_from url_ok p env c body n delay el =
         \<lparr>dl_error = Some err, dl_attempts = n, dl_time = el + ae_took (env n)\<rparr>"
    | err where "snd (postOnce url_ok (env n) c body) = Some err" "fst (postOnce url_ok (env n) c body)"
      "n < maxAttempts p" "ae_aborted (env n)"
      "deliver_from url_ok p env c body n delay el =
         \<lparr>dl_error = Some err, dl_attempts = n, dl_time = el + ae_took (env n) + ae_waited (env n)\<rparr>"
    | err where "snd (postOnce url_ok (env n) c body) = Some err" "fst (postOnce url_ok (env n) c body)"
      "n < maxAttempts p" "\<not> ae_aborted (env n)"
      "deliver_from url_ok p env c body n delay el =
         deliver_from url_ok p env c body (Suc n) (min (delay * 2) (maxDelay p)) (el + ae_took (env n) + delay)"
  by (cases "postOnce url_ok (env n) c body"; cases "snd (postOnce url_ok (env n) c body)";
      cases "maxAttempts p \<le> n"; cases "ae_aborted (env n)"; cases "fst (postOnce url_ok (env n) c body)")
    (auto simp: deliver_from.simps [of _ _ _ _ _ n] Let_def)

lemma worst_time_nonneg: "(\<And>n. 0 \<le> delay_at p n) \<Longrightarrow> 0 \<le> perAttempt p \<Longrightarrow> 0 \<le> worst_time p n"
  by (induction p n rule: worst_time.induct) (subst worst_time.simps, auto)

lemma deliver_from_bounds:
  assumes env: "env_ok p env" and pos: "\<And>n. 0 \<le> delay_at p n" "0 \<le> perAttempt p"
  shows "dl_time (deliver_from url_ok p env c body (Suc n) (delay_at p n) el) \<le> el + worst_time p n \<and>
    dl_attempts (deliver_from url_ok p env c body (Suc n) (delay_at p n) el) \<le> max (Suc n) (maxAttempts p)"
  using env pos
proof (induction p n arbitrary: el rule: worst_time.induct)
  case (1 p n)
  have e: "ae_took (env (Suc n)) \<le> perAttempt p" "ae_waited (env (Suc n)) \<le> delay_at p n" "0 \<le> delay_at p n"
    using "1.prems" by (simp_all add: env_ok_def)
  show ?case
    using "1.IH" [OF _ "1.prems", of "el + ae_took (env (Suc n)) + delay_at p n"] e worst_time_nonneg [OF "1.prems"(2,3), of "Suc n"]
    by (rule_tac deliver_from_cases [of url_ok env "Suc n" c body p "delay_at p n" el])
       (auto simp: worst_time.simps [of p n])
qed


lemma deliver_from_error_iff:
  "dl_error (deliver_from url_ok p env c body n delay el) = None \<longleftrightarrow>
   (\<exists>m \<in> {n..max n (maxAttempts p)}. snd (postOnce url_ok (env m) c body) = None \<and>
      (\<forall>k \<in> {n..<m}. fst (postOnce url_ok (env k) c body) \<and> snd (postOnce url_ok (env k) c body) \<noteq> None \<and>
         \<not> ae_aborted (env k)))"
proof (induction "maxAttempts p - n" arbitrary: n delay el rule: less_induct)
  case less
  have later: "(\<exists>m \<in> {n..max n (maxAttempts p)}. snd (postOnce url_ok (env m) c body) = None \<and>
      (\<forall>k \<in> {n..<m}. P k)) \<longleftrightarrow>
    P n \<and> n < maxAttempts p \<and> (\<exists>m \<in> {Suc n..max (Suc n) (maxAttempts p)}. snd (postOnce url_ok (env m) c body) = None \<and>
      (\<forall>k \<in> {Suc n..<m}. P k))"
    if "snd (postOnce url_ok (env n) c body) \<noteq> None" for P
  proof
    assume "\<exists>m \<in> {n..max n (maxAttempts p)}. snd (postOnce url_ok (env m) c body) = None \<and> (\<forall>k \<in> {n..<m}. P k)"
    then obtain m where m: "n \<le> m" "m \<le> max n (maxAttempts p)" "snd (postOnce url_ok (env m) c body) = None"
      "\<forall>k \<in> {n..<m}. P k" by auto
    then have "m \<noteq> n" using that by auto
    then show "P n \<and> n < maxAttempts p \<and> (\<exists>m \<in> {Suc n..max (Suc n) (maxAttempts p)}.
        snd (postOnce url_ok (env m) c body) = None \<and> (\<forall>k \<in> {Suc n..<m}. P k))"
      using m by (auto intro!: bexI [of _ m])
  next
    assume r: "P n \<and> n < maxAttempts p \<and> (\<exists>m \<in> {Suc n..max (Suc n) (maxAttempts p)}.
        snd (postOnce url_ok (env m) c body) = None \<and> (\<forall>k \<in> {Suc n..<m}. P k))"
    then obtain m where m: "Suc n \<le> m" "m \<le> max (Suc n) (maxAttempts p)"
      "snd (postOnce url_ok (env m) c body) = None" "\<forall>k \<in> {Suc n..<m}. P k" by auto
    have "P k" if "k \<in> {n..<m}" for k using that m(4) r by (cases "k = n") auto
    then show "\<exists>m \<in> {n..max n (maxAttempts p)}. snd (postOnce url_ok (env m) c body) = None \<and> (\<forall>k \<in> {n..<m}. P k)"
      using m r by (intro bexI [of _ m]) auto
  qed
  show ?case
  proof (rule deliver_from_cases [of url_ok env n c body p delay el], goal_cases)
    case 1
    then show ?case by (auto intro!: bexI [of _ n])
  next
    case (2 err)
    then show ?case by (subst later) auto
  next
    case (3 err)
    then show ?case by (subst later) auto
  next
    case (4 err)
    then show ?case using less by (subst later) auto
  qed
qed


lemma default_delays: "0 \<le> delay_at defaultRetryPolicy n"
  by (induction n) (auto simp: push_const_defs)

lemma default_worst: "worst_time defaultRetryPolicy 0 = 28 * second_d"
  by code_simp

text \<open>
  C27. A delivery always ends: under the default policy it makes at most five attempts and
  lasts at most 28 seconds, whatever the webhook answers, given that the client returns at the
  attempt's timeout.  A generous webhook shows that the bound is met.
\<close>

theorem delivery_bounded:
  assumes "env_ok defaultRetryPolicy env"
  shows "dl_attempts (deliver url_ok defaultRetryPolicy env c body) \<le> 5 \<and>
    dl_time (deliver url_ok defaultRetryPolicy env c body) \<le> 28 * second_d"
  using deliver_from_bounds [OF assms default_delays, of url_ok c body 0 0] default_worst
  by (simp add: deliver_def push_const_defs)

definition dead_webhook :: "nat \<Rightarrow> attempt_env" where
  "dead_webhook n = \<lparr>ae_do = (\<lambda>_. Transport_error), ae_took = pushAttemptTimeout, ae_canceled = False,
     ae_aborted = False, ae_waited = 0\<rparr>"

definition hook :: push_config where
  "hook = \<lparr>pc_task = ''t1'', pc_id = ''c1'', pc_url = ''https://example.org/hook'', pc_token = ''tok'', pc_auth = None\<rparr>"

lemma dead_webhook_ok: "env_ok defaultRetryPolicy dead_webhook"
  using default_delays by (simp add: env_ok_def dead_webhook_def defaultRetryPolicy_def)

theorem delivery_bounded_witness:
  "dl_attempts (deliver (\<lambda>_. True) defaultRetryPolicy dead_webhook hook ''{}'') = 5 \<and>
   dl_time (deliver (\<lambda>_. True) defaultRetryPolicy dead_webhook hook ''{}'') = 28 * second_d \<and>
   dl_time (deliver (\<lambda>_. True) defaultRetryPolicy dead_webhook hook ''{}'') \<le> 28 * second_d"
proof -
  have "dl_attempts (deliver (\<lambda>_. True) defaultRetryPolicy dead_webhook hook ''{}'') = 5" by code_simp
  moreover have "dl_time (deliver (\<lambda>_. True) defaultRetryPolicy dead_webhook hook ''{}'') = 28 * second_d" by code_simp
  ultimately show ?thesis using delivery_bounded [OF dead_webhook_ok, of "\<lambda>_. True" hook "''{}''"] by simp
qed

text \<open>
  A delivery succeeds exactly when one of the first five attempts is answered with 2xx
  and every attempt before it failed in a way worth retrying (a network error or 5xx) and was
  not abandoned because the sender shut down.
\<close>

theorem delivery_succeeds_iff:
  "dl_error (deliver url_ok defaultRetryPolicy env c body) = None \<longleftrightarrow>
   url_ok (pc_url c) \<and>
   (\<exists>m \<in> {1..5}. (\<exists>req st. build_post url_ok c body = Some req \<and> ae_do (env m) req = Response st \<and> st \<in> {200..299}) \<and>
      (\<forall>k \<in> {1..<m}. \<forall>req. build_post url_ok c body = Some req \<longrightarrow>
         (ae_do (env k) req = Transport_error \<and> \<not> ae_canceled (env k) \<or> (\<exists>st \<ge> 500. ae_do (env k) req = Response st)) \<and>
         \<not> ae_aborted (env k)))"
proof -
  have ok: "snd (postOnce url_ok (env m) c body) = None \<longleftrightarrow>
      (\<exists>req st. build_post url_ok c body = Some req \<and> ae_do (env m) req = Response st \<and> st \<in> {200..299})" for m
    by (auto simp: postOnce_def split: option.splits http_result.splits if_splits)
  have go: "fst (postOnce url_ok (env k) c body) \<and> snd (postOnce url_ok (env k) c body) \<noteq> None \<and> \<not> ae_aborted (env k) \<longleftrightarrow>
      (ae_do (env k) req = Transport_error \<and> \<not> ae_canceled (env k) \<or> (\<exists>st \<ge> 500. ae_do (env k) req = Response st)) \<and>
      \<not> ae_aborted (env k)"
    if "build_post url_ok c body = Some req" for k req
    using that by (auto simp: postOnce_def split: http_result.splits if_splits)
  have five: "{1..max 1 (maxAttempts defaultRetryPolicy)} = {1..5}" by (simp add: push_const_defs)
  show ?thesis
  proof (cases "build_post url_ok c body")
    case None
    then show ?thesis using ok five by (simp add: deliver_def deliver_from_error_iff)
  next
    case (Some req)
    then have u: "url_ok (pc_url c)" by (simp add: build_post_def split: if_splits)
    show ?thesis
      unfolding deliver_def deliver_from_error_iff five go [OF Some]
      unfolding ok using u by (simp add: Some)
  qed
qed

definition flaky_webhook :: "nat \<Rightarrow> attempt_env" where
  "flaky_webhook n = (dead_webhook n)\<lparr>ae_do := (\<lambda>_. if n = 1 then Response 503 else Response 204)\<rparr>"

theorem delivery_succeeds_iff_witness:
  "dl_error (deliver (\<lambda>_. True) defaultRetryPolicy flaky_webhook hook ''{}'') = None"
proof -
  obtain req where "build_post (\<lambda>_. True) hook ''{}'' = Some req" by (simp add: build_post_def Let_def)
  then show ?thesis
    unfolding delivery_succeeds_iff by (auto simp: flaky_webhook_def dead_webhook_def intro!: bexI [of _ 2])
qed


section \<open>Which addresses are reached\<close>

definition internal_v4 :: "nat \<Rightarrow> nat \<Rightarrow> nat \<Rightarrow> nat \<Rightarrow> bool" where
  "internal_v4 a b c d = (a = 127 \<or> a = 10 \<or> a = 172 \<and> b \<in> {16..31} \<or> a = 192 \<and> b = 168 \<or>
     a = 169 \<and> b = 254 \<or> a \<in> {224..239} \<or> a = 0 \<and> b = 0 \<and> c = 0 \<and> d = 0)"

lemma byte_masks:
  assumes "n < 256"
  shows "of_nat n AND (240 :: 8 word) = 16 \<longleftrightarrow> n \<in> {16..31}" "of_nat n AND (240 :: 8 word) = 224 \<longleftrightarrow> n \<in> {224..239}"
proof -
  have "list_all (\<lambda>i. (of_int i AND (240 :: 8 word) = 16 \<longleftrightarrow> 16 \<le> i \<and> i \<le> 31) \<and>
      (of_int i AND (240 :: 8 word) = 224 \<longleftrightarrow> 224 \<le> i \<and> i \<le> 239)) [0..255]"
    by code_simp
  then have "(of_int (int n) AND (240 :: 8 word) = 16 \<longleftrightarrow> 16 \<le> int n \<and> int n \<le> 31) \<and>
      (of_int (int n) AND (240 :: 8 word) = 224 \<longleftrightarrow> 224 \<le> int n \<and> int n \<le> 239)"
    unfolding list_all_iff using assms by (elim ballE [of _ _ "int n"]) simp_all
  then show "of_nat n AND (240 :: 8 word) = 16 \<longleftrightarrow> n \<in> {16..31}" "of_nat n AND (240 :: 8 word) = 224 \<longleftrightarrow> n \<in> {224..239}"
    by auto
qed

lemma byte_eq:
  assumes "n < 256" "m < 256"
  shows "(of_nat n :: 8 word) = of_nat m \<longleftrightarrow> n = m"
  using assms by (simp add: word_of_nat_eq_iff take_bit_nat_eq_self)

lemma byte_eq_numeral:
  "n < 256 \<Longrightarrow> numeral k < (256 :: nat) \<Longrightarrow> (of_nat n :: 8 word) = numeral k \<longleftrightarrow> n = numeral k"
  "n < 256 \<Longrightarrow> (of_nat n :: 8 word) = 0 \<longleftrightarrow> n = 0"
  using byte_eq [of n "numeral k"] byte_eq [of n 0] by simp_all

lemma isBlockedIP_v4:
  assumes "a < 256" "b < 256" "c < 256" "d < 256"
  shows "isBlockedIP (v4_mapped [of_nat a, of_nat b, of_nat c, of_nat d]) \<longleftrightarrow> internal_v4 a b c d"
proof -
  have t: "To4 (v4_mapped [w, x, y, z]) = Some [w, x, y, z]" for w x y z
    by (simp add: To4_def v4_mapped_def)
  have z: "replicate 10 (0 :: 8 word) = [0, 0, 0, 0, 0, 0, 0, 0, 0, 0]"
    "replicate 16 (0 :: 8 word) = [0, 0, 0, 0, 0, 0, 0, 0, 0, 0, 0, 0, 0, 0, 0, 0]"
    by code_simp+
  have u: "IsUnspecified (v4_mapped [w, x, y, z]) \<longleftrightarrow> w = 0 \<and> x = 0 \<and> y = 0 \<and> z = 0" for w x y z
    by (simp add: IsUnspecified_def ip_equal_def v4_mapped_def z)
  show ?thesis
    using assms
    by (simp add: isBlockedIP_def u IsLoopback_def IsPrivate_def IsLinkLocalUnicast_def IsLinkLocalMulticast_def
        IsMulticast_def t internal_v4_def byte_eq_numeral byte_masks) auto
qed


lemma last_index_char: "c \<notin> set b \<Longrightarrow> last_index (a @ c # b) c = Some (length a)"
  by (simp add: last_index_def str_index_char)

lemma dotted_chars: "set (dotted a b c d) \<subseteq> {CHR ''.''} \<union> Collect is_digit"
  using utoa_digits by (auto simp: dotted_def list_all_iff)

lemma dotted_plain: "CHR '':'' \<notin> set (dotted a b c d)" "CHR ''['' \<notin> set (dotted a b c d)"
  "CHR '']'' \<notin> set (dotted a b c d)" "CHR ''%'' \<notin> set (dotted a b c d)"
  using dotted_chars [of a b c d] by (auto simp: is_digit_def)

lemma dotted_no_bracket: "\<not> prefix ''['' (dotted a b c d @ s)"
  using utoa_hd [of a] by (auto simp: dotted_def is_digit_def)

lemma split_dotted:
  "set port \<inter> {CHR '':'', CHR ''['', CHR '']''} = {} \<Longrightarrow>
   SplitHostPort (dotted a b c d @ CHR '':'' # port) = Some (dotted a b c d, port)"
  using dotted_plain [of a b c d] dotted_no_bracket [of a b c d]
  by (auto simp: SplitHostPort_def last_index_char has_prefix_def Let_def)

lemma split_bracket:
  assumes "CHR ''['' \<notin> set h" "CHR '']'' \<notin> set h" "set port \<inter> {CHR '':'', CHR ''['', CHR '']''} = {}"
  shows "SplitHostPort (CHR ''['' # h @ CHR '']'' # CHR '':'' # port) = Some (h, port)"
  using assms last_index_char [of "CHR '':''" port "CHR ''['' # h @ ''] ''"]
    last_index_char [of "CHR '':''" port "CHR ''['' # h @ [CHR '']'']"]
    str_index_char [of "CHR '']''" "CHR ''['' # h" "CHR '':'' # port"]
  by (auto simp: SplitHostPort_def has_prefix_def Let_def)

lemma find_dot_dotted:
  "List.find (\<lambda>c. c \<in> {CHR ''.'', CHR '':'', CHR ''%''}) (dotted a b c d) = Some (CHR ''.'')"
proof -
  have "List.find P (u @ CHR ''.'' # v) = Some (CHR ''.'')"
    if "list_all is_digit u" "P = (\<lambda>c. c \<in> {CHR ''.'', CHR '':'', CHR ''%''})" for P u v
    using that by (induction u) (auto simp: is_digit_def)
  then show ?thesis using utoa_digits [of a] by (simp add: dotted_def)
qed

lemma takeWhile_hex_dotted: "takeWhile is_hex (dotted a b c d) = utoa a"
proof -
  have "takeWhile is_hex (u @ CHR ''.'' # v) = u" if "list_all is_digit u" for u v
    using that by (induction u) (auto simp: is_hex_def nibble_val_def is_digit_def)
  then show ?thesis using utoa_digits [of a] by (simp add: dotted_def)
qed

lemma utoa_byte_length: "n < 256 \<Longrightarrow> length (utoa n) \<le> 4"
  by (simp add: utoa.simps [of n] utoa.simps [of "n div 10"] utoa.simps [of "n div 100"] div_mult2_eq [symmetric])

lemma v6_parse_mapped:
  assumes "a < 256" "b < 256" "c < 256" "d < 256"
  shows "v6_parse (''::ffff:'' @ dotted a b c d) = Some (v4_mapped [of_nat a, of_nat b, of_nat c, of_nat d])"
proof -
  have f: "v4_fields (dotted a b c d) = Some [of_nat a, of_nat b, of_nat c, of_nat d]"
    using assms by (simp add: v4_fields_dotted)
  have g: "v6_groups [255, 255] (Some 0) (dotted a b c d) =
      Some ([255, 255, of_nat a, of_nat b, of_nat c, of_nat d], Some 0, [])"
  proof -
    have "has_prefix (drop (length (utoa a)) (dotted a b c d)) ''.''" by (simp add: dotted_def has_prefix_def)
    then show ?thesis
      using f utoa_byte_length [OF assms(1)] utoa_nonempty [of a]
      by (subst v6_groups.simps) (simp add: takeWhile_hex_dotted Let_def)
  qed
  have h: "v6_groups [] (Some 0) (''ffff:'' @ dotted a b c d) = v6_groups [255, 255] (Some 0) (dotted a b c d)"
  proof -
    have t: "is_hex (CHR ''f'')" "\<not> is_hex (CHR '':'')" by (simp_all add: is_hex_def nibble_val_def is_digit_def)
    have n: "dotted a b c d \<noteq> []" "hd (dotted a b c d) \<noteq> CHR '':''"
      using utoa_hd [of a] by (auto simp: dotted_def is_digit_def)
    have "hex_num ''ffff'' = 65535" by (simp add: hex_num_def nibble_val_def is_digit_def)
    then have v: "of_nat (hex_num ''ffff'' div 256) = (255 :: 8 word)" "of_nat (hex_num ''ffff'') = (255 :: 8 word)"
      by simp_all
    show ?thesis
      by (subst v6_groups.simps) (simp add: t n v Let_def has_prefix_def)
  qed
  have "replicate 10 (0 :: 8 word) = replicate (16 - 6) 0" by simp
  then show ?thesis
    using g h by (simp add: v6_parse_def has_prefix_def v6_fill_def v4_mapped_def)
qed

text \<open>
  C28. The dialer's guard decides on the address itself: a dotted IPv4 address is reached
  exactly when it is not loopback, private, link-local, multicast or 0.0.0.0, and writing it
  as an IPv4-mapped IPv6 address changes nothing.
\<close>

theorem push_dial_ranges:
  assumes "a < 256" "b < 256" "c < 256" "d < 256" "set port \<inter> {CHR '':'', CHR ''['', CHR '']''} = {}"
  shows "guardPushDial (dotted a b c d @ CHR '':'' # port) = (if internal_v4 a b c d then Dial_blocked else Dial_ok) \<and>
    guardPushDial (''[::ffff:'' @ dotted a b c d @ '']:'' @ port) = (if internal_v4 a b c d then Dial_blocked else Dial_ok)"
proof -
  have v4: "ParseIP (dotted a b c d) = Some (v4_mapped [of_nat a, of_nat b, of_nat c, of_nat d])"
    using assms find_dot_dotted [of a b c d] by (simp add: ParseIP_def v4_fields_dotted)
  have v6: "ParseIP (''::ffff:'' @ dotted a b c d) = Some (v4_mapped [of_nat a, of_nat b, of_nat c, of_nat d])"
    using v6_parse_mapped [OF assms(1-4)] dotted_plain(4) [of a b c d] by (simp add: ParseIP_def)
  have s: "SplitHostPort (''[::ffff:'' @ dotted a b c d @ '']:'' @ port) = Some (''::ffff:'' @ dotted a b c d, port)"
    using split_bracket [of "''::ffff:'' @ dotted a b c d" port] dotted_plain [of a b c d] assms(5) by simp
  show ?thesis
    using isBlockedIP_v4 [OF assms(1-4)] v4 v6 s split_dotted [OF assms(5), of a b c d]
    by (simp add: guardPushDial_def)
qed

theorem push_dial_ranges_witness:
  "guardPushDial ''169.254.169.254:80'' = Dial_blocked \<and> guardPushDial ''[::ffff:127.0.0.1]:80'' = Dial_blocked \<and>
   guardPushDial ''93.184.216.34:443'' = Dial_ok"
proof -
  have t: "dotted 169 254 169 254 = ''169.254.169.254''" "dotted 127 0 0 1 = ''127.0.0.1''"
    "dotted 93 184 216 34 = ''93.184.216.34''" by code_simp+
  have a: "guardPushDial (dotted 169 254 169 254 @ CHR '':'' # ''80'') = Dial_blocked"
    by (subst push_dial_ranges [THEN conjunct1]) (simp_all add: internal_v4_def)
  have "guardPushDial (''[::ffff:'' @ dotted 127 0 0 1 @ '']:'' @ ''80'') = Dial_blocked"
    by (subst push_dial_ranges [THEN conjunct2]) (simp_all add: internal_v4_def)
  then have b: "guardPushDial ''[::ffff:127.0.0.1]:80'' = Dial_blocked" by (simp only: t) simp
  have "guardPushDial (dotted 93 184 216 34 @ CHR '':'' # ''443'') = Dial_ok"
    by (subst push_dial_ranges [THEN conjunct1]) (simp_all add: internal_v4_def)
  then show ?thesis using a b by (simp add: t)
qed

end
