(* ===== verification/Push_Queue.thy ===== *)
theory Push_Queue
  imports Push_Sender
begin

text \<open>
  internal/agent/push.go: the queues of the push sender and their workers.

  Workers are goroutines; they are numbered in the order they are started, and the number
  plays the part of the pointer that \<open>retire\<close> compares.  A worker is at one of the points
  of \<open>run\<close>: at the select, delivering a job, about to call \<open>retire\<close> (after a terminal job or
  when idle), drained (channel closed and empty), or gone.
\<close>

section \<open>State and operations\<close>

record push_job =
  job_config :: push_config
  job_body :: string
  job_terminal :: bool

type_synonym worker_key = "task_id \<times> string"

datatype worker_pc = Selecting | Delivering push_job | Retiring | Drained | Exited

record push_worker =
  wk_key :: worker_key
  wk_queue :: "push_job list"
  wk_closed :: bool
  wk_pc :: worker_pc

record sender =
  sn_policy :: retry_policy
  sn_queueSize :: nat
  sn_closed :: bool
  sn_canceled :: bool
  sn_workers :: "worker_key \<rightharpoonup> nat"
  sn_spawned :: "push_worker list"
  sn_metrics :: metrics
  sn_panicked :: bool
  sn_accepted :: "worker_key \<Rightarrow> push_job list"
  sn_handled :: "worker_key \<Rightarrow> push_job list"

definition NewPushSender :: sender where
  "NewPushSender = \<lparr>sn_policy = defaultRetryPolicy, sn_queueSize = pushQueueSize, sn_closed = False,
     sn_canceled = False, sn_workers = Map.empty, sn_spawned = [], sn_metrics = metrics0, sn_panicked = False,
     sn_accepted = (\<lambda>_. []), sn_handled = (\<lambda>_. [])\<rparr>"

definition isTerminalEvent :: "sdk \<Rightarrow> event \<Rightarrow> bool" where
  "isTerminalEvent k ev =
     (case ev of
        Ev_message _ \<Rightarrow> True
      | Ev_task t \<Rightarrow> task_terminal k t
      | Ev_status _ st \<Rightarrow> sdk_terminal k (st_state st)
      | Ev_artifact _ _ _ \<Rightarrow> False)"

definition new_worker :: "worker_key \<Rightarrow> push_worker" where
  "new_worker key = \<lparr>wk_key = key, wk_queue = [], wk_closed = False, wk_pc = Selecting\<rparr>"

text \<open>A send that does not block, on a channel that holds \<open>sn_queueSize\<close> jobs; sending on a closed channel panics.\<close>

definition enqueue :: "nat \<Rightarrow> push_job \<Rightarrow> sender \<Rightarrow> sender" where
  "enqueue i job s =
     (let w = sn_spawned s ! i in
      if wk_closed w then s\<lparr>sn_panicked := True\<rparr>
      else if length (wk_queue w) < sn_queueSize s then
        s\<lparr>sn_spawned := (sn_spawned s)[i := w\<lparr>wk_queue := wk_queue w @ [job]\<rparr>],
          sn_accepted := (sn_accepted s)(wk_key w := sn_accepted s (wk_key w) @ [job])\<rparr>
      else s\<lparr>sn_metrics := IncPushFailed (sn_metrics s)\<rparr>)"

definition spawn :: "worker_key \<Rightarrow> sender \<Rightarrow> sender" where
  "spawn key s =
     (case sn_workers s key of
        Some _ \<Rightarrow> s
      | None \<Rightarrow>
          s\<lparr>sn_workers := (sn_workers s)(key \<mapsto> length (sn_spawned s)),
            sn_spawned := sn_spawned s @ [new_worker key]\<rparr>)"

text \<open>\<open>enc\<close> is the JSON encoding of the event's stream response, \<open>None\<close> when it fails.\<close>

definition SendPush ::
  "sdk \<Rightarrow> (event \<Rightarrow> string option) \<Rightarrow> (addr \<Rightarrow> push_auth) \<Rightarrow> config_ref option \<Rightarrow> event \<Rightarrow> sender \<Rightarrow> sender"
where
  "SendPush k enc heap config ev s =
     (case config of
        None \<Rightarrow> s
      | Some c \<Rightarrow>
          (case enc ev of
             None \<Rightarrow> s\<lparr>sn_metrics := IncPushFailed (sn_metrics s)\<rparr>
           | Some body \<Rightarrow>
               let job = \<lparr>job_config = copyPushConfig heap c, job_body = body, job_terminal = isTerminalEvent k ev\<rparr>;
                   key = (cr_task c, cr_id c)
               in if sn_closed s then s\<lparr>sn_metrics := IncPushFailed (sn_metrics s)\<rparr>
                  else let s = spawn key s in enqueue (the (sn_workers s key)) job s))"

text \<open>The critical section of \<open>Close\<close>; closing a closed channel panics.\<close>

definition close_queues :: "sender \<Rightarrow> sender" where
  "close_queues s =
     (if sn_closed s then s
      else s\<lparr>sn_closed := True,
             sn_panicked := (sn_panicked s \<or>
               list_ex (\<lambda>(i, w). sn_workers s (wk_key w) = Some i \<and> wk_closed w) (enumerate 0 (sn_spawned s))),
             sn_spawned := map (\<lambda>(i, w). if sn_workers s (wk_key w) = Some i then w\<lparr>wk_closed := True\<rparr> else w)
               (enumerate 0 (sn_spawned s))\<rparr>)"

text \<open>\<open>Close\<close> then waits for the workers, or until its context is done, and cancels the deliveries.\<close>

definition close_cancel :: "sender \<Rightarrow> sender" where
  "close_cancel s = s\<lparr>sn_canceled := True\<rparr>"

definition retire :: "nat \<Rightarrow> sender \<Rightarrow> bool \<times> sender" where
  "retire i s =
     (let w = sn_spawned s ! i in
      if wk_queue w \<noteq> [] then (False, s)
      else (True, if sn_workers s (wk_key w) = Some i then s\<lparr>sn_workers := (sn_workers s)(wk_key w := None)\<rparr> else s))"

definition activeWorkers :: "sender \<Rightarrow> nat" where
  "activeWorkers s = card (dom (sn_workers s))"

definition set_pc :: "nat \<Rightarrow> worker_pc \<Rightarrow> sender \<Rightarrow> sender" where
  "set_pc i pc s = s\<lparr>sn_spawned := (sn_spawned s)[i := (sn_spawned s ! i)\<lparr>wk_pc := pc\<rparr>]\<rparr>"

definition deliverJob :: "(string \<Rightarrow> bool) \<Rightarrow> (nat \<Rightarrow> attempt_env) \<Rightarrow> push_job \<Rightarrow> sender \<Rightarrow> sender" where
  "deliverJob url_ok env job s =
     s\<lparr>sn_metrics :=
         (if dl_error (deliver url_ok (sn_policy s) env (job_config job) (job_body job)) = None
          then IncPushDelivered (sn_metrics s) else IncPushFailed (sn_metrics s)),
       sn_handled := (let key = (pc_task (job_config job), pc_id (job_config job)) in
         (sn_handled s)(key := sn_handled s key @ [job]))\<rparr>"

text \<open>One region of \<open>run\<close>; at the select, \<open>idle\<close> says that the timer's case is taken.  \<open>None\<close>: blocked or gone.\<close>

definition run :: "(string \<Rightarrow> bool) \<Rightarrow> (nat \<Rightarrow> attempt_env) \<Rightarrow> bool \<Rightarrow> nat \<Rightarrow> sender \<Rightarrow> sender option" where
  "run url_ok env idle i s =
     (let w = sn_spawned s ! i in
      case wk_pc w of
        Selecting \<Rightarrow>
          if idle then Some (set_pc i Retiring s)
          else (case wk_queue w of
                  job # q \<Rightarrow>
                    Some (s\<lparr>sn_spawned := (sn_spawned s)[i := w\<lparr>wk_queue := q, wk_pc := Delivering job\<rparr>]\<rparr>)
                | [] \<Rightarrow> if wk_closed w then Some (set_pc i Drained s) else None)
      | Delivering job \<Rightarrow>
          Some (set_pc i (if job_terminal job then Retiring else Selecting) (deliverJob url_ok env job s))
      | Retiring \<Rightarrow> (case retire i s of (gone, s') \<Rightarrow> Some (set_pc i (if gone then Exited else Selecting) s'))
      | Drained \<Rightarrow> Some (set_pc i Exited (snd (retire i s)))
      | Exited \<Rightarrow> None)"

inductive push_step :: "sdk \<Rightarrow> (event \<Rightarrow> string option) \<Rightarrow> sender \<Rightarrow> sender \<Rightarrow> bool" for k enc where
  step_send: "push_step k enc s (SendPush k enc heap config ev s)"
| step_run: "i < length (sn_spawned s) \<Longrightarrow> run url_ok env idle i s = Some s' \<Longrightarrow> push_step k enc s s'"
| step_close: "push_step k enc s (close_queues s)"
| step_cancel: "sn_closed s \<Longrightarrow> push_step k enc s (close_cancel s)"

inductive_simps push_step_iff: "push_step k enc s s'"

section \<open>The invariant\<close>

definition live :: "push_worker \<Rightarrow> bool" where
  "live w = (wk_pc w \<noteq> Exited)"

definition in_hand :: "push_worker \<Rightarrow> push_job list" where
  "in_hand w = (case wk_pc w of Delivering j \<Rightarrow> [j] | _ \<Rightarrow> [])"

definition job_key :: "push_job \<Rightarrow> worker_key" where
  "job_key j = (pc_task (job_config j), pc_id (job_config j))"

definition worker_ok :: "sender \<Rightarrow> nat \<Rightarrow> push_worker \<Rightarrow> bool" where
  "worker_ok s i w =
     (length (wk_queue w) \<le> sn_queueSize s \<and>
      (wk_pc w = Exited \<longrightarrow> wk_queue w = []) \<and>
      (wk_pc w = Drained \<longrightarrow> wk_queue w = [] \<and> sn_closed s) \<and>
      (\<forall>j \<in> set (in_hand w @ wk_queue w). job_key j = wk_key w) \<and>
      (live w \<longrightarrow> sn_workers s (wk_key w) = Some i \<and> wk_closed w = sn_closed s))"

definition pending_of :: "sender \<Rightarrow> worker_key \<Rightarrow> push_job list" where
  "pending_of s key =
     (case sn_workers s key of
        None \<Rightarrow> []
      | Some i \<Rightarrow> in_hand (sn_spawned s ! i) @ wk_queue (sn_spawned s ! i))"

definition push_ok :: "sender \<Rightarrow> bool" where
  "push_ok s =
     (\<not> sn_panicked s \<and>
      (\<forall>key i. sn_workers s key = Some i \<longrightarrow>
         i < length (sn_spawned s) \<and> wk_key (sn_spawned s ! i) = key \<and> live (sn_spawned s ! i)) \<and>
      (\<forall>i < length (sn_spawned s). worker_ok s i (sn_spawned s ! i)) \<and>
      (\<forall>key. sn_accepted s key = sn_handled s key @ pending_of s key))"

lemma push_okI:
  assumes "\<not> sn_panicked s"
    and "\<And>key i. sn_workers s key = Some i \<Longrightarrow>
      i < length (sn_spawned s) \<and> wk_key (sn_spawned s ! i) = key \<and> live (sn_spawned s ! i)"
    and "\<And>i. i < length (sn_spawned s) \<Longrightarrow> worker_ok s i (sn_spawned s ! i)"
    and "\<And>key. sn_accepted s key = sn_handled s key @ pending_of s key"
  shows "push_ok s"
  using assms unfolding push_ok_def by blast

lemma push_okD:
  assumes "push_ok s"
  shows "\<not> sn_panicked s"
    and "sn_workers s key = Some i \<Longrightarrow> i < length (sn_spawned s)"
    and "sn_workers s key = Some i \<Longrightarrow> wk_key (sn_spawned s ! i) = key"
    and "sn_workers s key = Some i \<Longrightarrow> live (sn_spawned s ! i)"
    and "i < length (sn_spawned s) \<Longrightarrow> worker_ok s i (sn_spawned s ! i)"
    and "sn_accepted s key = sn_handled s key @ pending_of s key"
  using assms unfolding push_ok_def by blast+

lemma new_sender_ok: "push_ok NewPushSender"
  by (simp add: push_ok_def NewPushSender_def pending_of_def)

lemma spawn_ok:
  assumes ok: "push_ok s" and nc: "\<not> sn_closed s"
  shows "push_ok (spawn key s)" "\<exists>i. sn_workers (spawn key s) key = Some i"
    "sn_closed (spawn key s) = sn_closed s"
proof -
  show "\<exists>i. sn_workers (spawn key s) key = Some i" "sn_closed (spawn key s) = sn_closed s"
    by (auto simp: spawn_def split: option.splits)
  show "push_ok (spawn key s)"
  proof (cases "sn_workers s key")
    case None
    have other: "wk_key (sn_spawned s ! i) \<noteq> key" if "i < length (sn_spawned s)" "live (sn_spawned s ! i)" for i
      using push_okD(5) [OF ok that(1)] that(2) None by (auto simp: worker_ok_def)
    show ?thesis
    proof (rule push_okI)
      show "worker_ok (spawn key s) i (sn_spawned (spawn key s) ! i)" if "i < length (sn_spawned (spawn key s))" for i
        using that None nc other [of i] push_okD(5) [OF ok, of i]
        by (auto simp: spawn_def worker_ok_def nth_append new_worker_def live_def in_hand_def less_Suc_eq)
      show "sn_accepted (spawn key s) key' = sn_handled (spawn key s) key' @ pending_of (spawn key s) key'" for key'
        using None push_okD(6) [OF ok, of key'] push_okD(2) [OF ok, of key']
        by (auto simp: spawn_def pending_of_def nth_append new_worker_def in_hand_def split: option.splits)
    qed (use None push_okD(1,2,3,4) [OF ok] in
        \<open>auto simp: spawn_def nth_append new_worker_def live_def split: if_splits\<close>)
  qed (use ok in \<open>simp add: spawn_def\<close>)
qed


text \<open>Replacing a live worker by a live one with the same key.\<close>

lemma update_ok:
  assumes ok: "push_ok s" and i: "i < length (sn_spawned s)" "live (sn_spawned s ! i)"
    and w': "wk_key w' = wk_key (sn_spawned s ! i)" "live w'" "worker_ok s i w'"
    and own: "A (wk_key w') = H (wk_key w') @ in_hand w' @ wk_queue w'"
    and others: "\<And>key. key \<noteq> wk_key w' \<Longrightarrow> A key = sn_accepted s key \<and> H key = sn_handled s key"
  shows "push_ok (s\<lparr>sn_spawned := (sn_spawned s)[i := w'], sn_metrics := m, sn_accepted := A, sn_handled := H\<rparr>)"
    (is "push_ok ?t")
proof (rule push_okI)
  have reg: "sn_workers s (wk_key w') = Some i"
    using push_okD(5) [OF ok i(1)] i(2) w'(1) by (simp add: worker_ok_def)
  show "\<not> sn_panicked ?t" using push_okD(1) [OF ok] by simp
  show "n < length (sn_spawned ?t) \<and> wk_key (sn_spawned ?t ! n) = key \<and> live (sn_spawned ?t ! n)"
    if "sn_workers ?t key = Some n" for key n
    using that push_okD(2,3,4) [OF ok] w'(1,2) by (cases "n = i") auto
  show "worker_ok ?t n (sn_spawned ?t ! n)" if "n < length (sn_spawned ?t)" for n
    using that push_okD(5) [OF ok] w'(3) i(1) by (cases "n = i") (auto simp: worker_ok_def)
  show "sn_accepted ?t key = sn_handled ?t key @ pending_of ?t key" for key
  proof (cases "key = wk_key w'")
    case True
    then show ?thesis using own reg i(1) by (simp add: pending_of_def)
  next
    case False
    then have "sn_workers s key \<noteq> Some i" using push_okD(3) [OF ok] w'(1) by metis
    then have "pending_of ?t key = pending_of s key"
      by (auto simp: pending_of_def split: option.split)
    then show ?thesis using False others push_okD(6) [OF ok] by simp
  qed
qed

lemma registered:
  assumes "push_ok s" "i < length (sn_spawned s)" "live (sn_spawned s ! i)"
  shows "sn_workers s (wk_key (sn_spawned s ! i)) = Some i"
    "sn_accepted s (wk_key (sn_spawned s ! i)) =
       sn_handled s (wk_key (sn_spawned s ! i)) @ in_hand (sn_spawned s ! i) @ wk_queue (sn_spawned s ! i)"
proof -
  show r: "sn_workers s (wk_key (sn_spawned s ! i)) = Some i"
    using push_okD(5) [OF assms(1,2)] assms(3) by (simp add: worker_ok_def)
  show "sn_accepted s (wk_key (sn_spawned s ! i)) =
       sn_handled s (wk_key (sn_spawned s ! i)) @ in_hand (sn_spawned s ! i) @ wk_queue (sn_spawned s ! i)"
    using push_okD(6) [OF assms(1)] r by (simp add: pending_of_def)
qed

lemma metrics_ok: "push_ok s \<Longrightarrow> push_ok (s\<lparr>sn_metrics := m\<rparr>)" "push_ok s \<Longrightarrow> push_ok (s\<lparr>sn_canceled := b\<rparr>)"
  by (simp_all add: push_ok_def worker_ok_def pending_of_def del: split_paired_All cong: option.case_cong)

lemma enqueue_ok:
  assumes ok: "push_ok s" and nc: "\<not> sn_closed s" and i: "sn_workers s (job_key job) = Some i"
  shows "push_ok (enqueue i job s)"
proof -
  let ?w = "sn_spawned s ! i"
  have li: "i < length (sn_spawned s)" "live ?w" "wk_key ?w = job_key job"
    using push_okD(2,3,4) [OF ok i] by auto
  then have w: "worker_ok s i ?w" "\<not> wk_closed ?w"
    using push_okD(5) [OF ok li(1)] nc by (auto simp: worker_ok_def)
  show ?thesis
  proof (cases "length (wk_queue ?w) < sn_queueSize s")
    case True
    let ?w' = "?w\<lparr>wk_queue := wk_queue ?w @ [job]\<rparr>"
    let ?A = "(sn_accepted s)(wk_key ?w := sn_accepted s (wk_key ?w) @ [job])"
    have "wk_pc ?w \<noteq> Drained" using w(1) nc by (auto simp: worker_ok_def)
    then have "worker_ok s i ?w'"
      using w True li by (auto simp: worker_ok_def live_def in_hand_def)
    then have "push_ok (s\<lparr>sn_spawned := (sn_spawned s)[i := ?w'], sn_metrics := sn_metrics s, sn_accepted := ?A,
        sn_handled := sn_handled s\<rparr>)"
      using registered(2) [OF ok li(1,2)] li by (intro update_ok [OF ok]) (auto simp: live_def in_hand_def)
    then show ?thesis using True w(2) by (simp add: enqueue_def Let_def)
  qed (use ok w metrics_ok in \<open>simp add: enqueue_def Let_def\<close>)
qed

lemma SendPush_ok: "push_ok s \<Longrightarrow> push_ok (SendPush k enc heap config ev s)"
proof -
  assume ok: "push_ok s"
  have queue: "push_ok (enqueue (the (sn_workers (spawn (job_key job) s) (job_key job))) job (spawn (job_key job) s))"
    if "\<not> sn_closed s" for job
    using spawn_ok [OF ok that, of "job_key job"] that by (auto intro!: enqueue_ok)
  show ?thesis
  proof (cases "\<exists>c body. config = Some c \<and> enc ev = Some body \<and> \<not> sn_closed s")
    case True
    then obtain c body where c: "config = Some c" "enc ev = Some body" "\<not> sn_closed s" by blast
    then show ?thesis
      using queue [OF c(3), of "\<lparr>job_config = copyPushConfig heap c, job_body = body, job_terminal = isTerminalEvent k ev\<rparr>"]
      by (simp add: SendPush_def Let_def job_key_def copyPushConfig_def)
  next
    case False
    then show ?thesis using ok metrics_ok by (auto simp: SendPush_def Let_def split: option.splits)
  qed
qed

lemma close_queues_ok: "push_ok s \<Longrightarrow> push_ok (close_queues s)"
proof (cases "sn_closed s")
  case False
  assume ok: "push_ok s"
  let ?f = "\<lambda>i w. if sn_workers s (wk_key w) = Some i then w\<lparr>wk_closed := True\<rparr> else w"
  have nth: "sn_spawned (close_queues s) ! i = ?f i (sn_spawned s ! i)" if "i < length (sn_spawned s)" for i
    using that False by (simp add: close_queues_def nth_enumerate_eq)
  have len: "length (sn_spawned (close_queues s)) = length (sn_spawned s)" using False by (simp add: close_queues_def)
  have f: "wk_key (?f i w) = wk_key w" "wk_pc (?f i w) = wk_pc w" "wk_queue (?f i w) = wk_queue w" for i w by auto
  have same: "sn_workers (close_queues s) = sn_workers s" "sn_accepted (close_queues s) = sn_accepted s"
    "sn_handled (close_queues s) = sn_handled s" "sn_closed (close_queues s)" "sn_queueSize (close_queues s) = sn_queueSize s"
    using False by (simp_all add: close_queues_def)
  have opn: "\<not> wk_closed (sn_spawned s ! i)" if "sn_workers s key = Some i" for key i
    using push_okD(2,4,5) [OF ok] that False by (auto simp: worker_ok_def)
  show ?thesis
  proof (rule push_okI)
    show "\<not> sn_panicked (close_queues s)"
      using push_okD(1) [OF ok] False
      by (auto simp: close_queues_def list_ex_iff in_set_enumerate_eq dest: opn)
    show "i < length (sn_spawned (close_queues s)) \<and> wk_key (sn_spawned (close_queues s) ! i) = key \<and>
        live (sn_spawned (close_queues s) ! i)" if "sn_workers (close_queues s) key = Some i" for key i
      using that push_okD(2,3,4) [OF ok] by (simp add: len nth same f live_def)
    show "worker_ok (close_queues s) i (sn_spawned (close_queues s) ! i)"
      if "i < length (sn_spawned (close_queues s))" for i
      using that push_okD(5) [OF ok, of i]
      by (auto simp: len nth same worker_ok_def live_def in_hand_def)
    show "sn_accepted (close_queues s) key = sn_handled (close_queues s) key @ pending_of (close_queues s) key" for key
      using push_okD(6) [OF ok, of key] push_okD(2) [OF ok, of key]
      by (auto simp: same pending_of_def nth in_hand_def split: option.splits)
  qed
qed (simp add: close_queues_def)


text \<open>A worker leaves: it was the registered one for its key and had nothing to do.\<close>

lemma exit_ok:
  assumes ok: "push_ok s" and i: "i < length (sn_spawned s)" "live (sn_spawned s ! i)"
    and idle: "wk_queue (sn_spawned s ! i) = []" "in_hand (sn_spawned s ! i) = []"
  shows "push_ok (set_pc i Exited (snd (retire i s)))" (is "push_ok ?t")
proof -
  let ?w = "sn_spawned s ! i" and ?key = "wk_key (sn_spawned s ! i)"
  have t: "?t = s\<lparr>sn_workers := (sn_workers s)(?key := None), sn_spawned := (sn_spawned s)[i := ?w\<lparr>wk_pc := Exited\<rparr>]\<rparr>"
    using idle registered(1) [OF ok i] by (simp add: set_pc_def retire_def Let_def)
  have other: "n \<noteq> i" if "sn_workers s key = Some n" "key \<noteq> ?key" for key n
    using push_okD(3) [OF ok that(1)] that(2) by auto
  show ?thesis
  proof (rule push_okI)
    show "\<not> sn_panicked ?t" using push_okD(1) [OF ok] t by simp
    show "n < length (sn_spawned ?t) \<and> wk_key (sn_spawned ?t ! n) = key \<and> live (sn_spawned ?t ! n)"
      if "sn_workers ?t key = Some n" for key n
      using that push_okD(2,3,4) [OF ok] other [of key n] by (simp add: t split: if_splits)
    show "worker_ok ?t n (sn_spawned ?t ! n)" if "n < length (sn_spawned ?t)" for n
    proof (cases "n = i")
      case True
      then show ?thesis
        using push_okD(5) [OF ok i(1)] idle(1) i(1) by (simp add: t worker_ok_def live_def in_hand_def)
    next
      case False
      then have n: "n < length (sn_spawned s)" "sn_spawned ?t ! n = sn_spawned s ! n" using that t by simp_all
      then have "wk_key (sn_spawned s ! n) \<noteq> ?key" if "live (sn_spawned s ! n)"
        using registered(1) [OF ok n(1) that] registered(1) [OF ok i] False by auto
      then show ?thesis using push_okD(5) [OF ok n(1)] n(2) by (auto simp: t worker_ok_def)
    qed
    show "sn_accepted ?t key = sn_handled ?t key @ pending_of ?t key" for key
    proof (cases "key = ?key")
      case True
      then show ?thesis using registered(2) [OF ok i] idle by (simp add: t pending_of_def)
    next
      case False
      then have "pending_of ?t key = pending_of s key"
        using other [of key] by (auto simp: t pending_of_def split: option.split)
      then show ?thesis using push_okD(6) [OF ok] by (simp add: t)
    qed
  qed
qed

lemma run_ok:
  assumes ok: "push_ok s" and i: "i < length (sn_spawned s)" and run: "run url_ok env idle i s = Some s'"
  shows "push_ok s'"
proof -
  let ?w = "sn_spawned s ! i"
  have w: "worker_ok s i ?w" using push_okD(5) [OF ok i] .
  have live: "live ?w" using run by (auto simp: run_def live_def Let_def split: worker_pc.splits)
  have set: "push_ok (set_pc i pc s)" if "pc \<in> {Selecting, Retiring} \<or> pc = Drained \<and> wk_queue ?w = [] \<and> wk_closed ?w"
    "in_hand ?w = []" for pc
  proof -
    have "push_ok (s\<lparr>sn_spawned := (sn_spawned s)[i := ?w\<lparr>wk_pc := pc\<rparr>], sn_metrics := sn_metrics s,
        sn_accepted := sn_accepted s, sn_handled := sn_handled s\<rparr>)"
      using that w live registered(2) [OF ok i live]
      by (intro update_ok [OF ok i live]) (auto simp: worker_ok_def live_def in_hand_def)
    then show ?thesis by (simp add: set_pc_def)
  qed
  show ?thesis
  proof (cases "wk_pc ?w")
    case Selecting
    then have hand: "in_hand ?w = []" by (simp add: in_hand_def)
    show ?thesis
    proof (cases "\<not> idle \<and> wk_queue ?w \<noteq> []")
      case True
      then obtain job q where q: "wk_queue ?w = job # q" by (cases "wk_queue ?w") auto
      let ?w' = "?w\<lparr>wk_queue := q, wk_pc := Delivering job\<rparr>"
      have "worker_ok s i ?w'" using w live Selecting q by (auto simp: worker_ok_def in_hand_def live_def)
      then have "push_ok (s\<lparr>sn_spawned := (sn_spawned s)[i := ?w'], sn_metrics := sn_metrics s,
          sn_accepted := sn_accepted s, sn_handled := sn_handled s\<rparr>)"
        using registered(2) [OF ok i live] hand q
        by (intro update_ok [OF ok i live]) (auto simp: live_def in_hand_def)
      then show ?thesis using run Selecting True q by (simp add: run_def Let_def)
    next
      case False
      then show ?thesis
        using run Selecting set hand by (auto simp: run_def Let_def split: if_splits list.splits)
    qed
  next
    case (Delivering job)
    let ?pc = "if job_terminal job then Retiring else Selecting"
    let ?w' = "?w\<lparr>wk_pc := ?pc\<rparr>" and ?H = "(sn_handled s)(job_key job := sn_handled s (job_key job) @ [job])"
    have key: "job_key job = wk_key ?w" using w Delivering by (simp add: worker_ok_def in_hand_def)
    have "worker_ok s i ?w'" using w live Delivering by (auto simp: worker_ok_def in_hand_def live_def)
    then have "push_ok (s\<lparr>sn_spawned := (sn_spawned s)[i := ?w'], sn_metrics := m, sn_accepted := sn_accepted s,
        sn_handled := ?H\<rparr>)" for m
      using registered(2) [OF ok i live] Delivering key
      by (intro update_ok [OF ok i live]) (auto simp: live_def in_hand_def)
    moreover have "\<exists>m. s' = s\<lparr>sn_spawned := (sn_spawned s)[i := ?w'], sn_metrics := m,
        sn_accepted := sn_accepted s, sn_handled := ?H\<rparr>"
      using run Delivering by (cases s) (auto simp: run_def Let_def set_pc_def deliverJob_def job_key_def)
    ultimately show ?thesis by auto
  next
    case Retiring
    then have hand: "in_hand ?w = []" by (simp add: in_hand_def)
    show ?thesis
    proof (cases "wk_queue ?w = []")
      case True
      then show ?thesis
        using run Retiring exit_ok [OF ok i live True hand] by (simp add: run_def Let_def retire_def)
    next
      case False
      then show ?thesis using run Retiring set hand by (auto simp: run_def Let_def retire_def)
    qed
  next
    case Drained
    then have "wk_queue ?w = []" "in_hand ?w = []" using w by (auto simp: worker_ok_def in_hand_def)
    then show ?thesis using run Drained exit_ok [OF ok i live] by (simp add: run_def Let_def)
  next
    case Exited
    then show ?thesis using live by (simp add: live_def)
  qed
qed

lemma push_step_ok: "push_step k enc s s' \<Longrightarrow> push_ok s \<Longrightarrow> push_ok s'"
  by (erule push_step.cases)
    (auto simp: close_cancel_def intro: SendPush_ok run_ok close_queues_ok metrics_ok)

abbreviation push_steps :: "sdk \<Rightarrow> (event \<Rightarrow> string option) \<Rightarrow> sender \<Rightarrow> sender \<Rightarrow> bool" where
  "push_steps k enc \<equiv> (push_step k enc)\<^sup>*\<^sup>*"

lemma reachable_ok: "push_steps k enc NewPushSender s \<Longrightarrow> push_ok s"
  by (induction rule: rtranclp_induct) (auto simp: new_sender_ok push_step_ok)


section \<open>Draining\<close>

text \<open>What a worker still has to do, counted in regions of \<open>run\<close> that do not take the timer's case.\<close>

definition rank :: "push_worker \<Rightarrow> nat" where
  "rank w = (case wk_pc w of
       Exited \<Rightarrow> 0 | Drained \<Rightarrow> 1 | Selecting \<Rightarrow> 3 * length (wk_queue w) + 2
     | Retiring \<Rightarrow> 3 * length (wk_queue w) + 3 | Delivering _ \<Rightarrow> 3 * length (wk_queue w) + 4)"

definition work :: "sender \<Rightarrow> nat" where
  "work s = sum_list (map rank (sn_spawned s))"

definition drain_step :: "sender \<Rightarrow> sender \<Rightarrow> bool" where
  "drain_step s t = (\<exists>url_ok env i. i < length (sn_spawned s) \<and> run url_ok env False i s = Some t)"

lemma drain_is_step: "drain_step s t \<Longrightarrow> push_step k enc s t"
  by (auto simp: drain_step_def intro: step_run)

lemma sum_list_update_less:
  "i < length xs \<Longrightarrow> f y < f (xs ! i) \<Longrightarrow> sum_list (map f (xs[i := y])) < (sum_list (map f xs) :: nat)"
proof (induction xs arbitrary: i)
  case (Cons x xs)
  then show ?case by (cases i) auto
qed simp

lemma run_effect:
  assumes "run url_ok env False i s = Some t"
  shows "\<exists>w'. sn_spawned t = (sn_spawned s)[i := w'] \<and> rank w' < rank (sn_spawned s ! i) \<and>
    sn_accepted t = sn_accepted s \<and> sn_closed t = sn_closed s"
proof (cases "wk_pc (sn_spawned s ! i)")
  case Selecting
  then show ?thesis
    using assms by (cases "wk_queue (sn_spawned s ! i)") (auto simp: run_def set_pc_def rank_def Let_def split: if_splits)
next
  case (Delivering job)
  then show ?thesis using assms by (auto simp: run_def set_pc_def rank_def deliverJob_def Let_def)
next
  case Retiring
  then show ?thesis
    using assms
    by (cases "wk_queue (sn_spawned s ! i)"; cases "sn_workers s (wk_key (sn_spawned s ! i)) = Some i")
      (auto simp: run_def set_pc_def rank_def retire_def Let_def)
next
  case Drained
  then show ?thesis
    using assms
    by (cases "wk_queue (sn_spawned s ! i)"; cases "sn_workers s (wk_key (sn_spawned s ! i)) = Some i")
      (auto simp: run_def set_pc_def rank_def retire_def Let_def)
qed (use assms in \<open>simp add: run_def\<close>)

lemma drain_work: "drain_step s t \<Longrightarrow> work t < work s"
  unfolding drain_step_def work_def using run_effect sum_list_update_less by metis

lemma drain_frame: "drain_step s t \<Longrightarrow> sn_accepted t = sn_accepted s \<and> sn_closed t = sn_closed s"
  unfolding drain_step_def using run_effect by metis

lemma drain_enabled:
  assumes "push_ok s" "sn_closed s" "i < length (sn_spawned s)" "live (sn_spawned s ! i)"
  shows "\<exists>t. drain_step s t"
proof -
  have c: "wk_closed (sn_spawned s ! i)" using push_okD(5) [OF assms(1,3)] assms(2,4) by (simp add: worker_ok_def)
  have "\<exists>t. run url_ok env False i s = Some t" for url_ok env
    using c assms(4)
    by (auto simp: run_def Let_def live_def case_prod_beta split: worker_pc.splits list.splits)
  then show ?thesis using assms(3) unfolding drain_step_def by blast
qed

lemma all_exited:
  assumes "push_ok s" "sn_closed s" "\<not> (\<exists>t. drain_step s t)"
  shows "sn_workers s = Map.empty" "sn_handled s key = sn_accepted s key"
proof -
  have gone: "\<not> live (sn_spawned s ! i)" if "i < length (sn_spawned s)" for i
    using drain_enabled [OF assms(1,2) that] assms(3) by blast
  then have "sn_workers s k = None" for k
    using push_okD(2,4) [OF assms(1), of k] by (cases "sn_workers s k") auto
  then show w: "sn_workers s = Map.empty" by auto
  show "sn_handled s key = sn_accepted s key"
    using push_okD(6) [OF assms(1), of key] w by (simp add: pending_of_def)
qed

lemma drain_run:
  assumes "(drain_step ^^ n) s t" "push_ok s"
  shows "push_ok t \<and> sn_accepted t = sn_accepted s \<and> sn_closed t = sn_closed s \<and> n + work t \<le> work s"
  using assms(1)
proof (induction n arbitrary: t)
  case (Suc n)
  then obtain u where u: "(drain_step ^^ n) s u" "drain_step u t" by auto
  then show ?case
    using Suc.IH [OF u(1)] drain_work [OF u(2)] drain_frame [OF u(2)]
      push_step_ok [OF drain_is_step [OF u(2)]] by auto
qed (use assms(2) in simp)

section \<open>Properties of the queues\<close>

text \<open>
  C9. The events of a webhook are delivered in the order they were queued, none twice, and
  none is left behind: in every reachable state the accepted events are the handled ones, the
  one being delivered and the queue of the one worker that serves the webhook; no channel is
  written to or closed after it was closed, and no queue exceeds its size.
\<close>

theorem push_in_order:
  assumes "push_steps k enc NewPushSender s"
  shows "\<not> sn_panicked s \<and> sn_accepted s key = sn_handled s key @ pending_of s key \<and>
    (\<forall>i < length (sn_spawned s). wk_queue (sn_spawned s ! i) \<noteq> [] \<longrightarrow>
       live (sn_spawned s ! i) \<and> sn_workers s (wk_key (sn_spawned s ! i)) = Some i) \<and>
    (\<forall>i < length (sn_spawned s). length (wk_queue (sn_spawned s ! i)) \<le> sn_queueSize s)"
proof -
  have ok: "push_ok s" using reachable_ok [OF assms] .
  show ?thesis
    using push_okD(1) [OF ok] push_okD(6) [OF ok, of key] push_okD(5) [OF ok]
    by (auto simp: worker_ok_def live_def)
qed

definition hook_ref :: config_ref where
  "hook_ref = \<lparr>cr_task = ''t1'', cr_id = ''c1'', cr_url = ''https://example.org/hook'', cr_token = ''tok'', cr_auth = Some 7\<rparr>"

definition ping_event :: event where
  "ping_event = Ev_status ''t1'' \<lparr>st_state = TaskStateWorking, st_message = None, st_timestamp = None\<rparr>"

definition done_event :: event where
  "done_event = Ev_status ''t1'' \<lparr>st_state = TaskStateCompleted, st_message = None, st_timestamp = None\<rparr>"

definition heap0 :: "addr \<Rightarrow> push_auth" where
  "heap0 _ = \<lparr>au_scheme = ''Bearer'', au_credentials = ''s3cret''\<rparr>"

definition enc0 :: "event \<Rightarrow> string option" where
  "enc0 ev = Some (if ev = ping_event then ''ping'' else ''done'')"

definition push_both :: "sender \<Rightarrow> sender" where
  "push_both s = SendPush sdk0 enc0 heap0 (Some hook_ref) done_event (SendPush sdk0 enc0 heap0 (Some hook_ref) ping_event s)"

definition took_first :: sender where
  "took_first = the (run (\<lambda>_. True) flaky_webhook False 0 (push_both NewPushSender))"

lemma push_both_steps: "push_steps sdk0 enc0 s (push_both s)"
  unfolding push_both_def
  by (rule converse_rtranclp_into_rtranclp, rule step_send, rule r_into_rtranclp, rule step_send)

lemma took_first_reachable: "push_steps sdk0 enc0 NewPushSender took_first"
proof -
  have len: "length (sn_spawned (push_both NewPushSender)) = 1" by code_simp
  have "run (\<lambda>_. True) flaky_webhook False 0 (push_both NewPushSender) \<noteq> None" by code_simp
  then have "push_step sdk0 enc0 (push_both NewPushSender) took_first"
    unfolding took_first_def using len by (intro step_run [of 0]) auto
  with push_both_steps show ?thesis by (rule rtranclp.rtrancl_into_rtrancl)
qed

theorem push_in_order_witness:
  "map job_body (pending_of took_first (''t1'', ''c1'')) = [''ping'', ''done''] \<and>
   sn_accepted took_first (''t1'', ''c1'') = sn_handled took_first (''t1'', ''c1'') @ pending_of took_first (''t1'', ''c1'')"
proof -
  have "map job_body (pending_of took_first (''t1'', ''c1'')) = [''ping'', ''done'']" by code_simp
  then show ?thesis using push_in_order [OF took_first_reachable, of "(''t1'', ''c1'')"] by blast
qed

text \<open>
  C26. \<open>Close\<close> drains: once the sender is closed the workers cannot run forever nor get stuck.
  A run of worker steps from a reachable closed state has at most \<open>work s\<close> steps (idle timers
  aside), and where it can go no further every worker is gone and every event that was ever
  accepted has been handled.
\<close>

theorem push_close_drains:
  assumes "push_steps k enc NewPushSender s" "sn_closed s" "(drain_step ^^ n) s t"
  shows "n \<le> work s \<and>
    (\<not> (\<exists>u. drain_step t u) \<longrightarrow> activeWorkers t = 0 \<and> (\<forall>key. sn_handled t key = sn_accepted s key))"
proof -
  have t: "push_ok t" "sn_accepted t = sn_accepted s" "sn_closed t" "n + work t \<le> work s"
    using drain_run [OF assms(3) reachable_ok [OF assms(1)]] assms(2) by auto
  then show ?thesis using all_exited [OF t(1,3)] by (auto simp: activeWorkers_def)
qed

definition closed_both :: sender where
  "closed_both = close_queues (push_both NewPushSender)"

lemma closed_both_reachable: "push_steps sdk0 enc0 NewPushSender closed_both"
  unfolding closed_both_def using push_both_steps step_close by (rule rtranclp.rtrancl_into_rtrancl)

theorem push_close_drains_witness:
  "sn_closed closed_both \<and> drain_step closed_both (the (run (\<lambda>_. True) flaky_webhook False 0 closed_both)) \<and> 1 \<le> work closed_both"
proof -
  have c: "sn_closed closed_both" "0 < length (sn_spawned closed_both)"
    "run (\<lambda>_. True) flaky_webhook False 0 closed_both \<noteq> None" by code_simp+
  then have d: "drain_step closed_both (the (run (\<lambda>_. True) flaky_webhook False 0 closed_both))"
    unfolding drain_step_def by auto
  then have "(drain_step ^^ 1) closed_both (the (run (\<lambda>_. True) flaky_webhook False 0 closed_both))"
    by (simp add: relcompp_apply)
  then show ?thesis using push_close_drains [OF closed_both_reachable c(1)] c(1) d by blast
qed

end
