(* ===== verification/Directory.thy ===== *)
theory Directory
  imports Go_Json Go_Time Metrics
begin

text \<open>
  internal/directory/registry.go: the local registry of agents and its HTTP routes.

  The map of entries is the list of its entries in the order of their URLs; Go iterates over
  a map in any order, so the order of a listing is a parameter.  \<open>url.Parse\<close> is a parameter
  that gives the scheme and the host of a URL, or nothing when it is malformed.

  Shown: which agents are listed after any history of requests and collections, that only
  absolute http and https URLs get in, and the gauge of the number of peers.
\<close>

section \<open>Registry\<close>

record dir_entry =
  en_url :: string
  en_lastSeen :: gotime

record registry =
  rg_entries :: "(string \<times> dir_entry) list"
  rg_ttl :: duration
  rg_metrics :: metrics

definition New :: registry where
  "New = \<lparr>rg_entries = [], rg_ttl = 90 * second_d, rg_metrics = metrics0\<rparr>"

definition set_entries :: "(string \<times> dir_entry) list \<Rightarrow> registry \<Rightarrow> registry" where
  "set_entries es r = r\<lparr>rg_entries := es, rg_metrics := SetPeers (length es) (rg_metrics r)\<rparr>"

text \<open>One tick of the collector.\<close>

definition gc :: "gotime \<Rightarrow> registry \<Rightarrow> registry" where
  "gc now r =
     (let cutoff = time_add now (- rg_ttl r)
      in set_entries (filter (\<lambda>e. \<not> time_before (en_lastSeen (snd e)) cutoff) (rg_entries r)) r)"

definition Register :: "gotime \<Rightarrow> string \<Rightarrow> registry \<Rightarrow> registry" where
  "Register now url r = set_entries (map_put url \<lparr>en_url = url, en_lastSeen = now\<rparr> (rg_entries r)) r"

definition Unregister :: "string \<Rightarrow> registry \<Rightarrow> registry" where
  "Unregister url r = set_entries (filter (\<lambda>e. fst e \<noteq> url) (rg_entries r)) r"

definition List_entries :: "((string \<times> dir_entry) list \<Rightarrow> (string \<times> dir_entry) list) \<Rightarrow> registry \<Rightarrow> dir_entry list" where
  "List_entries ord r = map snd (ord (rg_entries r))"

type_synonym url_parser = "string \<Rightarrow> (string \<times> string) option"

definition validAgentURL :: "url_parser \<Rightarrow> string \<Rightarrow> bool" where
  "validAgentURL parse raw =
     (case parse raw of
        None \<Rightarrow> False
      | Some (scheme, host) \<Rightarrow> (scheme = ''http'' \<or> scheme = ''https'') \<and> host \<noteq> '''')"

section \<open>Routes\<close>

text \<open>A request after the mux has chosen the pattern: what the handler reads.\<close>

record dir_response =
  dr_status :: nat
  dr_body :: string

definition entry_object :: "dir_entry \<Rightarrow> json" where
  "entry_object e = JObj [(''url'', JStr (en_url e)), (''lastSeen'', JStr (time_format True (en_lastSeen e)))]"

definition body_url :: "string \<Rightarrow> string option" where
  "body_url body =
     (case decode_first body of
        None \<Rightarrow> None
      | Some j \<Rightarrow> map_option (\<lambda>f. f ''url'') (decode_struct [''url''] j))"

definition bad_request :: dir_response where
  "bad_request = \<lparr>dr_status = 400, dr_body = ''bad request'' @ [CHR 0x0A]\<rparr>"

definition no_content :: dir_response where
  "no_content = \<lparr>dr_status = 204, dr_body = ''''\<rparr>"

text \<open>A listing with an entry that has no JSON form (a year beyond 9999) is an empty answer.\<close>

definition agents_body :: "dir_entry list \<Rightarrow> string" where
  "agents_body es =
     (if list_all (\<lambda>e. formattable (en_lastSeen e)) es then marshal (JArr (map entry_object es)) @ [CHR 0x0A] else '''')"

definition post_refresh :: "url_parser \<Rightarrow> gotime \<Rightarrow> string \<Rightarrow> registry \<Rightarrow> dir_response \<times> registry" where
  "post_refresh parse now body r =
     (case body_url body of
        None \<Rightarrow> (bad_request, r)
      | Some url \<Rightarrow> if validAgentURL parse url then (no_content, Register now url r) else (bad_request, r))"

definition post_unregister :: "string \<Rightarrow> registry \<Rightarrow> dir_response \<times> registry" where
  "post_unregister body r =
     (case body_url body of
        None \<Rightarrow> (bad_request, r)
      | Some url \<Rightarrow> if url = '''' then (bad_request, r) else (no_content, Unregister url r))"

datatype dir_route = GET_healthz | GET_metrics | GET_agents | POST_register | POST_unregister | POST_heartbeat

definition Routes ::
  "url_parser \<Rightarrow> ((string \<times> dir_entry) list \<Rightarrow> (string \<times> dir_entry) list) \<Rightarrow> string \<Rightarrow> gotime \<Rightarrow>
   dir_route \<Rightarrow> string \<Rightarrow> registry \<Rightarrow> dir_response \<times> registry"
where
  "Routes parse ord uptime now route body r =
     (case route of
        GET_healthz \<Rightarrow> (\<lparr>dr_status = 200, dr_body = ''ok''\<rparr>, r)
      | GET_metrics \<Rightarrow> (\<lparr>dr_status = 200, dr_body = emit uptime (rg_metrics r)\<rparr>, r)
      | GET_agents \<Rightarrow> (\<lparr>dr_status = 200, dr_body = agents_body (List_entries ord r)\<rparr>, r)
      | POST_register \<Rightarrow> post_refresh parse now body r
      | POST_unregister \<Rightarrow> post_unregister body r
      | POST_heartbeat \<Rightarrow> post_refresh parse now body r)"

section \<open>Histories\<close>

datatype dir_op = Reg gotime string | Unreg string | Collect gotime

fun apply_op :: "dir_op \<Rightarrow> registry \<Rightarrow> registry" where
  "apply_op (Reg now url) r = Register now url r"
| "apply_op (Unreg url) r = Unregister url r"
| "apply_op (Collect now) r = gc now r"

definition seen :: "registry \<Rightarrow> string \<Rightarrow> gotime option" where
  "seen r url = map_option en_lastSeen (map_of (rg_entries r) url)"

definition registry_ok :: "registry \<Rightarrow> bool" where
  "registry_ok r =
     (map_keys_ok (rg_entries r) \<and> (\<forall>e \<in> set (rg_entries r). en_url (snd e) = fst e) \<and>
      currentPeers (rg_metrics r) = of_nat (length (rg_entries r)) \<and> rg_ttl r = 90 * second_d)"

lemma map_of_filter_val:
  "distinct (map fst es) \<Longrightarrow>
   map_of (filter P es) k = (case map_of es k of None \<Rightarrow> None | Some v \<Rightarrow> if P (k, v) then Some v else None)"
  by (induction es) (auto simp: map_of_eq_None_iff [symmetric] image_iff split: option.splits dest: map_of_SomeD)

lemma filter_keys_ok: "map_keys_ok es \<Longrightarrow> map_keys_ok (filter P es)"
  by (auto simp: map_keys_ok_def distinct_map_filter sorted_filter)

lemma New_ok: "registry_ok New"
  by (simp add: registry_ok_def New_def map_keys_ok_def metrics0_def)

lemma apply_op_ok: "registry_ok r \<Longrightarrow> registry_ok (apply_op op r)"
  by (cases op)
    (auto simp: registry_ok_def gc_def Register_def Unregister_def set_entries_def SetPeers_def Let_def
      filter_keys_ok map_put_keys_ok dest!: set_map_put)

lemma seen_apply:
  assumes "registry_ok r"
  shows "seen (apply_op (Reg now url) r) u = (if u = url then Some now else seen r u)"
    "seen (apply_op (Unreg url) r) u = (if u = url then None else seen r u)"
    "seen (apply_op (Collect now) r) u =
       (case seen r u of None \<Rightarrow> None | Some t \<Rightarrow> if time_before t (time_add now (- (90 * second_d))) then None else Some t)"
  using assms
  by (auto simp: seen_def registry_ok_def gc_def Register_def Unregister_def set_entries_def map_put_lookup Let_def
      map_of_filter_val map_keys_ok_def split: option.splits)


lemma fold_op_ok: "registry_ok r \<Longrightarrow> registry_ok (fold apply_op ops r)"
  by (induction ops arbitrary: r) (auto simp: apply_op_ok)

definition keeps :: "string \<Rightarrow> gotime \<Rightarrow> dir_op \<Rightarrow> bool" where
  "keeps url t op =
     (case op of
        Reg _ v \<Rightarrow> v \<noteq> url
      | Unreg v \<Rightarrow> v \<noteq> url
      | Collect now \<Rightarrow> unix_nano now \<le> unix_nano t + 90 * second_d)"

lemma seen_apply_iff:
  assumes "registry_ok r"
  shows "seen (apply_op op r) url = Some t \<longleftrightarrow> op = Reg t url \<or> seen r url = Some t \<and> keeps url t op"
  using seen_apply [OF assms]
  by (cases op) (auto simp: keeps_def time_before_def time_add_def split: option.splits)


section \<open>Requests\<close>

datatype dir_event = Request gotime dir_route string | Tick gotime

fun serve_event :: "url_parser \<Rightarrow> dir_event \<Rightarrow> registry \<Rightarrow> registry" where
  "serve_event parse (Request now route body) r = snd (Routes parse (\<lambda>es. es) '''' now route body r)"
| "serve_event parse (Tick now) r = gc now r"

definition all_valid :: "url_parser \<Rightarrow> registry \<Rightarrow> bool" where
  "all_valid parse r = list_all (\<lambda>e. validAgentURL parse (fst e)) (rg_entries r)"

lemma serve_event_op:
  "serve_event parse ev r = r \<or>
   (\<exists>op. serve_event parse ev r = apply_op op r \<and> (\<forall>now url. op = Reg now url \<longrightarrow> validAgentURL parse url))"
proof (cases ev)
  case (Tick now)
  then show ?thesis by (auto intro!: exI [of _ "Collect now"])
next
  case (Request now route body)
  have "post_refresh parse now body r = (bad_request, r) \<or>
      (\<exists>url. post_refresh parse now body r = (no_content, Register now url r) \<and> validAgentURL parse url)"
    by (auto simp: post_refresh_def split: option.split)
  moreover have "post_unregister body r = (bad_request, r) \<or> (\<exists>url. post_unregister body r = (no_content, Unregister url r))"
    by (auto simp: post_unregister_def split: option.split)
  ultimately show ?thesis
    unfolding Request
    by (cases route; simp add: Routes_def; metis apply_op.simps dir_op.distinct(1) dir_op.inject(1) snd_conv)
qed

lemma all_valid_op:
  "all_valid parse r \<Longrightarrow> (\<forall>now url. op = Reg now url \<longrightarrow> validAgentURL parse url) \<Longrightarrow> all_valid parse (apply_op op r)"
  by (cases op)
    (auto simp: all_valid_def list_all_iff gc_def Register_def Unregister_def set_entries_def Let_def dest!: set_map_put)

text \<open>
  Whatever is posted to the directory, it only ever lists absolute http and https URLs,
  one entry per URL under that URL, and the peers gauge is the number of entries.
\<close>

theorem directory_entries_valid:
  "all_valid parse (fold (serve_event parse) evs New) \<and> registry_ok (fold (serve_event parse) evs New)"
proof (induction evs rule: rev_induct)
  case Nil
  then show ?case using New_ok by (simp add: all_valid_def New_def)
next
  case (snoc ev evs)
  then show ?case
    using serve_event_op [of parse ev "fold (serve_event parse) evs New"] apply_op_ok all_valid_op
    by (simp only: fold_append fold_simps o_apply) metis
qed

end
