(* ===== verification/Mcp_Tools.thy ===== *)
theory Mcp_Tools
  imports Executor Pii_Screen Push_Queue Directory
begin

text \<open>
  internal/agent/mcp.go: the MCP tools through which the host uses the bridge, the reply
  subscription they start, discovery and the heartbeat.

  The MCP library's reading of arguments, the A2A client of a peer and the HTTP client are
  parameters; the JSON form of SDK values is a parameter.  What leaves the agent is recorded:
  the messages sent to peers.

  Shown: whatever the host asks to send, nothing that matches a secret pattern leaves the
  agent; discovery reads what the directory serves; the heartbeat is what the directory takes.
\<close>

section \<open>Outbound text\<close>

definition screenOutbound :: "string \<Rightarrow> string \<times> pii_match list" where
  "screenOutbound t = Screen t"

record identity =
  own_name :: string
  self_url :: string

definition outboundMessage :: "identity \<Rightarrow> string \<Rightarrow> string \<Rightarrow> pii_match list \<Rightarrow> message" where
  "outboundMessage me new_id t hits =
     \<lparr>m_id = new_id, m_contextId = '''', m_taskId = '''', m_role = RoleUser, m_parts = [Some (NewTextPart t)],
      m_metadata = [(''from'', JStr (own_name me)), (''fromUrl'', JStr (self_url me))] @
        (if hits \<noteq> [] then [(''redactions'', JStr (FormatMatches hits))] else [])\<rparr>"

section \<open>Tools\<close>

datatype tool_result = Tool_error string | Tool_text string

text \<open>\<open>MarshalIndent\<close> of an SDK value, \<open>None\<close> when it has no JSON form.\<close>

definition jsonResult :: "('v \<Rightarrow> string option) \<Rightarrow> 'v \<Rightarrow> tool_result" where
  "jsonResult enc v = (case enc v of None \<Rightarrow> Tool_error ''encode result: '' | Some b \<Rightarrow> Tool_text b)"

text \<open>The arguments of a call as the MCP library reads them: a required string or the library's complaint.\<close>

record mcp_request =
  mr_require :: "string \<Rightarrow> string + string"
  mr_string :: "string \<Rightarrow> string \<Rightarrow> string"
  mr_bool :: "string \<Rightarrow> bool \<Rightarrow> bool"

datatype send_result = Res_task task | Res_message message

record send_request =
  sr_message :: message
  sr_immediate :: bool
  sr_modes :: "string list"

definition TextMediaType :: string where "TextMediaType = ''text/plain''"

text \<open>A peer's client: connecting gives the name on its card or an error.\<close>

record peer_net =
  pn_client :: "string \<Rightarrow> string + string"
  pn_send :: "string \<Rightarrow> send_request \<Rightarrow> string + send_result"
  pn_stream :: "string \<Rightarrow> send_request \<Rightarrow> (string + event) list"
  pn_get :: "string \<Rightarrow> task_id \<Rightarrow> string + task"
  pn_cancel :: "string \<Rightarrow> task_id \<Rightarrow> string + task"

record encoders =
  enc_result :: "send_result \<Rightarrow> string option"
  enc_events :: "event list \<Rightarrow> string option"
  enc_task :: "task \<Rightarrow> string option"

record mcp_world =
  mw_executor :: executor
  mw_sent :: "(string \<times> message) list"
  mw_subscribed :: "(string \<times> task_id) list"

abbreviation with_store :: "mcp_world \<Rightarrow> store \<Rightarrow> mcp_world" where
  "with_store w s \<equiv> w\<lparr>mw_executor := (mw_executor w)\<lparr>ex_store := s\<rparr>\<rparr>"

abbreviation store_of :: "mcp_world \<Rightarrow> store" where
  "store_of w \<equiv> ex_store (mw_executor w)"

definition count_sent :: "mcp_world \<Rightarrow> mcp_world" where
  "count_sent w = with_store w ((store_of w)\<lparr>mets := IncMessagesSent (mets (store_of w))\<rparr>)"

definition tool_send_message ::
  "sdk \<Rightarrow> snapshot_codec \<Rightarrow> disk_io \<Rightarrow> gotime \<Rightarrow> string \<Rightarrow> identity \<Rightarrow> encoders \<Rightarrow> peer_net \<Rightarrow> mcp_request \<Rightarrow>
   mcp_world \<Rightarrow> tool_result \<times> mcp_world"
where
  "tool_send_message k cd io now new_id me en pn rq w =
     (case mr_require rq ''peer_url'' of
        Inl e \<Rightarrow> (Tool_error e, w)
      | Inr peerURL \<Rightarrow>
          (case mr_require rq ''text'' of
             Inl e \<Rightarrow> (Tool_error e, w)
           | Inr t \<Rightarrow>
               (case screenOutbound t of
                  (clean_text, hits) \<Rightarrow>
                    (let msg = (outboundMessage me new_id clean_text hits)
                           \<lparr>m_contextId := mr_string rq ''context_id'' '''', m_taskId := mr_string rq ''task_id'' ''''\<rparr>
                     in case pn_client pn peerURL of
                          Inl e \<Rightarrow> (Tool_error e, w)
                        | Inr peerName \<Rightarrow>
                            (let req = \<lparr>sr_message = msg, sr_immediate = \<not> mr_bool rq ''blocking'' False,
                                        sr_modes = [TextMediaType]\<rparr>;
                                 w = w\<lparr>mw_sent := mw_sent w @ [(peerURL, msg)]\<rparr>
                             in case pn_send pn peerURL req of
                                  Inl e \<Rightarrow> (Tool_error e, w)
                                | Inr res \<Rightarrow>
                                    (let w = count_sent w in
                                     case res of
                                       Res_message _ \<Rightarrow> (jsonResult (enc_result en) res, w)
                                     | Res_task task \<Rightarrow>
                                         (let w = with_store w (TrackOutgoing (t_id task) peerURL peerName clean_text now (store_of w));
                                              w = (if task_terminal k task
                                                   then with_store w (snd (IngestOutgoingTerminal k cd io now (Some task) (store_of w)))
                                                   else w\<lparr>mw_subscribed := mw_subscribed w @ [(peerURL, t_id task)]\<rparr>)
                                          in (jsonResult (enc_result en) res, w))))))))"

text \<open>The loop over the stream: the events until an error or the first terminal event.\<close>

fun collect_stream :: "sdk \<Rightarrow> (string + event) list \<Rightarrow> event list \<times> string option" where
  "collect_stream k [] = ([], None)"
| "collect_stream k (Inl e # is) = ([], Some e)"
| "collect_stream k (Inr ev # is) =
     (if isTerminalEvent k ev then ([ev], None)
      else case collect_stream k is of (evs, err) \<Rightarrow> (ev # evs, err))"

text \<open>\<open>expired\<close>: the stream failed because the call's own timeout, here as text, ran out.\<close>

definition tool_send_streaming ::
  "sdk \<Rightarrow> string \<Rightarrow> bool \<Rightarrow> string \<Rightarrow> identity \<Rightarrow> encoders \<Rightarrow> peer_net \<Rightarrow> mcp_request \<Rightarrow> mcp_world \<Rightarrow> tool_result \<times> mcp_world"
where
  "tool_send_streaming k timeout expired new_id me en pn rq w =
     (case mr_require rq ''peer_url'' of
        Inl e \<Rightarrow> (Tool_error e, w)
      | Inr peerURL \<Rightarrow>
          (case mr_require rq ''text'' of
             Inl e \<Rightarrow> (Tool_error e, w)
           | Inr t \<Rightarrow>
               (case screenOutbound t of
                  (clean_text, hits) \<Rightarrow>
                    (let msg = outboundMessage me new_id clean_text hits in
                     case pn_client pn peerURL of
                       Inl e \<Rightarrow> (Tool_error e, w)
                     | Inr _ \<Rightarrow>
                         (let req = \<lparr>sr_message = msg, sr_immediate = False, sr_modes = [TextMediaType]\<rparr>;
                              w = w\<lparr>mw_sent := mw_sent w @ [(peerURL, msg)]\<rparr>
                          in case collect_stream k (pn_stream pn peerURL req) of
                               (collected, None) \<Rightarrow> (jsonResult (enc_events en) collected, count_sent w)
                             | (collected, Some e) \<Rightarrow>
                                 if expired then
                                   (case enc_events en collected of
                                      None \<Rightarrow> (Tool_error ''encode result: '', count_sent w)
                                    | Some b \<Rightarrow>
                                        (Tool_text (''note: timed out after '' @ timeout @
                                           '' before the task reached a terminal state; events collected so far:'' @ [CHR 0x0A] @ b),
                                         count_sent w))
                                 else (Tool_error e, w))))))"

text \<open>\<open>Peers.GetTask\<close>: connect, fetch, release.\<close>

definition Peers_GetTask :: "peer_net \<Rightarrow> string \<Rightarrow> task_id \<Rightarrow> string + task" where
  "Peers_GetTask pn peerURL i =
     (case pn_client pn peerURL of
        Inl e \<Rightarrow> Inl e
      | Inr _ \<Rightarrow>
          (case pn_get pn peerURL i of
             Inl e \<Rightarrow> Inl (''get task '' @ i @ '' from '' @ peerURL @ '': '' @ e)
           | Inr t \<Rightarrow> Inr t))"

definition tool_get_task :: "encoders \<Rightarrow> peer_net \<Rightarrow> mcp_request \<Rightarrow> tool_result" where
  "tool_get_task en pn rq =
     (case mr_require rq ''peer_url'' of
        Inl e \<Rightarrow> Tool_error e
      | Inr peerURL \<Rightarrow>
          (case mr_require rq ''task_id'' of
             Inl e \<Rightarrow> Tool_error e
           | Inr i \<Rightarrow>
               (case Peers_GetTask pn peerURL i of
                  Inl e \<Rightarrow> Tool_error e
                | Inr t \<Rightarrow> jsonResult (enc_task en) t)))"

definition tool_cancel_task :: "encoders \<Rightarrow> peer_net \<Rightarrow> mcp_request \<Rightarrow> tool_result" where
  "tool_cancel_task en pn rq =
     (case mr_require rq ''peer_url'' of
        Inl e \<Rightarrow> Tool_error e
      | Inr peerURL \<Rightarrow>
          (case mr_require rq ''task_id'' of
             Inl e \<Rightarrow> Tool_error e
           | Inr i \<Rightarrow>
               (case pn_client pn peerURL of
                  Inl e \<Rightarrow> Tool_error e
                | Inr _ \<Rightarrow>
                    (case pn_cancel pn peerURL i of
                       Inl e \<Rightarrow> Tool_error e
                     | Inr t \<Rightarrow> jsonResult (enc_task en) t))))"

text \<open>The JSON form of an inbox entry; empty strings are left out where the struct says so.\<close>

definition opt_member :: "string \<Rightarrow> string \<Rightarrow> (string \<times> json) list" where
  "opt_member key v = (if v = '''' then [] else [(key, JStr v)])"


definition inbox_object :: "inbox_entry \<Rightarrow> json" where
  "inbox_object e =
     JObj ([(''messageId'', JStr (e_messageId e)), (''taskId'', JStr (e_taskId e)), (''contextId'', JStr (e_contextId e)),
            (''from'', JStr (e_from e)), (''text'', JStr (e_text e))] @
           opt_member ''kind'' (e_kind e) @ opt_member ''state'' (e_state e) @ opt_member ''ts'' (e_ts e))"

definition tool_inbox :: "snapshot_codec \<Rightarrow> disk_io \<Rightarrow> mcp_request \<Rightarrow> mcp_world \<Rightarrow> tool_result \<times> mcp_world" where
  "tool_inbox cd io rq w =
     (case (if mr_bool rq ''peek'' False then PeekInbox cd io (store_of w) else DrainInbox cd io (store_of w)) of
        (entries, s) \<Rightarrow>
          (if entries = [] then Tool_text ''[]''
           else jsonResult (\<lambda>es. Some (marshal_indent (JArr (map inbox_object es)))) entries,
           with_store w s))"

definition error_text :: "task_id \<Rightarrow> a2a_error \<Rightarrow> string" where
  "error_text i e = ''complete task '' @ i @ '': '' @
     (case e of ErrReplyPending \<Rightarrow> ''a reply for this task is already pending'' | _ \<Rightarrow> ''task not found'')"

definition tool_complete_task :: "snapshot_codec \<Rightarrow> disk_io \<Rightarrow> mcp_request \<Rightarrow> mcp_world \<Rightarrow> tool_result \<times> mcp_world" where
  "tool_complete_task cd io rq w =
     (case mr_require rq ''task_id'' of
        Inl e \<Rightarrow> (Tool_error e, w)
      | Inr i \<Rightarrow>
          (case mr_require rq ''text'' of
             Inl e \<Rightarrow> (Tool_error e, w)
           | Inr t \<Rightarrow>
               (case screenOutbound t of
                  (clean_text, hits) \<Rightarrow>
                    (case CompleteTask cd io i clean_text (mw_executor w) of
                       (Some e, ex) \<Rightarrow> (Tool_error (error_text i e), w\<lparr>mw_executor := ex\<rparr>)
                     | (None, ex) \<Rightarrow>
                         (if hits \<noteq> [] then Tool_text (''completed ('' @ FormatMatches hits @ '')'') else Tool_text ''completed'',
                          count_sent (w\<lparr>mw_executor := ex\<rparr>))))))"

text \<open>The reply subscription: the stream's events are awaited, then the task is fetched and handed to the store.\<close>

definition subscribeOutgoingReply ::
  "sdk \<Rightarrow> snapshot_codec \<Rightarrow> disk_io \<Rightarrow> gotime \<Rightarrow> bool \<Rightarrow> peer_net \<Rightarrow> string \<Rightarrow> task_id \<Rightarrow> store \<Rightarrow> store"
where
  "subscribeOutgoingReply k cd io now stopped pn peerURL i s =
     (case pn_client pn peerURL of
        Inl _ \<Rightarrow> s
      | Inr _ \<Rightarrow>
          if stopped then s
          else (case pn_get pn peerURL i of
                  Inl _ \<Rightarrow> s
                | Inr task \<Rightarrow> snd (IngestOutgoingTerminal k cd io now (Some task) s)))"

section \<open>Discovery and heartbeat\<close>

record 'card peer_info =
  pi_url :: string
  pi_card :: "'card option"
  pi_err :: string

definition peer_info_of :: "(string \<Rightarrow> string + 'card) \<Rightarrow> string \<Rightarrow> 'card peer_info" where
  "peer_info_of resolve url =
     (case resolve url of
        Inl e \<Rightarrow> \<lparr>pi_url = url, pi_card = None, pi_err = e\<rparr>
      | Inr c \<Rightarrow> \<lparr>pi_url = url, pi_card = Some c, pi_err = ''''\<rparr>)"

definition decode_urls :: "string \<Rightarrow> string list option" where
  "decode_urls body =
     (case decode_first body of
        Some (JArr js) \<Rightarrow> decode_all (\<lambda>j. map_option (\<lambda>f. f ''url'') (decode_struct [''url''] j)) js
      | Some JNull \<Rightarrow> Some []
      | _ \<Rightarrow> None)"

text \<open>The cards are fetched concurrently, each into its own slot of the result.\<close>

definition listPeers ::
  "(string \<Rightarrow> net_answer) \<Rightarrow> (string \<Rightarrow> string + 'card) \<Rightarrow> string \<Rightarrow> string \<Rightarrow> 'card peer_info list option"
where
  "listPeers net resolve directoryURL selfURL =
     (if directoryURL = '''' then None
      else
        (case net (trim_right (CHR ''/'') directoryURL @ ''/agents'') of
           Net_error \<Rightarrow> None
         | Answer status body broken \<Rightarrow>
             if status \<noteq> 200 then None
             else map_option (\<lambda>urls. map (peer_info_of resolve) (filter (\<lambda>u. u \<noteq> selfURL) urls)) (decode_urls body)))"

definition heartbeat_body :: "string \<Rightarrow> string" where
  "heartbeat_body selfURL = marshal (JObj [(''url'', JStr selfURL)])"

text \<open>The requests of a heartbeat that ticks \<open>n\<close> times before its context is done.\<close>

definition Heartbeat :: "string \<Rightarrow> string \<Rightarrow> nat \<Rightarrow> (string \<times> string) list" where
  "Heartbeat directoryURL selfURL n =
     (let post = \<lambda>path. (trim_right (CHR ''/'') directoryURL @ path, heartbeat_body selfURL)
      in post ''/register'' # replicate n (post ''/heartbeat'') @ [post ''/unregister''])"

section \<open>Nothing secret leaves\<close>

definition secret_free :: "string \<Rightarrow> bool" where
  "secret_free s = (\<forall>p \<in> set defaultPatterns. \<forall>v \<in> lang (snd p). \<not> sublist v s)"

definition message_clean :: "message \<Rightarrow> bool" where
  "message_clean m = (\<exists>t. m_parts m = [Some (NewTextPart t)] \<and> secret_free t)"

text \<open>The outgoing side of the agent: messages to peers, replies handed to executions, questions kept for the inbox.\<close>

definition outbound_clean :: "mcp_world \<Rightarrow> bool" where
  "outbound_clean w =
     (list_all (\<lambda>x. message_clean (snd x)) (mw_sent w) \<and>
      (\<forall>i r. ex_waiters (mw_executor w) i = Some (Some r) \<longrightarrow> secret_free r) \<and>
      (\<forall>i p. pendingOutgoing (store_of w) i = Some p \<longrightarrow> secret_free (p_question p)))"

lemma Screen_secret_free: "secret_free (fst (Screen t))"
  using Screen_free by (auto simp: secret_free_def free_of_def)

lemma outbound_message_clean: "message_clean ((outboundMessage me i (fst (Screen t)) hits)\<lparr>m_contextId := c, m_taskId := tk\<rparr>)"
  "message_clean (outboundMessage me i (fst (Screen t)) hits)"
  using Screen_secret_free by (auto simp: message_clean_def outboundMessage_def)

lemma sent_frame:
  "mw_sent (count_sent w) = mw_sent w" "ex_waiters (mw_executor (count_sent w)) = ex_waiters (mw_executor w)"
  "pendingOutgoing (store_of (count_sent w)) = pendingOutgoing (store_of w)"
  by (simp_all add: count_sent_def)

lemma ingest_pending:
  "pendingOutgoing (snd (IngestOutgoingTerminal k cd io now mt s)) i = Some p \<Longrightarrow> pendingOutgoing s i = Some p"
  by (auto simp: IngestOutgoingTerminal_def takePending_def appendSyntheticReply_def appendInboxLocked_def Let_def
      split: option.splits if_splits)


text \<open>
  The agent at work: tool calls with any arguments and any peers, reply subscriptions and the
  regions of executions, in any order.
\<close>

inductive mcp_step :: "sdk \<Rightarrow> event_sdk \<Rightarrow> snapshot_codec \<Rightarrow> identity \<Rightarrow> mcp_world \<Rightarrow> mcp_world \<Rightarrow> bool" for k es cd me where
  call_send: "mcp_step k es cd me w (snd (tool_send_message k cd io now new_id me en pn rq w))"
| call_stream: "mcp_step k es cd me w (snd (tool_send_streaming k timeout expired new_id me en pn rq w))"
| call_inbox: "mcp_step k es cd me w (snd (tool_inbox cd io rq w))"
| call_complete: "mcp_step k es cd me w (snd (tool_complete_task cd io rq w))"
| reply_arrives: "mcp_step k es cd me w (with_store w (subscribeOutgoingReply k cd io now stopped pn url i (store_of w)))"
| execution_runs: "exec_step k es cd io taken canceled x (mw_executor w) = Some (x', ex') \<Longrightarrow>
    mcp_step k es cd me w (w\<lparr>mw_executor := ex'\<rparr>)"

lemma CompleteTask_clean:
  assumes "CompleteTask cd io i r ex = (e, ex')" "ex_waiters ex' j = Some (Some r')"
  shows "ex_waiters ex j = Some (Some r') \<or> r' = r"
  using assms by (auto simp: CompleteTask_def Let_def split: prod.splits option.splits if_splits)

lemma CompleteTask_pending: "CompleteTask cd io i r ex = (e, ex') \<Longrightarrow> pendingOutgoing (ex_store ex') = pendingOutgoing (ex_store ex)"
  by (auto simp: CompleteTask_def Let_def quiet_ops(4) split: prod.splits option.splits dest!: arg_cong [where f = snd])

lemma exec_keeps_pending:
  assumes "exec_step k es cd io taken canceled x ex = Some (x', ex')"
  shows "pendingOutgoing (ex_store ex') = pendingOutgoing (ex_store ex)"
proof (cases "x_point x")
  case At_deliver
  then obtain m where m: "exec_deliver k es cd io taken m x ex = (x', ex')"
    using assms by (auto simp: exec_step_def)
  have "pendingOutgoing (snd (deliverIncoming cd io (inbound_entry k x m) (ex_store ex))) = pendingOutgoing (ex_store ex)"
    by (rule quiet_ops)
  then show ?thesis using m
    by (cases "deliverIncoming cd io (inbound_entry k x m) (ex_store ex)"; cases taken)
      (auto simp: exec_deliver_def emit_out_def end_exec_def unregisterWaiter_def Let_def split: bool.splits)
qed (use assms in \<open>auto simp: exec_step_def exec_defs Let_def split: option.splits if_splits\<close>)

lemma tool_send_clean:
  assumes "outbound_clean w"
  shows "outbound_clean (snd (tool_send_message k cd io now new_id me en pn rq w))"
proof (cases "mr_require rq ''peer_url''"; cases "mr_require rq ''text''")
  fix url t
  assume rq: "mr_require rq ''peer_url'' = Inr url" "mr_require rq ''text'' = Inr t"
  let ?q = "fst (Screen t)"
  define msg where "msg = (outboundMessage me new_id ?q (snd (Screen t)))
    \<lparr>m_contextId := mr_string rq ''context_id'' '''', m_taskId := mr_string rq ''task_id'' ''''\<rparr>"
  define sent where "sent = w\<lparr>mw_sent := mw_sent w @ [(url, msg)]\<rparr>"
  have msg: "message_clean msg" unfolding msg_def by (rule outbound_message_clean)
  then have sent: "outbound_clean sent" using assms by (simp add: outbound_clean_def sent_def)
  have counted: "outbound_clean (count_sent sent)" using sent by (simp add: outbound_clean_def sent_frame)
  define tracked where "tracked tk nm =
    with_store (count_sent sent) (TrackOutgoing (t_id tk) url nm ?q now (store_of (count_sent sent)))" for tk :: task and nm
  have tracked: "outbound_clean (tracked tk nm)" for tk nm
    using counted Screen_secret_free by (auto simp: outbound_clean_def tracked_def TrackOutgoing_def)
  have ingested: "outbound_clean (with_store (tracked tk nm)
      (snd (IngestOutgoingTerminal k cd io now (Some tk) (store_of (tracked tk nm)))))" for tk nm
    using tracked [of tk nm] by (auto simp: outbound_clean_def dest!: ingest_pending)
  have subscribed: "outbound_clean (tracked tk nm \<lparr>mw_subscribed := x\<rparr>)" for tk nm x
    using tracked [of tk nm] by (simp add: outbound_clean_def)
  have "tool_send_message k cd io now new_id me en pn rq w =
     (case pn_client pn url of
        Inl e \<Rightarrow> (Tool_error e, w)
      | Inr nm \<Rightarrow>
          (case pn_send pn url \<lparr>sr_message = msg, sr_immediate = \<not> mr_bool rq ''blocking'' False, sr_modes = [TextMediaType]\<rparr> of
             Inl e \<Rightarrow> (Tool_error e, sent)
           | Inr res \<Rightarrow>
               (case res of
                  Res_message _ \<Rightarrow> (jsonResult (enc_result en) res, count_sent sent)
                | Res_task tk \<Rightarrow>
                    (jsonResult (enc_result en) res,
                     if task_terminal k tk
                     then with_store (tracked tk nm) (snd (IngestOutgoingTerminal k cd io now (Some tk) (store_of (tracked tk nm))))
                     else (tracked tk nm)\<lparr>mw_subscribed := mw_subscribed (tracked tk nm) @ [(url, t_id tk)]\<rparr>))))"
    unfolding tool_send_message_def rq screenOutbound_def case_prod_beta Let_def msg_def sent_def tracked_def sum.case
    by (rule refl)
  then show ?thesis
    using assms sent counted ingested subscribed by (auto split: sum.split send_result.split)
qed (use assms in \<open>simp_all add: tool_send_message_def\<close>)

lemma tool_stream_clean:
  assumes "outbound_clean w"
  shows "outbound_clean (snd (tool_send_streaming k timeout expired new_id me en pn rq w))"
proof (cases "mr_require rq ''peer_url''"; cases "mr_require rq ''text''")
  fix url t
  assume rq: "mr_require rq ''peer_url'' = Inr url" "mr_require rq ''text'' = Inr t"
  define msg where "msg = outboundMessage me new_id (fst (Screen t)) (snd (Screen t))"
  define sent where "sent = w\<lparr>mw_sent := mw_sent w @ [(url, msg)]\<rparr>"
  have "message_clean msg" unfolding msg_def by (rule outbound_message_clean)
  then have sent: "outbound_clean sent" using assms by (simp add: outbound_clean_def sent_def)
  then have counted: "outbound_clean (count_sent sent)" by (simp add: outbound_clean_def sent_frame)
  have "snd (tool_send_streaming k timeout expired new_id me en pn rq w) \<in> {w, sent, count_sent sent}"
    by (auto simp: tool_send_streaming_def rq screenOutbound_def case_prod_beta Let_def msg_def [symmetric] sent_def [symmetric]
        split: sum.split option.split)
  then show ?thesis using assms sent counted by auto
qed (use assms in \<open>simp_all add: tool_send_streaming_def\<close>)

lemma tool_complete_clean:
  assumes "outbound_clean w"
  shows "outbound_clean (snd (tool_complete_task cd io rq w))"
proof (cases "mr_require rq ''task_id''"; cases "mr_require rq ''text''")
  fix i t
  assume rq: "mr_require rq ''task_id'' = Inr i" "mr_require rq ''text'' = Inr t"
  obtain e ex where c: "CompleteTask cd io i (fst (Screen t)) (mw_executor w) = (e, ex)" by fastforce
  have "outbound_clean (w\<lparr>mw_executor := ex\<rparr>)"
    using assms CompleteTask_clean [OF c] CompleteTask_pending [OF c] Screen_secret_free [of t]
    unfolding outbound_clean_def by simp metis
  moreover from this have "outbound_clean (count_sent (w\<lparr>mw_executor := ex\<rparr>))"
    by (simp add: outbound_clean_def sent_frame del: split_paired_All)
  ultimately show ?thesis
    by (auto simp: tool_complete_task_def rq screenOutbound_def case_prod_beta c split: option.split)
qed (use assms in \<open>simp_all add: tool_complete_task_def\<close>)

lemma tool_inbox_clean: "outbound_clean w \<Longrightarrow> outbound_clean (snd (tool_inbox cd io rq w))"
  using quiet_ops(2,3) by (auto simp: tool_inbox_def outbound_clean_def split: prod.split dest!: arg_cong [where f = snd])

lemma reply_clean:
  "outbound_clean w \<Longrightarrow> outbound_clean (with_store w (subscribeOutgoingReply k cd io now stopped pn url i (store_of w)))"
  by (auto simp: subscribeOutgoingReply_def outbound_clean_def split: sum.split dest!: ingest_pending)

lemma mcp_step_clean: "mcp_step k es cd me w w' \<Longrightarrow> outbound_clean w \<Longrightarrow> outbound_clean w'"
proof (induction rule: mcp_step.induct)
  case (execution_runs io taken canceled x w x' ex')
  then show ?case
    using exec_keeps_pending [OF execution_runs.hyps] exec_keeps_given [OF execution_runs.hyps]
    by (auto simp: outbound_clean_def)
qed (auto intro: tool_send_clean tool_stream_clean tool_complete_clean tool_inbox_clean reply_clean)


definition clean_start :: "store \<Rightarrow> mcp_world" where
  "clean_start s = \<lparr>mw_executor = NewExecutor (s\<lparr>pendingOutgoing := Map.empty\<rparr>), mw_sent = [], mw_subscribed = []\<rparr>"

lemma clean_start_ok: "outbound_clean (clean_start s)"
  by (simp add: outbound_clean_def clean_start_def NewExecutor_def)


definition leaky_request :: mcp_request where
  "leaky_request = \<lparr>mr_require = (\<lambda>n. Inr (if n = ''text'' then ''my key is '' @ leaked_key else ''http://peer'')),
     mr_string = (\<lambda>_ d. d), mr_bool = (\<lambda>_ d. d)\<rparr>"

definition silent_peer :: peer_net where
  "silent_peer = \<lparr>pn_client = (\<lambda>_. Inr ''peer''), pn_send = (\<lambda>_ _. Inl ''timeout''), pn_stream = (\<lambda>_ _. []),
     pn_get = (\<lambda>_ _. Inl ''x''), pn_cancel = (\<lambda>_ _. Inl ''x'')\<rparr>"

definition no_encoders :: encoders where
  "no_encoders = \<lparr>enc_result = (\<lambda>_. None), enc_events = (\<lambda>_. None), enc_task = (\<lambda>_. None)\<rparr>"

definition me0 :: identity where "me0 = \<lparr>own_name = ''me'', self_url = ''http://me''\<rparr>"

definition after_leak :: mcp_world where
  "after_leak = snd (tool_send_message sdk0 snapshot_json io0 \<lparr>unix_nano = 0, zone_off = 0\<rparr> ''m1'' me0 no_encoders silent_peer
     leaky_request (clean_start NewStore))"


section \<open>Directory and agent\<close>

lemma url_field: "to_valid ''url'' = ''url''" "to_valid ''lastSeen'' = ''lastSeen''"
  using valid_utf8_ascii [of "''url''"] valid_utf8_ascii [of "''lastSeen''"]
  by (simp_all add: valid_utf8_def byte_of_def)

lemma body_url_heartbeat: "valid_utf8 u \<Longrightarrow> body_url (heartbeat_body u) = Some u"
proof -
  assume u: "valid_utf8 u"
  have "fits maxNestingDepth (JObj [(''url'', JStr u)])" by (simp add: maxNestingDepth_def)
  then have "decode_first (heartbeat_body u) = Some (clean_json (JObj [(''url'', JStr u)]))"
    using parse_print(1) [of "\<lambda>_. []" "[]" maxNestingDepth "JObj [(''url'', JStr u)]" "[]" 0]
    by (simp add: decode_first_def heartbeat_body_def marshal_def ws_layout_def)
  then show ?thesis
    using u by (simp add: body_url_def url_field decode_struct_def match_field_def valid_utf8_def)
qed


lemma heartbeat_accepted:
  assumes "valid_utf8 u" "validAgentURL parse u"
  shows "serve_event parse (Request now POST_register (heartbeat_body u)) r = apply_op (Reg now u) r"
    "serve_event parse (Request now POST_heartbeat (heartbeat_body u)) r = apply_op (Reg now u) r"
    "u \<noteq> '''' \<Longrightarrow> serve_event parse (Request now POST_unregister (heartbeat_body u)) r = apply_op (Unreg u) r"
  using body_url_heartbeat [OF assms(1)] assms(2)
  by (simp_all add: Routes_def post_refresh_def post_unregister_def)

lemma decode_first_marshal_newline:
  assumes "fits maxNestingDepth j"
  shows "decode_first (marshal j @ [CHR 0x0A]) = Some (clean_json j)"
proof -
  have "num_stop [CHR 0x0A]" by (simp add: num_stop_def is_digit_def)
  then show ?thesis
    using parse_print(1) [of "\<lambda>_. []" "[]" maxNestingDepth j "[CHR 0x0A]" 0] assms
    by (simp add: decode_first_def marshal_def ws_layout_def)
qed

lemma decode_urls_agents:
  assumes "list_all (\<lambda>e. formattable (en_lastSeen e) \<and> valid_utf8 (en_url e)) es"
  shows "decode_urls (agents_body es) = Some (map en_url es)"
proof -
  have fits: "fits maxNestingDepth (JArr (map entry_object es))"
    by (auto simp: maxNestingDepth_def entry_object_def list_all_iff)
  have one: "map_option (\<lambda>f. f ''url'') (decode_struct [''url''] (clean_json (entry_object e))) = Some (en_url e)"
    if "valid_utf8 (en_url e)" for e
  proof -
    have "match_field [''url''] ''lastSeen'' = None" by code_simp
    moreover have "match_field [''url''] ''url'' = Some ''url''" by code_simp
    ultimately show ?thesis
      using that by (simp add: entry_object_def url_field decode_struct_def valid_utf8_def)
  qed
  have "decode_all (\<lambda>j. map_option (\<lambda>f. f ''url'') (decode_struct [''url''] j)) (map clean_json (map entry_object es)) =
      Some (map en_url es)"
    using assms by (induction es) (simp_all add: one)
  moreover have "agents_body es = marshal (JArr (map entry_object es)) @ [CHR 0x0A]"
    using assms by (simp add: agents_body_def list_all_iff)
  ultimately show ?thesis
    using decode_first_marshal_newline [OF fits] by (simp add: decode_urls_def)
qed


definition two_agents :: registry where
  "two_agents = fold apply_op [Reg \<lparr>unix_nano = 5, zone_off = 0\<rparr> ''http://a'', Reg \<lparr>unix_nano = 7, zone_off = 0\<rparr> ''http://me''] New"

definition demo_directory :: "string \<Rightarrow> net_answer" where
  "demo_directory url =
     Answer 200 (dr_body (fst (Routes (\<lambda>_. None) rev '''' \<lparr>unix_nano = 9, zone_off = 0\<rparr> GET_agents '''' two_agents))) False"


end
