(* ===== verification/Jsonc.thy ===== *)
theory Jsonc
  imports Go_Json
begin

text \<open>
  The tolerant reading of configuration files (jsonmerge.go): comments are blanked and trailing
  commas dropped before the text is parsed.  Both passes respect string literals.  Main results:
  blanking keeps every byte offset and every line, and both passes leave alone what
  \<open>MarshalIndent\<close> prints, so a file that the program wrote is read back as it was meant.
\<close>

section \<open>The two passes\<close>

text \<open>Where the scan is: in the text, in a string literal, in a line or a block comment.\<close>

datatype scan_place = In_text | In_string | In_line | In_block

abbreviation newline :: char where "newline \<equiv> CHR 0x0A"

fun strip_from :: "scan_place \<Rightarrow> string \<Rightarrow> string" where
  "strip_from p [] = []"
| "strip_from In_string (c # s) =
     (if c = bslash then (case s of [] \<Rightarrow> [c] | d # r \<Rightarrow> c # d # strip_from In_string r)
      else if c = dquote then c # strip_from In_text s
      else c # strip_from In_string s)"
| "strip_from In_text (c # s) =
     (if c = dquote then c # strip_from In_string s
      else if c = CHR ''/'' \<and> s \<noteq> [] \<and> hd s = CHR ''/'' then CHR '' '' # strip_from In_line s
      else if c = CHR ''/'' \<and> s \<noteq> [] \<and> hd s = CHR ''*'' then CHR '' '' # strip_from In_block s
      else c # strip_from In_text s)"
| "strip_from In_line (c # s) =
     (if c = newline then c # strip_from In_text s else CHR '' '' # strip_from In_line s)"
| "strip_from In_block (c # s) =
     (if c = newline then c # strip_from In_block s
      else if c = CHR ''*'' \<and> s \<noteq> [] \<and> hd s = CHR ''/'' then CHR '' '' # CHR '' '' # strip_from In_text (tl s)
      else CHR '' '' # strip_from In_block s)"

definition stripJSONComments :: "string \<Rightarrow> string" where
  "stripJSONComments s = strip_from In_text s"

definition closes :: "string \<Rightarrow> bool" where
  "closes s = (case skip_ws s of [] \<Rightarrow> False | c # _ \<Rightarrow> c = CHR ''}'' \<or> c = CHR '']'')"

fun commas_from :: "bool \<Rightarrow> string \<Rightarrow> string" where
  "commas_from inString [] = []"
| "commas_from True (c # s) =
     (if c = bslash then (case s of [] \<Rightarrow> [c] | d # r \<Rightarrow> c # d # commas_from True r)
      else if c = dquote then c # commas_from False s
      else c # commas_from True s)"
| "commas_from False (c # s) =
     (if c = dquote then c # commas_from True s
      else if c = CHR '','' \<and> closes s then commas_from False s
      else c # commas_from False s)"

definition stripTrailingCommas :: "string \<Rightarrow> string" where
  "stripTrailingCommas s = commas_from False s"

section \<open>Blanking keeps the layout\<close>

lemma strip_from_lines: "map (\<lambda>c. c = newline) (strip_from p s) = map (\<lambda>c. c = newline) s"
proof (induction p s rule: strip_from.induct)
  case (5 c s)
  then show ?case by (cases s) auto
qed (auto split: list.split)

section \<open>What the printer writes is left alone\<close>

text \<open>The inside of a string literal: no bare quote, and a backslash is followed by a character.\<close>

fun literal_body :: "string \<Rightarrow> bool" where
  "literal_body [] = True"
| "literal_body (c # s) =
     (if c = bslash then (case s of [] \<Rightarrow> False | d # r \<Rightarrow> literal_body r) else c \<noteq> dquote \<and> literal_body s)"

lemma literal_body_append: "literal_body a \<Longrightarrow> literal_body b \<Longrightarrow> literal_body (a @ b)"
  by (induction a rule: literal_body.induct) (auto split: list.splits if_splits)

lemma literal_body_plain: "bslash \<notin> set a \<Longrightarrow> dquote \<notin> set a \<Longrightarrow> literal_body a"
  by (induction a) auto

lemma hex_digit_plain: "n < 16 \<Longrightarrow> bslash \<noteq> hex_digit n" "n < 16 \<Longrightarrow> dquote \<noteq> hex_digit n"
proof -
  have "hex_val bslash = None" "hex_val dquote = None"
    by (simp_all add: hex_val_def bslash_def dquote_def byte_of_def)
  then show "n < 16 \<Longrightarrow> bslash \<noteq> hex_digit n" "n < 16 \<Longrightarrow> dquote \<noteq> hex_digit n"
    using hex_val_hex_digit [of n] by fastforce+
qed

lemma literal_body_u_escape: "literal_body (u_escape n)"
proof -
  have "literal_body (hex4 n)"
    by (rule literal_body_plain) (simp_all add: hex4_def hex_digit_plain)
  then show ?thesis by (simp add: u_escape_def)
qed

lemma literal_body_esc_ascii: "literal_body (esc_ascii c)"
  using esc_ascii_cases [of c] literal_body_u_escape by auto

lemma decode_bytes_high:
  assumes "decode_bytes a t = (r, n)" "\<not> a < 0x80" "b \<in> set (take (n - 1) t)"
  shows "0x80 \<le> b"
  using assms by (auto simp: decode_bytes_def second_ok_def cont_byte_def split: if_splits list.splits)

lemma literal_body_rune:
  assumes "\<not> byte_of c < 0x80" "rune_at c cs = (r, n)"
  shows "literal_body (take n (c # cs))"
proof -
  have "0x80 \<le> byte_of x" if "x \<in> set (take n (c # cs))" for x
    using that assms decode_bytes_high [of "byte_of c" "map byte_of cs" r n "byte_of x"]
    by (cases n) (auto simp: rune_at_bytes take_map)
  moreover have "\<not> 0x80 \<le> byte_of bslash" "\<not> 0x80 \<le> byte_of dquote"
    by (simp_all add: byte_of_def bslash_def dquote_def)
  ultimately show ?thesis by (intro literal_body_plain) blast+
qed

lemma literal_body_enc_chars: "literal_body (enc_chars s)"
proof (induction s rule: enc_chars.induct)
  case (2 c cs)
  obtain r n where "rune_at c cs = (r, n)" by fastforce
  with 2 show ?case
    by (simp add: enc_chars.simps(2) [of c] literal_body_append literal_body_esc_ascii literal_body_u_escape literal_body_rune
        del: take_Cons' take_Suc_Cons)
qed simp


text \<open>The characters of a number.\<close>

definition num_char :: "char \<Rightarrow> bool" where
  "num_char c = (is_digit c \<or> c \<in> set ''+-.eE'')"

lemma num_char_plain: "num_char c \<Longrightarrow> c \<noteq> dquote \<and> c \<noteq> CHR ''/'' \<and> c \<noteq> CHR '',''"
  by (auto simp: num_char_def is_digit_def dquote_def)

lemma json_ws_plain: "json_ws c \<Longrightarrow> c \<noteq> dquote \<and> c \<noteq> CHR ''/'' \<and> c \<noteq> CHR '',''"
  by (auto simp: json_ws_def dquote_def)

lemma takeWhile_digits: "list_all num_char (takeWhile is_digit s)"
  by (auto simp: list_all_iff num_char_def dest: set_takeWhileD)

lemma scan_chars:
  "scan_int s = Some (x, t) \<Longrightarrow> list_all num_char x"
  "scan_digits s = Some (x, t) \<Longrightarrow> list_all num_char x"
  "scan_frac s = Some (x, t) \<Longrightarrow> list_all num_char x"
  "scan_exp s = Some (x, t) \<Longrightarrow> list_all num_char x"
proof -
  show "scan_int s = Some (x, t) \<Longrightarrow> list_all num_char x" for s t
    using takeWhile_digits [of s] by (auto simp: scan_int_def num_char_def is_digit_def split: list.splits if_splits)
  show d: "scan_digits s = Some (x, t) \<Longrightarrow> list_all num_char x" for s x t
    by (auto simp: scan_digits_def takeWhile_digits split: if_splits)
  show "scan_frac s = Some (x, t) \<Longrightarrow> list_all num_char x" for s t
    by (auto simp: scan_frac_def num_char_def split: list.splits if_splits option.splits dest: d)
  show "scan_exp s = Some (x, t) \<Longrightarrow> list_all num_char x" for s t
    by (auto simp: scan_exp_def num_char_def split: list.splits if_splits option.splits dest: d)
qed

lemma parse_num_chars: "parse_num s = Some (x, t) \<Longrightarrow> list_all num_char x"
proof -
  have "scan_unsigned s = Some (x, t) \<Longrightarrow> list_all num_char x" for s x t
    by (auto simp: scan_unsigned_def split: option.splits dest!: scan_chars)
  then show "parse_num s = Some (x, t) \<Longrightarrow> list_all num_char x"
    by (auto simp: parse_num_def num_char_def split: list.splits if_splits option.splits)
qed

lemma print_hd:
  assumes "fits d x"
  shows "\<exists>c t. print_json nl sp k x = c # t \<and> \<not> json_ws c \<and> c \<noteq> CHR '']'' \<and> c \<noteq> CHR ''}''"
proof (cases x)
  case (JNum n)
  then have "parse_num n = Some (n, [])" using assms by (simp add: valid_num_def)
  then obtain c s where "n = c # s" "is_digit c \<or> c = CHR ''-''"
    by (cases n) (auto simp: parse_num_def [of "[]"] dest: parse_num_hd)
  with JNum show ?thesis by (auto simp: json_ws_def is_digit_def)
qed (auto simp: quote_json_def)

lemma open_elems:
  assumes "list_all json_ws w" "xs \<noteq> []" "list_all (fits d) xs"
  shows "\<not> closes (w @ print_elems nl sp k xs @ r)"
proof -
  obtain x ys where "xs = x # ys" using assms(2) by (cases xs) simp_all
  moreover obtain c t where "print_json nl sp (Suc k) x = c # t" "\<not> json_ws c" "c \<noteq> CHR '']''" "c \<noteq> CHR ''}''"
    using print_hd [of d x nl sp "Suc k"] assms(3) \<open>xs = x # ys\<close> by auto
  ultimately show ?thesis by (simp add: closes_def skip_ws_append [OF assms(1)] skip_ws_Cons)
qed

lemma open_members:
  assumes "list_all json_ws w" "ms \<noteq> []"
  shows "\<not> closes (w @ print_members nl sp k ms @ r)"
  using assms(2) by (cases ms) (simp_all add: closes_def skip_ws_append [OF assms(1)] quote_json_def skip_ws_Cons)

lemma punct_not_quote:
  "CHR ''['' \<noteq> dquote" "CHR '']'' \<noteq> dquote" "CHR ''{'' \<noteq> dquote" "CHR ''}'' \<noteq> dquote" "CHR '':'' \<noteq> dquote"
  "CHR '','' \<noteq> dquote"
  by (simp_all add: dquote_def)

lemma indent_layout: "ws_layout (\<lambda>k. newline # replicate (2 * k) (CHR '' '')) '' ''"
  by (auto simp: ws_layout_def json_ws_def list_all_iff)

text \<open>
  A pass over the text, as the printer's output sees it: it copies a string literal, copies any
  character that is not a quote, a slash or a comma, and copies a comma that is followed by
  something other than a closing bracket.
\<close>

locale text_pass =
  fixes f :: "string \<Rightarrow> string"
  assumes copies_literal: "literal_body t \<Longrightarrow> f (dquote # t @ dquote # r) = dquote # t @ dquote # f r"
    and copies_plain: "c \<noteq> dquote \<Longrightarrow> c \<noteq> CHR ''/'' \<Longrightarrow> c \<noteq> CHR '','' \<Longrightarrow> f (c # r) = c # f r"
    and copies_comma: "\<not> closes r \<Longrightarrow> f (CHR '','' # r) = CHR '','' # f r"
    and copies_nil: "f [] = []"
begin

lemma copies_word: "list_all (\<lambda>c. c \<noteq> dquote \<and> c \<noteq> CHR ''/'' \<and> c \<noteq> CHR '','') w \<Longrightarrow> f (w @ r) = w @ f r"
  by (induction w) (simp_all add: copies_plain)

lemma copies_ws: "list_all json_ws w \<Longrightarrow> f (w @ r) = w @ f r"
  by (intro copies_word) (simp add: list_all_iff json_ws_plain)

lemma copies_num: "valid_num n \<Longrightarrow> f (n @ r) = n @ f r"
  using parse_num_chars [of n n "[]"] by (intro copies_word) (auto simp: valid_num_def list_all_iff num_char_plain)

lemma copies_quoted: "f (quote_json s @ r) = quote_json s @ f r"
  using copies_literal [OF literal_body_enc_chars [of s]] by (simp add: quote_json_def)

lemma copies_print:
  "ws_layout nl sp \<Longrightarrow> fits d j \<Longrightarrow> f (print_json nl sp k j @ r) = print_json nl sp k j @ f r"
  "ws_layout nl sp \<Longrightarrow> list_all (fits d) xs \<Longrightarrow> f (print_elems nl sp k xs @ r) = print_elems nl sp k xs @ f r"
  "ws_layout nl sp \<Longrightarrow> list_all (\<lambda>m. fits d (snd m)) ms \<Longrightarrow>
     f (print_members nl sp k ms @ r) = print_members nl sp k ms @ f r"
proof (induction nl sp k j and nl sp k xs and nl sp k ms arbitrary: d r and d r and d r
    rule: print_json_print_elems_print_members.induct)
  case (1 nl sp k)
  show ?case using copies_word [of "''null''" r] by (simp add: dquote_def)
next
  case (2 nl sp k b)
  show ?case using copies_word [of "''true''" r] copies_word [of "''false''" r] by (simp add: dquote_def)
next
  case (5 nl sp k xs)
  then have "list_all json_ws (nl n)" "list_all (fits (d - 1)) xs" for n by (auto simp: ws_layout_def list_all_iff)
  then show ?case using "5.IH" [OF _ "5.prems"(1)] by (simp add: copies_plain copies_ws punct_not_quote)
next
  case (6 nl sp k ms)
  then have "list_all json_ws (nl n)" "list_all (\<lambda>m. fits (d - 1) (snd m)) ms" for n
    by (auto simp: ws_layout_def list_all_iff)
  then show ?case using "6.IH" [OF _ "6.prems"(1)] by (simp add: copies_plain copies_ws punct_not_quote)
next
  case (8 nl sp k x xs)
  then have ws: "list_all json_ws (nl n)" for n by (simp add: ws_layout_def)
  have x: "fits d x" "list_all (fits d) xs" using "8.prems"(2) by simp_all
  show ?case
  proof (cases "xs = []")
    case False
    then have "\<not> closes (nl (Suc k) @ print_elems nl sp k xs @ r)"
      using "8.prems"(2) by (intro open_elems [OF ws, of xs d]) simp_all
    then show ?thesis
      using False ws by (simp add: copies_comma copies_ws "8.IH"(1) [OF "8.prems"(1) x(1)] "8.IH"(2) [OF _ "8.prems"(1) x(2)])
  qed (simp add: "8.IH"(1) [OF "8.prems"(1) x(1)])
next
  case (10 nl sp k m ms)
  then have ws: "list_all json_ws (nl n)" "list_all json_ws sp" for n by (simp_all add: ws_layout_def)
  have x: "fits d (snd m)" "list_all (\<lambda>m. fits d (snd m)) ms" using "10.prems"(2) by simp_all
  show ?case
  proof (cases "ms = []")
    case False
    then have "\<not> closes (nl (Suc k) @ print_members nl sp k ms @ r)" by (rule open_members [OF ws(1)])
    then show ?thesis
      using False ws by (simp add: copies_comma copies_ws copies_quoted copies_plain punct_not_quote
          "10.IH"(1) [OF "10.prems"(1) x(1)] "10.IH"(2) [OF _ "10.prems"(1) x(2)])
  qed (simp add: copies_ws [OF ws(2)] copies_quoted copies_plain punct_not_quote "10.IH"(1) [OF "10.prems"(1) x(1)])
qed (simp_all add: copies_num copies_quoted)

lemma copies_file: "fits maxNestingDepth j \<Longrightarrow> f (marshal_indent j @ [newline]) = marshal_indent j @ [newline]"
  using copies_print(1) [OF indent_layout, of maxNestingDepth j 0 "[newline]"] copies_plain [of newline "[]"] copies_nil
  by (simp add: marshal_indent_def dquote_def)

end

text \<open>Both passes are such passes.\<close>

lemma strip_literal: "literal_body t \<Longrightarrow> strip_from In_string (t @ dquote # r) = t @ dquote # strip_from In_text r"
  by (induction t rule: literal_body.induct) (auto split: list.splits if_splits)

interpretation comments: text_pass stripJSONComments
proof unfold_locales
  fix t r
  show "literal_body t \<Longrightarrow> stripJSONComments (dquote # t @ dquote # r) = dquote # t @ dquote # stripJSONComments r"
    by (simp add: stripJSONComments_def strip_literal)
qed (simp_all add: stripJSONComments_def punct_not_quote)

lemma commas_literal: "literal_body t \<Longrightarrow> commas_from True (t @ dquote # r) = t @ dquote # commas_from False r"
  by (induction t rule: literal_body.induct) (auto split: list.splits if_splits)

interpretation commas: text_pass stripTrailingCommas
proof unfold_locales
  fix t r
  show "literal_body t \<Longrightarrow> stripTrailingCommas (dquote # t @ dquote # r) = dquote # t @ dquote # stripTrailingCommas r"
    by (simp add: stripTrailingCommas_def commas_literal)
qed (simp_all add: stripTrailingCommas_def punct_not_quote)

section \<open>Values that were read\<close>

text \<open>Strings come out of the parser as valid UTF-8.\<close>

lemma valid_append:
  assumes "list_all scalar rs" "valid_utf8 y"
  shows "valid_utf8 (string_of_runes rs @ y)"
proof -
  have "runes (string_of_runes rs @ y) = rs @ runes y" by (rule runes_string_of_runes_append [OF assms(1)])
  moreover have "string_of_runes (a @ b) = string_of_runes a @ string_of_runes b" for a b
    by (induction a) (simp add: string_of_runes_def, metis append_Cons append_assoc string_of_runes_Cons)
  ultimately show ?thesis using assms(2) by (simp add: valid_utf8_def to_valid_def)
qed

lemma getu4_bound: "getu4 s = Some (r, t) \<Longrightarrow> r < 65536"
proof -
  have h: "hex_val c = Some v \<Longrightarrow> v < 16" for c v by (auto simp: hex_val_def Let_def split: if_splits)
  show "getu4 s = Some (r, t) \<Longrightarrow> r < 65536"
    by (auto simp: getu4_def split: list.splits option.splits dest!: h)
qed

lemma u_rune_scalar: "r < 65536 \<Longrightarrow> scalar (fst (u_rune r s))"
  by (auto simp: u_rune_def is_surrogate_def scalar_def split: list.splits option.splits if_splits)
     (auto simp: scalar_def rune_error_def)

lemma str_unit_scalar:
  assumes "str_unit c cs = Some (x, t)"
  shows "\<exists>r. scalar r \<and> x = string_of_runes [r]"
proof -
  have esc: "simple_escape e = Some d \<Longrightarrow> byte_of d < 0x80" for e d
    by (auto simp: simple_escape_def byte_of_def bslash_def dquote_def split: if_splits)
  have ascii: "byte_of d < 0x80 \<Longrightarrow> scalar (byte_of d) \<and> [d] = string_of_runes [byte_of d]" for d
    by (simp add: scalar_def string_of_runes_ascii)
  show ?thesis
  proof (cases "c = bslash")
    case True
    with assms obtain e u where cs: "cs = e # u" by (cases cs) (simp_all add: str_unit_def)
    show ?thesis
    proof (cases "e = CHR ''u''")
      case True
      with assms cs \<open>c = bslash\<close> obtain r v where "getu4 u = Some (r, v)" "x = string_of_runes [fst (u_rune r v)]"
        by (auto simp: str_unit_def split: option.splits prod.splits)
      then show ?thesis using u_rune_scalar [OF getu4_bound] by blast
    next
      case False
      with assms cs \<open>c = bslash\<close> obtain d where "simple_escape e = Some d" "x = [d]"
        by (auto simp: str_unit_def split: option.splits)
      then show ?thesis using esc ascii by blast
    qed
  next
    case False
    with assms rune_at_scalar [of c cs] ascii [of c] show ?thesis
      by (auto simp: str_unit_def split: if_splits prod.splits)
  qed
qed

lemma parse_str_valid: "parse_str s = Some (x, t) \<Longrightarrow> valid_utf8 x"
proof (induction s arbitrary: x t rule: parse_str.induct)
  case (2 c cs)
  show ?case
  proof (cases "c = dquote")
    case True
    then show ?thesis using 2 valid_utf8_ascii [of "[]"] by (simp add: parse_str.simps(2))
  next
    case False
    with "2.prems" obtain a u y where "str_unit c cs = Some (a, u)" "parse_str u = Some (y, t)" "x = a @ y"
      by (auto simp: parse_str.simps(2) split: option.splits)
    with 2 False show ?thesis using str_unit_scalar [of c cs a u] valid_append [of "[_]" y] by fastforce
  qed
qed simp

text \<open>Numbers come out as literals that the printer may write.\<close>

lemma takeWhile_rest: "takeWhile P (dropWhile P s) = []"
  by (induction s) auto

lemma scan_digits_self: "scan_digits s = Some (x, t) \<Longrightarrow> scan_digits x = Some (x, [])"
  by (auto simp: scan_digits_def split: if_splits) (metis set_takeWhileD dropWhile_eq_Nil_conv)

lemma scan_int_self: "scan_int s = Some (x, t) \<Longrightarrow> scan_int x = Some (x, [])"
proof (cases s)
  case (Cons c r)
  moreover assume "scan_int s = Some (x, t)"
  ultimately show ?thesis
    by (auto simp: scan_int_def split: if_splits list.splits dest: set_takeWhileD)
qed (simp add: scan_int_def)

lemma scan_frac_self: "scan_frac s = Some (x, t) \<Longrightarrow> scan_frac x = Some (x, [])"
  by (auto simp: scan_frac_def split: list.splits if_splits option.splits dest: scan_digits_self)

lemma scan_digits_hd: "scan_digits y = Some (g # d, u) \<Longrightarrow> g \<noteq> CHR ''+'' \<and> g \<noteq> CHR ''-''"
proof -
  assume "scan_digits y = Some (g # d, u)"
  then have "g \<in> set (takeWhile is_digit y)" by (auto simp: scan_digits_def split: if_splits)
  then have "is_digit g" by (rule set_takeWhileD [THEN conjunct2])
  then show ?thesis by (auto simp: is_digit_def)
qed

lemma scan_exp_self: "scan_exp s = Some (x, t) \<Longrightarrow> scan_exp x = Some (x, []) \<and> (x = [] \<or> hd x \<in> {CHR ''e'', CHR ''E''})"
proof -
  have d: "scan_digits y = Some (d, u) \<Longrightarrow> d \<noteq> []" for y d u by (auto simp: scan_digits_def split: if_splits)
  assume "scan_exp s = Some (x, t)"
  then consider "x = []" | c d y u where "x = c # d" "c \<in> {CHR ''e'', CHR ''E''}" "scan_digits y = Some (d, u)"
    | c g d y u where "x = c # g # d" "c \<in> {CHR ''e'', CHR ''E''}" "g \<in> {CHR ''+'', CHR ''-''}" "scan_digits y = Some (d, u)"
    by (auto simp: scan_exp_def split: list.splits if_splits option.splits)
  then show ?thesis
  proof cases
    case 2
    then obtain g d' where "d = g # d'" using d by (cases d) auto
    then show ?thesis using 2 scan_digits_self [OF 2(3)] scan_digits_hd [of y g d' u] by (auto simp: scan_exp_def)
  next
    case 3
    then show ?thesis using scan_digits_self [OF 3(4)] by (auto simp: scan_exp_def)
  qed (simp add: scan_exp_def)
qed

lemma scan_int_stop:
  "r = [] \<or> \<not> is_digit (hd r) \<Longrightarrow> scan_int x = Some (d, t) \<Longrightarrow> scan_int (x @ r) = Some (d, t @ r)"
  by (auto simp: scan_int_def takeWhile_stop dropWhile_stop split: list.splits if_splits)

lemma scan_frac_stop:
  "r = [] \<or> \<not> is_digit (hd r) \<and> hd r \<noteq> CHR ''.'' \<Longrightarrow> scan_frac x = Some (d, t) \<Longrightarrow> scan_frac (x @ r) = Some (d, t @ r)"
  by (auto simp: scan_frac_def scan_digits_def takeWhile_stop dropWhile_stop split: list.splits if_splits option.splits)

lemma scan_unsigned_self: "scan_unsigned s = Some (x, t) \<Longrightarrow> scan_unsigned x = Some (x, [])"
proof -
  assume "scan_unsigned s = Some (x, t)"
  then obtain i f e s1 s2 where p: "scan_int s = Some (i, s1)" "scan_frac s1 = Some (f, s2)" "scan_exp s2 = Some (e, t)" "x = i @ f @ e"
    by (auto simp: scan_unsigned_def split: option.splits)
  have e: "scan_exp e = Some (e, [])" "e = [] \<or> hd e \<in> {CHR ''e'', CHR ''E''}" using scan_exp_self [OF p(3)] by simp_all
  have ne: "e = [] \<or> \<not> is_digit (hd e) \<and> hd e \<noteq> CHR ''.''" using e(2) by (auto simp: is_digit_def)
  have f: "scan_frac (f @ e) = Some (f, e)" using scan_frac_stop [OF ne scan_frac_self [OF p(2)]] by simp
  have "f = [] \<or> hd f = CHR ''.''" using p(2) by (auto simp: scan_frac_def split: list.splits if_splits option.splits)
  then have "f @ e = [] \<or> \<not> is_digit (hd (f @ e))" using ne by (cases f) (auto simp: is_digit_def)
  from scan_int_stop [OF this scan_int_self [OF p(1)]] f e(1) p(4) show ?thesis by (simp add: scan_unsigned_def)
qed

lemma parse_num_self: "parse_num s = Some (x, t) \<Longrightarrow> valid_num x"
proof (cases s)
  case (Cons c r)
  assume p: "parse_num s = Some (x, t)"
  show ?thesis
  proof (cases "c = CHR ''-''")
    case True
    then show ?thesis
      using p Cons by (auto simp: parse_num_def valid_num_def split: option.splits dest: scan_unsigned_self)
  next
    case False
    then have u: "scan_unsigned s = Some (x, t)" using p Cons by (simp add: parse_num_def)
    then have "hd x \<noteq> CHR ''-'' \<and> x \<noteq> []"
      using False Cons by (auto simp: scan_unsigned_def scan_int_def split: if_splits option.splits)
    with scan_unsigned_self [OF u] show ?thesis by (cases x) (simp_all add: valid_num_def parse_num_def)
  qed
qed (simp add: parse_num_def)

text \<open>Values with valid strings only; as Go holds them after decoding, the keys of maps are in order as well.\<close>

fun read_ok :: "json \<Rightarrow> bool" where
  "read_ok (JStr s) = valid_utf8 s"
| "read_ok (JArr xs) = (\<forall>x \<in> set xs. read_ok x)"
| "read_ok (JObj ms) = (\<forall>m \<in> set ms. valid_utf8 (fst m) \<and> read_ok (snd m))"
| "read_ok j = True"

fun any_ok :: "json \<Rightarrow> bool" where
  "any_ok (JStr s) = valid_utf8 s"
| "any_ok (JArr xs) = (\<forall>x \<in> set xs. any_ok x)"
| "any_ok (JObj ms) = (map_keys_ok ms \<and> (\<forall>m \<in> set ms. valid_utf8 (fst m) \<and> any_ok (snd m)))"
| "any_ok j = True"

lemma parse_ok:
  "parse_value d s = Some (j, t) \<Longrightarrow> fits d j \<and> read_ok j"
  "parse_elems d s = Some (xs, t) \<Longrightarrow> (\<forall>x \<in> set xs. fits d x \<and> read_ok x)"
  "parse_members d s = Some (ms, t) \<Longrightarrow> (\<forall>m \<in> set ms. valid_utf8 (fst m) \<and> fits d (snd m) \<and> read_ok (snd m))"
proof (induction d s and d s and d s arbitrary: j t and xs t and ms t
    rule: parse_value_parse_elems_parse_members.induct)
  case (1 d s)
  show ?case
  proof (cases "skip_ws s")
    case (Cons c r)
    show ?thesis
      using "1.prems" "1.IH" [OF Cons] Cons
      by (auto simp: parse_value.simps [of d s] literal_def parse_str_valid parse_num_self
          split: if_splits option.splits)
  qed (use "1.prems" in \<open>simp add: parse_value.simps [of d s]\<close>)
next
  case (2 d s)
  from "2.prems" obtain x u where u: "parse_value d s = Some (x, u)" "length u < length s"
    by (simp add: parse_elems.simps [of d s] split: option.splits if_splits prod.splits)
  from "2.prems" u obtain c r where r: "skip_ws u = c # r"
    by (cases "skip_ws u") (simp_all add: parse_elems.simps [of d s])
  show ?case
    using "2.prems" u r "2.IH"(1) [OF u(1)] "2.IH"(2) [OF u(1) refl u(2) r]
    by (auto simp: parse_elems.simps [of d s] split: if_splits option.splits)
next
  case (3 d s)
  from "3.prems" obtain q s1 where q: "skip_ws s = q # s1" "\<not> q \<noteq> dquote"
    by (simp add: parse_members.simps [of d s] split: list.splits if_splits)
  from "3.prems" q obtain key s2 where k: "parse_str s1 = Some (key, s2)"
    by (cases "parse_str s1") (auto simp add: parse_members.simps [of d s])
  from "3.prems" q k have g: "\<not> (skip_ws s2 = [] \<or> hd (skip_ws s2) \<noteq> CHR '':'' \<or> \<not> length (tl (skip_ws s2)) < length s)"
    by (auto simp: parse_members.simps [of d s] split: if_splits)
  from "3.prems" q k g obtain x u where u: "parse_value d (tl (skip_ws s2)) = Some (x, u)" "length u < length s"
    by (simp add: parse_members.simps [of d s] split: option.splits if_splits prod.splits)
  from "3.prems" q k g u obtain c r where r: "skip_ws u = c # r"
    by (cases "skip_ws u") (simp_all add: parse_members.simps [of d s])
  show ?case
    using "3.prems" q k g u r "3.IH"(1) [OF q k refl g u(1)] "3.IH"(2) [OF q k refl g u(1) refl u(2) r] parse_str_valid [OF k]
    by (auto simp: parse_members.simps [of d s] split: if_splits option.splits) force+
qed

lemma decode_first_ok: "decode_first s = Some j \<Longrightarrow> fits maxNestingDepth j \<and> read_ok j"
  by (auto simp: decode_first_def dest: parse_ok(1))

lemma go_map_subset: "m \<in> set (go_map ms) \<Longrightarrow> m \<in> set ms"
  by (induction ms rule: rev_induct) (auto simp: go_map_def [of "[]"] dest: set_map_put)

lemma map_put_last:
  "map_keys_ok (ms @ [(k, v)]) \<Longrightarrow> map_put k v ms = ms @ [(k, v)]"
  by (induction ms) (auto simp: map_keys_ok_def)

lemma go_map_same: "map_keys_ok ms \<Longrightarrow> go_map ms = ms"
proof (induction ms rule: rev_induct)
  case (snoc m ms)
  then have "map_keys_ok ms" by (simp add: map_keys_ok_def sorted_append)
  then show ?case using snoc map_put_last [of ms "fst m" "snd m"] by simp
qed (simp add: go_map_def)

lemma go_any_ok: "read_ok j \<Longrightarrow> any_ok (go_any j)"
  by (induction j rule: go_any.induct) (auto simp: go_map_keys_ok dest!: go_map_subset)

lemma go_any_fits: "fits d j \<Longrightarrow> fits d (go_any j)"
  by (induction j arbitrary: d rule: go_any.induct) (auto dest!: go_map_subset, force)

lemma any_ok_same: "any_ok j \<Longrightarrow> go_any j = j \<and> clean_json j = j"
proof (induction j rule: any_ok.induct)
  case (3 ms)
  then have "map (\<lambda>m. (fst m, go_any (snd m))) ms = ms" "map (\<lambda>m. (to_valid (fst m), clean_json (snd m))) ms = ms"
    by (auto intro!: map_idI simp: valid_utf8_def)
  with 3 show ?case by (simp add: go_map_same)
qed (auto simp: valid_utf8_def map_idI)

text \<open>A value in this form that was written by \<open>MarshalIndent\<close> is read back as it was.\<close>

lemma read_back:
  assumes "any_ok j" "fits maxNestingDepth j"
  shows "map_option go_any (decode_first (stripTrailingCommas (stripJSONComments (marshal_indent j @ [newline])))) = Some j"
  using assms any_ok_same [OF assms(1)] decode_first_marshal_indent [OF assms(2)]
  by (simp add: comments.copies_file commas.copies_file)

end
