(* ===== verification/Ide_Config.thy ===== *)
theory Ide_Config
  imports Jsonc
begin

text \<open>
  Package ideconfig: the entry of the bridge in the configuration files of the editors, written by
  \<open>a2abridge install\<close> and taken out by \<open>a2abridge uninstall\<close>.  The file system is a map from paths
  to nodes; what a system call does beyond that (whether it succeeds, what an interrupted write
  leaves behind) is read from a record of outcomes, so every error path is a branch.  Results: a
  failed or interrupted run never damages the configuration, a second run changes nothing, every
  other setting is kept, and uninstalling undoes installing.
\<close>

section \<open>Files\<close>

datatype node = Plain string nat | Dir

type_synonym fsys = "string \<Rightarrow> node option"

record host =
  ho_goos :: string
  ho_home :: "string option"
  ho_appdata :: string

definition sep :: "host \<Rightarrow> char" where
  "sep h = (if ho_goos h = ''windows'' then bslash else CHR ''/'')"

definition path_join :: "host \<Rightarrow> string list \<Rightarrow> string" where
  "path_join h parts = str_join parts [sep h]"

text \<open>
  The outcomes of the system calls of one transaction: a call succeeds when its field is true;
  \<open>ci_mkdir\<close> gives the number of directories that were made before the call failed, if it did;
  \<open>ci_bak_left\<close> and \<open>ci_tmp_left\<close> are what a failed write leaves in place.
\<close>

record config_io =
  ci_read :: bool
  ci_bak_read :: bool
  ci_bak_write :: bool
  ci_bak_left :: "node option"
  ci_stamp :: string
  ci_mkdir :: "nat option"
  ci_temp :: bool
  ci_rand :: string
  ci_write :: bool
  ci_chmod :: bool
  ci_close :: bool
  ci_rename :: bool
  ci_unlink :: bool
  ci_tmp_left :: node

datatype cfg_error = No_path | Read_failed | Parse_failed | Backup_failed | Write_failed | Not_installed | Encode_failed

definition fileExists :: "string \<Rightarrow> fsys \<Rightarrow> bool" where
  "fileExists p fs = (p \<noteq> [] \<and> (case fs p of Some (Plain _ _) \<Rightarrow> True | _ \<Rightarrow> False))"

definition dirExists :: "string \<Rightarrow> fsys \<Rightarrow> bool" where
  "dirExists p fs = (p \<noteq> [] \<and> fs p = Some Dir)"

definition os_read :: "bool \<Rightarrow> string \<Rightarrow> fsys \<Rightarrow> string option" where
  "os_read ok p fs = (case fs p of Some (Plain b _) \<Rightarrow> if ok then Some b else None | _ \<Rightarrow> None)"

text \<open>\<open>os.WriteFile\<close>: an existing file keeps its permissions; a failed write leaves something behind.\<close>

definition os_write :: "bool \<Rightarrow> node option \<Rightarrow> string \<Rightarrow> string \<Rightarrow> nat \<Rightarrow> fsys \<Rightarrow> bool \<times> fsys" where
  "os_write ok left p data mode fs =
     (if fs p = Some Dir then (False, fs)
      else if ok then (True, fs(p \<mapsto> Plain data (case fs p of Some (Plain _ m) \<Rightarrow> m | _ \<Rightarrow> mode)))
      else (False, fs(p := left)))"

text \<open>A copy beside the file; nothing when there is no file.  The umask is taken to be 0.\<close>

definition backupFile :: "config_io \<Rightarrow> string \<Rightarrow> fsys \<Rightarrow> (cfg_error + string) \<times> fsys" where
  "backupFile io src fs =
     (case fs src of
        None \<Rightarrow> (Inr [], fs)
      | Some Dir \<Rightarrow> (Inl Backup_failed, fs)
      | Some (Plain b mode) \<Rightarrow>
          (let dst = src @ ''.bak.'' @ ci_stamp io in
           case os_read (ci_bak_read io) src fs of
             None \<Rightarrow> (Inl Backup_failed, fs)
           | Some data \<Rightarrow>
               if fs dst = Some Dir then (Inl Backup_failed, fs)
               else if ci_bak_write io then
                 (Inr dst, fs(dst \<mapsto> Plain data (case fs dst of Some (Plain _ m) \<Rightarrow> m | _ \<Rightarrow> mode)))
               else (Inl Backup_failed, fs(dst := ci_bak_left io))))"

definition ancestors :: "char \<Rightarrow> string \<Rightarrow> string list" where
  "ancestors c dir = map (\<lambda>i. take i dir) (filter (\<lambda>i. dir ! i = c) [1..<length dir]) @ [dir]"

definition not_plain :: "fsys \<Rightarrow> string \<Rightarrow> bool" where
  "not_plain fs p = (case fs p of Some (Plain _ _) \<Rightarrow> False | _ \<Rightarrow> True)"

definition make_dirs :: "string list \<Rightarrow> fsys \<Rightarrow> fsys" where
  "make_dirs ps fs = (\<lambda>p. if p \<in> set ps \<and> fs p = None then Some Dir else fs p)"

definition os_mkdir_all :: "nat option \<Rightarrow> string list \<Rightarrow> fsys \<Rightarrow> bool \<times> fsys" where
  "os_mkdir_all stop ps fs =
     (let made = takeWhile (not_plain fs) (case stop of None \<Rightarrow> ps | Some n \<Rightarrow> take n ps)
      in (stop = None \<and> list_all (not_plain fs) ps, make_dirs made fs))"

definition dir_of :: "char \<Rightarrow> string \<Rightarrow> string" where
  "dir_of c p = rev (drop 1 (dropWhile (\<lambda>x. x \<noteq> c) (rev p)))"

definition unlink_tmp :: "config_io \<Rightarrow> string \<Rightarrow> fsys \<Rightarrow> fsys" where
  "unlink_tmp io tmp fs = (if ci_unlink io then fs(tmp := None) else fs)"

text \<open>A temporary file in the directory of the target (a fresh name), then a rename.\<close>

definition writeFileAtomic :: "host \<Rightarrow> config_io \<Rightarrow> string \<Rightarrow> string \<Rightarrow> nat \<Rightarrow> fsys \<Rightarrow> cfg_error option \<times> fsys" where
  "writeFileAtomic h io path data defaultMode fs =
     (case os_mkdir_all (ci_mkdir io) (ancestors (sep h) (dir_of (sep h) path)) fs of
        (False, fs) \<Rightarrow> (Some Write_failed, fs)
      | (True, fs) \<Rightarrow>
          (let mode = (case fs path of Some (Plain _ m) \<Rightarrow> m | Some Dir \<Rightarrow> 493 | None \<Rightarrow> defaultMode);
               tmp = path @ ''.tmp-'' @ ci_rand io
           in if \<not> ci_temp io \<or> fs tmp \<noteq> None then (Some Write_failed, fs)
              else if \<not> ci_write io then (Some Write_failed, unlink_tmp io tmp (fs(tmp \<mapsto> ci_tmp_left io)))
              else if \<not> ci_chmod io then (Some Write_failed, unlink_tmp io tmp (fs(tmp \<mapsto> Plain data 384)))
              else if \<not> ci_close io then (Some Write_failed, unlink_tmp io tmp (fs(tmp \<mapsto> Plain data mode)))
              else if \<not> ci_rename io \<or> fs path = Some Dir
                then (Some Write_failed, unlink_tmp io tmp (fs(tmp \<mapsto> Plain data mode)))
              else (None, fs(tmp := None, path \<mapsto> Plain data mode))))"

definition newConfigMode :: nat where "newConfigMode = 384"

section \<open>JSON configurations\<close>

type_synonym root = "(string \<times> json) list"

definition readJSONObject :: "config_io \<Rightarrow> string \<Rightarrow> fsys \<Rightarrow> cfg_error + root" where
  "readJSONObject io path fs =
     (if fs path = None then Inr []
      else
        (case os_read (ci_read io) path fs of
           None \<Rightarrow> Inl Read_failed
         | Some b \<Rightarrow>
             if trim_space b = [] then Inr []
             else
               (case map_option go_any (decode_first (stripTrailingCommas (stripJSONComments b))) of
                  Some (JObj m) \<Rightarrow> Inr m
                | Some JNull \<Rightarrow> Inr []
                | _ \<Rightarrow> Inl Parse_failed)))"

definition writeJSONObject :: "host \<Rightarrow> config_io \<Rightarrow> string \<Rightarrow> root \<Rightarrow> fsys \<Rightarrow> cfg_error option \<times> fsys" where
  "writeJSONObject h io path obj fs =
     writeFileAtomic h io path (marshal_indent (JObj obj) @ [newline]) newConfigMode fs"

record cfg_result =
  re_ide :: string
  re_path :: string
  re_found :: bool
  re_updated :: bool
  re_skipped :: bool
  re_backup :: string
  re_dryRun :: bool
  re_error :: "cfg_error option"

definition new_result :: "string \<Rightarrow> bool \<Rightarrow> cfg_result" where
  "new_result name dryRun = \<lparr>re_ide = name, re_path = [], re_found = False, re_updated = False, re_skipped = False,
     re_backup = [], re_dryRun = dryRun, re_error = None\<rparr>"

text \<open>\<open>mutate\<close> gives whether anything changed and the changed object.\<close>

definition writeJSONConfig ::
  "host \<Rightarrow> config_io \<Rightarrow> string \<Rightarrow> string \<Rightarrow> bool \<Rightarrow> (root \<Rightarrow> bool \<times> root) \<Rightarrow> fsys \<Rightarrow> cfg_result \<times> fsys"
where
  "writeJSONConfig h io name path dryRun mutate fs =
     (let res = new_result name dryRun in
      if path = [] then (res\<lparr>re_error := Some No_path\<rparr>, fs)
      else
        (let found = fileExists path fs; res = res\<lparr>re_path := path, re_found := found\<rparr> in
         case readJSONObject io path fs of
           Inl e \<Rightarrow> (res\<lparr>re_error := Some e\<rparr>, fs)
         | Inr r \<Rightarrow>
             (case mutate r of
                (False, _) \<Rightarrow> (res\<lparr>re_skipped := True\<rparr>, fs)
              | (True, r) \<Rightarrow>
                  if dryRun then (res\<lparr>re_updated := True\<rparr>, fs)
                  else
                    (case (if found then backupFile io path fs else (Inr [], fs)) of
                       (Inl e, fs) \<Rightarrow> (res\<lparr>re_error := Some e\<rparr>, fs)
                     | (Inr bak, fs) \<Rightarrow>
                         (case writeJSONObject h io path r fs of
                            (Some e, fs) \<Rightarrow> (res\<lparr>re_backup := bak, re_error := Some e\<rparr>, fs)
                          | (None, fs) \<Rightarrow> (res\<lparr>re_backup := bak, re_updated := True\<rparr>, fs))))))"

text \<open>
  Nested maps: \<open>ensureNestedMap\<close> is the map that the walk returns, a fresh one where there was
  none, and \<open>put_nested\<close> the root after that map was changed in place.
\<close>

definition lookup :: "root \<Rightarrow> string \<Rightarrow> json" where
  "lookup m k = (case map_of m k of Some v \<Rightarrow> v | None \<Rightarrow> JNull)"

definition as_map :: "json \<Rightarrow> root" where
  "as_map j = (case j of JObj m \<Rightarrow> m | _ \<Rightarrow> [])"

definition as_list :: "json \<Rightarrow> json list" where
  "as_list j = (case j of JArr xs \<Rightarrow> xs | _ \<Rightarrow> [])"

definition as_string :: "json \<Rightarrow> string" where
  "as_string j = (case j of JStr s \<Rightarrow> s | _ \<Rightarrow> [])"

fun ensureNestedMap :: "string list \<Rightarrow> root \<Rightarrow> root" where
  "ensureNestedMap [] cur = cur"
| "ensureNestedMap (k # ks) cur = ensureNestedMap ks (as_map (lookup cur k))"

fun put_nested :: "string list \<Rightarrow> root \<Rightarrow> root \<Rightarrow> root" where
  "put_nested [] leaf cur = leaf"
| "put_nested (k # ks) leaf cur = map_put k (JObj (put_nested ks leaf (as_map (lookup cur k)))) cur"

definition equalJSON :: "json \<Rightarrow> json \<Rightarrow> bool" where
  "equalJSON a b = (marshal a = marshal b)"

record spec =
  sp_key :: string
  sp_binary :: string
  sp_env :: "(string \<times> string) list"
  sp_hook :: string

definition DefaultSpec :: "string \<Rightarrow> spec" where
  "DefaultSpec binaryPath = \<lparr>sp_key = ''a2a'', sp_binary = binaryPath,
     sp_env = [(''A2A_DIRECTORY'', ''http://127.0.0.1:7777''), (''A2A_BIND'', ''127.0.0.1:0''),
               (''A2A_ADVERTISE_HOST'', ''127.0.0.1'')],
     sp_hook = []\<rparr>"

definition mcpEntryJSON :: "spec \<Rightarrow> json" where
  "mcpEntryJSON sp =
     (let envObj = go_map (map (\<lambda>e. (fst e, JStr (snd e))) (sp_env sp));
          entry = go_map [(''command'', JStr (sp_binary sp)), (''args'', JArr [JStr ''bridge''])]
      in JObj (if envObj \<noteq> [] then map_put ''env'' (JObj envObj) entry else entry))"

definition setMCPServerEntry :: "spec \<Rightarrow> root \<Rightarrow> bool \<times> root" where
  "setMCPServerEntry sp r =
     (let servers = ensureNestedMap [''mcpServers''] r; desired = mcpEntryJSON sp in
      if equalJSON (lookup servers (sp_key sp)) desired then (False, put_nested [''mcpServers''] servers r)
      else (True, put_nested [''mcpServers''] (map_put (sp_key sp) desired servers) r))"

section \<open>The prompt hook\<close>

definition has_command :: "string \<Rightarrow> json \<Rightarrow> bool" where
  "has_command cmd h = (as_string (lookup (as_map h) ''command'') = cmd)"

definition needsHookUpdate :: "spec \<Rightarrow> root \<Rightarrow> bool" where
  "needsHookUpdate sp r =
     (if sp_hook sp = [] then False
      else
        (case lookup r ''hooks'' of
           JObj hooksRoot \<Rightarrow>
             \<not> list_ex (\<lambda>m. list_ex (has_command (sp_hook sp)) (as_list (lookup (as_map m) ''hooks'')))
                 (as_list (lookup hooksRoot ''UserPromptSubmit''))
         | _ \<Rightarrow> True))"

definition hook_entry :: "string \<Rightarrow> json" where
  "hook_entry command = JObj (go_map [(''type'', JStr ''command''), (''command'', JStr command)])"

definition is_map :: "json \<Rightarrow> bool" where
  "is_map j = (case j of JObj _ \<Rightarrow> True | _ \<Rightarrow> False)"

text \<open>The loop over the matcher groups: \<open>None\<close> when no group for \<open>*\<close> was found.\<close>

fun merge_matchers :: "string \<Rightarrow> json list \<Rightarrow> json list option" where
  "merge_matchers command [] = None"
| "merge_matchers command (m # ms) =
     (case m of
        JObj entry \<Rightarrow>
          if as_string (lookup entry ''matcher'') \<noteq> ''*'' then map_option (Cons m) (merge_matchers command ms)
          else
            (let hooks = as_list (lookup entry ''hooks'') in
             if list_ex (\<lambda>h. is_map h \<and> has_command command h) hooks then Some (m # ms)
             else Some (JObj (map_put ''hooks'' (JArr (hooks @ [hook_entry command])) entry) # ms))
      | _ \<Rightarrow> map_option (Cons m) (merge_matchers command ms))"

definition mergeUserPromptSubmitHook :: "string \<Rightarrow> root \<Rightarrow> root" where
  "mergeUserPromptSubmitHook command r =
     (let hooksRoot = ensureNestedMap [''hooks''] r;
          matchers = as_list (lookup hooksRoot ''UserPromptSubmit'')
      in case merge_matchers command matchers of
           Some ms \<Rightarrow> put_nested [''hooks''] (map_put ''UserPromptSubmit'' (JArr ms) hooksRoot) r
         | None \<Rightarrow>
             put_nested [''hooks''] (map_put ''UserPromptSubmit''
               (JArr (matchers @ [JObj (go_map [(''matcher'', JStr ''*''), (''hooks'', JArr [hook_entry command])])])) hooksRoot) r)"

definition hook_edit :: "spec \<Rightarrow> root \<Rightarrow> bool \<times> root" where
  "hook_edit sp r = (if \<not> needsHookUpdate sp r then (False, r) else (True, mergeUserPromptSubmitHook (sp_hook sp) r))"

section \<open>Removal\<close>

definition map_delete :: "string \<Rightarrow> root \<Rightarrow> root" where
  "map_delete k m = filter (\<lambda>e. fst e \<noteq> k) m"

text \<open>\<open>filepath.Base\<close>.\<close>

definition base_name :: "char \<Rightarrow> string \<Rightarrow> string" where
  "base_name c p =
     (if p = [] then ''.''
      else let q = rev (dropWhile (\<lambda>x. x = c) (rev p))
           in if q = [] then [c] else rev (takeWhile (\<lambda>x. x \<noteq> c) (rev q)))"

definition our_hook :: "char \<Rightarrow> json \<Rightarrow> bool" where
  "our_hook c h = (base_name c (as_string (lookup (as_map h) ''command'')) = ''a2a-inbox-hook.sh'')"

text \<open>One matcher group: whether it changed, and what is left of it.\<close>

definition prune_matcher :: "char \<Rightarrow> json \<Rightarrow> bool \<times> json option" where
  "prune_matcher c m =
     (case m of
        JObj entry \<Rightarrow>
          (let hookList = as_list (lookup entry ''hooks'');
               filtered = filter (\<lambda>h. \<not> our_hook c h) hookList
           in if filtered = [] then (True, None)
              else (list_ex (our_hook c) hookList, Some (JObj (map_put ''hooks'' (JArr filtered) entry))))
      | _ \<Rightarrow> (False, Some m))"

definition pruneUserPromptSubmitHook :: "char \<Rightarrow> root \<Rightarrow> bool \<times> root" where
  "pruneUserPromptSubmitHook c hooks =
     (let matchers = as_list (lookup hooks ''UserPromptSubmit'');
          pruned = map (prune_matcher c) matchers;
          out = List.map_filter snd pruned
      in if \<not> list_ex fst pruned then (False, hooks)
         else (True, if out = [] then map_delete ''UserPromptSubmit'' hooks
                     else map_put ''UserPromptSubmit'' (JArr out) hooks))"

definition remove_server :: "root \<Rightarrow> bool \<times> root" where
  "remove_server r =
     (case lookup r ''mcpServers'' of
        JObj servers \<Rightarrow>
          (let present = (map_of servers ''a2a'' \<noteq> None); servers = map_delete ''a2a'' servers
           in (present, if servers = [] then map_delete ''mcpServers'' r else map_put ''mcpServers'' (JObj servers) r))
      | _ \<Rightarrow> (False, r))"

definition remove_hook :: "char \<Rightarrow> root \<Rightarrow> bool \<times> root" where
  "remove_hook c r =
     (case lookup r ''hooks'' of
        JObj hooks \<Rightarrow>
          (case pruneUserPromptSubmitHook c hooks of
             (changed, hooks) \<Rightarrow>
               (changed, if hooks = [] then map_delete ''hooks'' r else map_put ''hooks'' (JObj hooks) r))
      | _ \<Rightarrow> (False, r))"

definition removal_edit :: "char \<Rightarrow> root \<Rightarrow> bool \<times> root" where
  "removal_edit c r =
     (case remove_server r of (a, r) \<Rightarrow> (case remove_hook c r of (b, r) \<Rightarrow> (a \<or> b, r)))"

definition removeJSONMCPEntry :: "host \<Rightarrow> config_io \<Rightarrow> string \<Rightarrow> fsys \<Rightarrow> cfg_error option \<times> fsys" where
  "removeJSONMCPEntry h io path fs =
     (if \<not> fileExists path fs then (None, fs)
      else
        (case readJSONObject io path fs of
           Inl e \<Rightarrow> (Some e, fs)
         | Inr r \<Rightarrow>
             (case removal_edit (sep h) r of
                (False, _) \<Rightarrow> (None, fs)
              | (True, r) \<Rightarrow>
                  (case backupFile io path fs of
                     (Inl e, fs) \<Rightarrow> (Some e, fs)
                   | (Inr _, fs) \<Rightarrow> writeJSONObject h io path r fs))))"

section \<open>Values that may be written\<close>

definition value_ok :: "nat \<Rightarrow> json \<Rightarrow> bool" where
  "value_ok d j = (any_ok j \<and> fits d j)"

definition config_ok :: "root \<Rightarrow> bool" where
  "config_ok r = value_ok maxNestingDepth (JObj r)"

lemma value_ok_obj:
  "value_ok d (JObj m) \<longleftrightarrow> 0 < d \<and> map_keys_ok m \<and> (\<forall>e \<in> set m. valid_utf8 (fst e) \<and> value_ok (d - 1) (snd e))"
  by (auto simp: value_ok_def)

lemma value_ok_arr: "value_ok d (JArr xs) \<longleftrightarrow> 0 < d \<and> (\<forall>x \<in> set xs. value_ok (d - 1) x)"
  by (auto simp: value_ok_def)

lemma value_ok_str: "value_ok d (JStr s) \<longleftrightarrow> valid_utf8 s"
  by (simp add: value_ok_def)

lemma value_ok_null [simp]: "value_ok d JNull"
  by (simp add: value_ok_def)

lemma put_ok: "value_ok d (JObj m) \<Longrightarrow> valid_utf8 k \<Longrightarrow> value_ok (d - 1) v \<Longrightarrow> value_ok d (JObj (map_put k v m))"
  by (auto simp: value_ok_obj map_put_keys_ok dest!: set_map_put)

lemma lookup_ok: "value_ok d (JObj m) \<Longrightarrow> value_ok (d - 1) (lookup m k)"
  by (fastforce simp: lookup_def value_ok_obj split: option.split dest: map_of_SomeD)

lemma as_map_ok: "value_ok d j \<Longrightarrow> 0 < d \<Longrightarrow> value_ok d (JObj (as_map j))"
  by (cases j) (simp_all add: as_map_def value_ok_obj [of d "[]"] map_keys_ok_def)

lemma as_list_ok: "value_ok d j \<Longrightarrow> x \<in> set (as_list j) \<Longrightarrow> value_ok (d - 1) x"
  by (auto simp: as_list_def value_ok_arr split: json.splits)

lemma delete_ok: "value_ok d (JObj m) \<Longrightarrow> value_ok d (JObj (map_delete k m))"
  by (auto simp: value_ok_obj map_delete_def map_keys_ok_def distinct_map_filter intro: sorted_filter)

lemma lookup_put: "map_keys_ok m \<Longrightarrow> lookup (map_put k v m) i = (if i = k then v else lookup m i)"
  by (simp add: lookup_def map_put_lookup)

lemma map_of_delete: "map_of (map_delete k m) = (map_of m)(k := None)"
  by (induction m) (auto simp: map_delete_def fun_eq_iff)

lemma lookup_delete: "lookup (map_delete k m) i = (if i = k then JNull else lookup m i)"
  by (simp add: lookup_def map_of_delete)

lemma go_map_ok:
  "0 < d \<Longrightarrow> (\<forall>e \<in> set m. valid_utf8 (fst e) \<and> value_ok (d - 1) (snd e)) \<Longrightarrow> value_ok d (JObj (go_map m))"
  by (auto simp: value_ok_obj go_map_keys_ok dest!: go_map_subset)


lemma key_valid:
  "valid_utf8 ''mcpServers''" "valid_utf8 ''hooks''" "valid_utf8 ''UserPromptSubmit''" "valid_utf8 ''command''" "valid_utf8 ''type''"
  "valid_utf8 ''matcher''" "valid_utf8 ''args''" "valid_utf8 ''env''" "valid_utf8 ''bridge''" "valid_utf8 ''*''" "valid_utf8 ''a2a''"
  by (rule valid_utf8_ascii, simp add: byte_of_def)+

section \<open>Reading and writing\<close>

lemma trim_space_keeps:
  assumes "c \<in> set s" "\<forall>p \<in> set space_runes. c \<notin> set p"
  shows "trim_space s \<noteq> []"
proof -
  have keep: "c \<in> set t \<Longrightarrow> \<forall>p \<in> set ps. c \<notin> set p \<Longrightarrow> c \<in> set (strip_lead ps t)" for ps t
  proof (induction ps t rule: strip_lead.induct)
    case (1 ps s)
    show ?case
    proof (cases "lead_of ps s")
      case (Some p)
      then have "prefix p s" "p \<in> set ps" by (auto simp: lead_of_def find_Some_iff)
      then have "c \<in> set (drop (length p) s)" using "1.prems" by (auto simp: prefix_def)
      then show ?thesis using Some 1 by (simp add: strip_lead.simps [of ps s])
    qed (use "1.prems" in \<open>simp add: strip_lead_id\<close>)
  qed
  have "c \<in> set (trim_space s)" unfolding trim_space_def using keep assms by simp
  then show ?thesis by auto
qed

lemma readJSONObject_ok: "readJSONObject io path fs = Inr r \<Longrightarrow> config_ok r"
proof -
  assume a: "readJSONObject io path fs = Inr r"
  have e: "config_ok []" by (simp add: config_ok_def value_ok_obj map_keys_ok_def maxNestingDepth_def)
  show ?thesis
  proof (cases "r = []")
    case False
    with a obtain b j where "decode_first b = Some j" "go_any j = JObj r"
      by (auto simp: readJSONObject_def split: if_splits option.splits json.splits)
    then show ?thesis using decode_first_ok [of b j] go_any_ok [of j] go_any_fits [of maxNestingDepth j]
      by (auto simp: config_ok_def value_ok_def)
  qed (use e in simp)
qed

lemma config_text_read:
  assumes "config_ok r" "fs path = Some (Plain (marshal_indent (JObj r) @ [newline]) mode)" "ci_read io"
  shows "readJSONObject io path fs = Inr r"
proof -
  have "CHR ''{'' \<in> set (marshal_indent (JObj r) @ [newline])" by (simp add: marshal_indent_def)
  then have "trim_space (marshal_indent (JObj r) @ [newline]) \<noteq> []"
    by (rule trim_space_keeps) (simp add: space_runes_def)
  moreover obtain z where "go_any z = JObj r"
      "decode_first (stripTrailingCommas (stripJSONComments (marshal_indent (JObj r) @ [newline]))) = Some z"
    using assms(1) read_back [of "JObj r"] unfolding config_ok_def value_ok_def map_option_eq_Some by blast
  ultimately show ?thesis using assms by (simp add: readJSONObject_def os_read_def)
qed

text \<open>
  What a transaction may do to the files: directories may appear, the copy and the temporary
  file may be left behind, and every other file is as it was.
\<close>

definition changes_only :: "string set \<Rightarrow> fsys \<Rightarrow> fsys \<Rightarrow> bool" where
  "changes_only ps fs fs' = (\<forall>p. p \<notin> ps \<longrightarrow> fs' p = fs p \<or> fs p = None \<and> fs' p = Some Dir)"

lemma changes_only_refl: "changes_only ps fs fs"
  by (simp add: changes_only_def)

lemma changes_only_trans:
  "changes_only ps fs fs' \<Longrightarrow> changes_only qs fs' fs'' \<Longrightarrow> ps \<union> qs \<subseteq> rs \<Longrightarrow> changes_only rs fs fs''"
  unfolding changes_only_def by (metis UnCI subsetD)

lemma changes_only_mono: "changes_only ps fs fs' \<Longrightarrow> ps \<subseteq> qs \<Longrightarrow> changes_only qs fs fs'"
  by (auto simp: changes_only_def)

lemma changes_only_other: "changes_only ps fs fs' \<Longrightarrow> p \<notin> ps \<Longrightarrow> fs p = Some n \<Longrightarrow> fs' p = Some n"
  by (auto simp: changes_only_def)

lemma changes_only_upd: "p \<in> ps \<Longrightarrow> changes_only ps fs fs' \<Longrightarrow> changes_only ps fs (fs'(p := v))"
  by (auto simp: changes_only_def)

lemma mkdir_changes: "os_mkdir_all stop ps fs = (ok, fs') \<Longrightarrow> changes_only qs fs fs'"
  unfolding os_mkdir_all_def Let_def changes_only_def by (auto simp: make_dirs_def split: if_splits)

lemma ancestors_shorter:
  assumes "path \<noteq> []" "p \<in> set (ancestors c (dir_of c path))"
  shows "p \<noteq> path"
proof -
  have "length (dropWhile (\<lambda>x. x \<noteq> c) (rev path)) \<le> length path" by (metis length_dropWhile_le length_rev)
  moreover have "0 < length path" using assms(1) by simp
  ultimately have "length (dir_of c path) < length path" unfolding dir_of_def length_rev length_drop by linarith
  moreover have "length p \<le> length (dir_of c path)" using assms(2) by (auto simp: ancestors_def)
  ultimately show ?thesis by auto
qed

lemma mkdir_target:
  assumes "os_mkdir_all stop (ancestors c (dir_of c path)) fs = (ok, fs')" "path \<noteq> []"
  shows "fs' path = fs path"
proof -
  let ?ps = "ancestors c (dir_of c path)"
  let ?made = "takeWhile (not_plain fs) (case stop of None \<Rightarrow> ?ps | Some n \<Rightarrow> take n ?ps)"
  have "fs' = make_dirs ?made fs" using assms(1) by (simp add: os_mkdir_all_def Let_def)
  moreover have "path \<notin> set ?made"
    using ancestors_shorter [OF assms(2)] by (cases stop) (auto dest!: set_takeWhileD in_set_takeD)
  ultimately show ?thesis by (simp add: make_dirs_def)
qed

definition tmp_path :: "config_io \<Rightarrow> string \<Rightarrow> string" where
  "tmp_path io path = path @ ''.tmp-'' @ ci_rand io"

definition bak_path :: "config_io \<Rightarrow> string \<Rightarrow> string" where
  "bak_path io path = path @ ''.bak.'' @ ci_stamp io"

lemma paths_differ [simp]:
  "tmp_path io path \<noteq> path" "path \<noteq> tmp_path io path" "bak_path io' path \<noteq> path" "path \<noteq> bak_path io' path"
  "tmp_path io path \<noteq> bak_path io' path" "bak_path io' path \<noteq> tmp_path io path"
  by (simp_all add: tmp_path_def bak_path_def)

text \<open>\<open>writeFileAtomic\<close>: all or nothing on the target, its permissions kept.\<close>

lemma writeFileAtomic_spec:
  assumes "writeFileAtomic h io path data m fs = (e, fs')" "fs path \<noteq> Some Dir" "path \<noteq> []"
  shows "changes_only {path, tmp_path io path} fs fs'"
    and "e \<noteq> None \<Longrightarrow> fs' path = fs path"
    and "e = None \<Longrightarrow> \<exists>mode. fs' path = Some (Plain data mode) \<and> (\<forall>b k. fs path = Some (Plain b k) \<longrightarrow> mode = k)"
proof -
  obtain ok fs1 where m: "os_mkdir_all (ci_mkdir io) (ancestors (sep h) (dir_of (sep h) path)) fs = (ok, fs1)" by fastforce
  note t = mkdir_target [OF m assms(3)]
  note d = assms(1) [unfolded writeFileAtomic_def m Let_def unlink_tmp_def tmp_path_def [symmetric]]
  show "changes_only {path, tmp_path io path} fs fs'"
    using d mkdir_changes [OF m, of "{path, tmp_path io path}"] by (auto split: bool.splits if_splits intro!: changes_only_upd)
  show "e \<noteq> None \<Longrightarrow> fs' path = fs path"
    using d t by (auto split: bool.splits if_splits)
  show "e = None \<Longrightarrow> \<exists>mode. fs' path = Some (Plain data mode) \<and> (\<forall>b k. fs path = Some (Plain b k) \<longrightarrow> mode = k)"
    using d t by (auto split: bool.splits if_splits)
qed

lemma backupFile_spec:
  assumes "backupFile io src fs = (r, fs')"
  shows "changes_only {bak_path io src} fs fs'" "fs' src = fs src"
    and "r = Inr bak \<Longrightarrow> fs src = Some (Plain b m) \<Longrightarrow> \<exists>k. fs' (bak_path io src) = Some (Plain b k)"
proof -
  note d = assms [unfolded backupFile_def Let_def bak_path_def [symmetric]]
  show "changes_only {bak_path io src} fs fs'"
    using d by (auto simp: changes_only_refl split: option.splits node.splits if_splits intro!: changes_only_upd)
  show "fs' src = fs src" using d by (auto split: option.splits node.splits if_splits)
  show "r = Inr bak \<Longrightarrow> fs src = Some (Plain b m) \<Longrightarrow> \<exists>k. fs' (bak_path io src) = Some (Plain b k)"
    using d by (auto simp: os_read_def split: if_splits)
qed

text \<open>The two ways a transaction can end.\<close>

definition config_text :: "root \<Rightarrow> string" where
  "config_text r = marshal_indent (JObj r) @ [newline]"

definition config_kept :: "config_io \<Rightarrow> string \<Rightarrow> fsys \<Rightarrow> fsys \<Rightarrow> bool" where
  "config_kept io path fs fs' = (fs' path = fs path \<and> changes_only {tmp_path io path, bak_path io path} fs fs')"

definition config_written :: "config_io \<Rightarrow> string \<Rightarrow> root \<Rightarrow> fsys \<Rightarrow> fsys \<Rightarrow> bool" where
  "config_written io path r fs fs' =
     (changes_only {path, tmp_path io path, bak_path io path} fs fs' \<and>
      (\<exists>mode. fs' path = Some (Plain (config_text r) mode) \<and>
        (\<forall>b k. fs path = Some (Plain b k) \<longrightarrow> mode = k \<and> (\<exists>m. fs' (bak_path io path) = Some (Plain b m)))))"

lemma config_kept_refl: "config_kept io path fs fs"
  by (simp add: config_kept_def changes_only_refl)

lemma commit_spec:
  assumes "backupFile io path fs = (b, fs1)" "fs path \<noteq> Some Dir" "path \<noteq> []"
  shows "config_kept io path fs fs1"
    and "b = Inr bak \<Longrightarrow> writeJSONObject h io path r fs1 = (Some e, fs2) \<Longrightarrow> config_kept io path fs fs2"
    and "b = Inr bak \<Longrightarrow> writeJSONObject h io path r fs1 = (None, fs2) \<Longrightarrow> config_written io path r fs fs2"
proof -
  note c = backupFile_spec [OF assms(1)]
  have nd: "fs1 path \<noteq> Some Dir" using c(2) assms(2) by simp
  note sp = writeFileAtomic_spec [where path = path and fs = fs1, OF _ nd assms(3)]
  show "config_kept io path fs fs1"
    using c(2) changes_only_mono [OF c(1)] by (simp add: config_kept_def)
  have ch: "changes_only {path, tmp_path io path, bak_path io path} fs fs2"
    if w: "writeJSONObject h io path r fs1 = (x, fs2)" for x
    by (rule changes_only_trans [OF c(1) sp(1) [OF w [unfolded writeJSONObject_def]]]) simp
  show "config_kept io path fs fs2" if "b = Inr bak" and w: "writeJSONObject h io path r fs1 = (Some e, fs2)"
    using ch [OF w] c(2) sp(2) [OF w [unfolded writeJSONObject_def]] by (auto simp: config_kept_def changes_only_def)
  show "config_written io path r fs fs2" if "b = Inr bak" and w: "writeJSONObject h io path r fs1 = (None, fs2)"
  proof -
    obtain mode where m: "fs2 path = Some (Plain (config_text r) mode)" "\<forall>b k. fs1 path = Some (Plain b k) \<longrightarrow> mode = k"
      using sp(3) [OF w [unfolded writeJSONObject_def]] by (auto simp: config_text_def)
    have "\<exists>m. fs2 (bak_path io path) = Some (Plain d m)" if old: "fs path = Some (Plain d k)" for d k
    proof -
      obtain m where "fs1 (bak_path io path) = Some (Plain d m)" using c(3) [OF \<open>b = Inr bak\<close> old] by blast
      then show ?thesis using changes_only_other [OF sp(1) [OF w [unfolded writeJSONObject_def]]] by simp
    qed
    then show ?thesis using m c(2) ch [OF w] by (auto simp: config_written_def)
  qed
qed

lemma readJSONObject_dir: "fs path = Some Dir \<Longrightarrow> readJSONObject io path fs = Inl Read_failed"
  by (simp add: readJSONObject_def os_read_def)

lemma writeJSONConfig_cases:
  assumes "writeJSONConfig h io name path dry edit fs = (res, fs')"
  obtains (kept) "config_kept io path fs fs'" "re_updated res \<longrightarrow> dry \<and> fs' = fs"
  | (written) r r' where "readJSONObject io path fs = Inr r" "edit r = (True, r')" "\<not> dry" "path \<noteq> []"
      "re_error res = None" "re_updated res" "config_written io path r' fs fs'"
proof (cases "path \<noteq> [] \<and> \<not> dry \<and> (\<exists>r r'. readJSONObject io path fs = Inr r \<and> edit r = (True, r'))")
  case False
  have "fs' = fs \<and> (re_updated res \<longrightarrow> dry)"
  proof (cases "path = []")
    case True
    then show ?thesis using assms by (auto simp: writeJSONConfig_def new_result_def)
  next
    case path: False
    show ?thesis
    proof (cases "readJSONObject io path fs")
      case (Inl e)
      then show ?thesis using assms path by (auto simp: writeJSONConfig_def new_result_def)
    next
      case (Inr r)
      obtain c r' where c: "edit r = (c, r')" by fastforce
      then show ?thesis
        using assms path False Inr by (cases c; cases dry) (auto simp: writeJSONConfig_def new_result_def)
    qed
  qed
  then show ?thesis using kept config_kept_refl by blast
next
  case True
  then obtain r r' where r: "path \<noteq> []" "\<not> dry" "readJSONObject io path fs = Inr r" "edit r = (True, r')" by blast
  then have nd: "fs path \<noteq> Some Dir" using readJSONObject_dir [of fs path io] by auto
  have bk: "(if fileExists path fs then backupFile io path fs else (Inr [], fs)) = backupFile io path fs"
    using nd r(1) by (auto simp: fileExists_def backupFile_def split: option.splits node.splits)
  obtain b fs1 where b: "backupFile io path fs = (b, fs1)" by fastforce
  note w = assms [unfolded writeJSONConfig_def Let_def bk, unfolded b]
  note sp = commit_spec [OF b nd r(1)]
  show ?thesis
  proof (cases b)
    case (Inl e)
    then show ?thesis using w r sp(1) by (intro kept) (auto simp: new_result_def)
  next
    case (Inr bak)
    obtain x fs2 where x: "writeJSONObject h io path r' fs1 = (x, fs2)" by fastforce
    show ?thesis
    proof (cases x)
      case None
      then show ?thesis
        using w r x Inr sp(3) [OF Inr x [unfolded None]] by (intro written [OF r(3,4,2,1)]) (auto simp: new_result_def)
    next
      case (Some e)
      then show ?thesis
        using w r x Inr sp(2) [OF Inr x [unfolded Some]] by (intro kept) (auto simp: new_result_def)
    qed
  qed
qed

lemma removeJSONMCPEntry_cases:
  assumes "removeJSONMCPEntry h io path fs = (e, fs')"
  obtains (kept) "config_kept io path fs fs'"
    "e = None \<Longrightarrow> fs' = fs \<and> (\<not> fileExists path fs \<or> (\<exists>r. readJSONObject io path fs = Inr r \<and> \<not> fst (removal_edit (sep h) r)))"
  | (written) r r' where "readJSONObject io path fs = Inr r" "removal_edit (sep h) r = (True, r')" "e = None" "path \<noteq> []"
      "config_written io path r' fs fs'"
proof (cases "fileExists path fs \<and> (\<exists>r r'. readJSONObject io path fs = Inr r \<and> removal_edit (sep h) r = (True, r'))")
  case False
  have "fs' = fs \<and> (e = None \<longrightarrow> \<not> fileExists path fs \<or> (\<exists>r. readJSONObject io path fs = Inr r \<and> \<not> fst (removal_edit (sep h) r)))"
  proof (cases "fileExists path fs")
    case found: True
    show ?thesis
    proof (cases "readJSONObject io path fs")
      case (Inr r)
      obtain c r' where "removal_edit (sep h) r = (c, r')" by fastforce
      then show ?thesis using assms found Inr False by (cases c) (auto simp: removeJSONMCPEntry_def)
    qed (use assms found in \<open>auto simp: removeJSONMCPEntry_def\<close>)
  qed (use assms in \<open>simp add: removeJSONMCPEntry_def\<close>)
  then show ?thesis using kept config_kept_refl by blast
next
  case True
  then obtain r r' where r: "path \<noteq> []" "readJSONObject io path fs = Inr r" "removal_edit (sep h) r = (True, r')" "fileExists path fs"
    by (auto simp: fileExists_def)
  then have nd: "fs path \<noteq> Some Dir" using readJSONObject_dir [of fs path io] by auto
  obtain b fs1 where b: "backupFile io path fs = (b, fs1)" by fastforce
  note w = assms [unfolded removeJSONMCPEntry_def b]
  note sp = commit_spec [OF b nd r(1)]
  show ?thesis
  proof (cases b)
    case (Inl x)
    then show ?thesis using w r sp(1) by (intro kept) auto
  next
    case (Inr bak)
    then have x: "writeJSONObject h io path r' fs1 = (e, fs')" using w r by simp
    show ?thesis
    proof (cases e)
      case None
      then show ?thesis using r sp(3) [OF Inr x [unfolded None]] by (intro written) auto
    next
      case (Some y)
      then show ?thesis using sp(2) [OF Inr x [unfolded Some]] by (intro kept) auto
    qed
  qed
qed

section \<open>Edits that settle\<close>

text \<open>
  What every edit of a configuration promises: a changed object can be written, and the edit has
  nothing left to do on it.
\<close>

locale config_edit =
  fixes ok :: "'s \<Rightarrow> bool" and edit :: "'s \<Rightarrow> root \<Rightarrow> bool \<times> root"
  assumes edit_writable: "ok s \<Longrightarrow> config_ok r \<Longrightarrow> edit s r = (True, r') \<Longrightarrow> config_ok r'"
    and edit_settles: "ok s \<Longrightarrow> config_ok r \<Longrightarrow> edit s r = (True, r') \<Longrightarrow> \<not> fst (edit s r')"
begin

lemma written_read:
  assumes "ok s" "readJSONObject io path fs = Inr r" "edit s r = (True, r')" "config_written io path r' fs fs'" "ci_read io'"
  shows "readJSONObject io' path fs' = Inr r'"
proof -
  have "config_ok r'" by (rule edit_writable [OF assms(1) readJSONObject_ok [OF assms(2)] assms(3)])
  then show ?thesis using assms(4,5) config_text_read by (auto simp: config_written_def config_text_def)
qed

lemma second_run_skips:
  assumes "ok s" "writeJSONConfig h io name path dry (edit s) fs = (res, fs')" "re_updated res" "\<not> dry" "ci_read io'"
  shows "\<exists>res'. writeJSONConfig h io' name path dry' (edit s) fs' = (res', fs') \<and> re_skipped res' \<and> re_error res' = None"
  using assms(2)
proof (cases rule: writeJSONConfig_cases)
  case (written r r')
  have "readJSONObject io' path fs' = Inr r'" by (rule written_read [OF assms(1) written(1,2,7) assms(5)])
  moreover obtain r'' where "edit s r' = (False, r'')"
    using edit_settles [OF assms(1) readJSONObject_ok [OF written(1)] written(2)] by (cases "edit s r'") auto
  ultimately show ?thesis using written(4) by (simp add: writeJSONConfig_def new_result_def)
qed (use assms in simp)

end

text \<open>The entry of the server.\<close>

definition spec_ok :: "spec \<Rightarrow> bool" where
  "spec_ok sp = (valid_utf8 (sp_key sp) \<and> valid_utf8 (sp_binary sp) \<and> list_all (\<lambda>e. valid_utf8 (fst e) \<and> valid_utf8 (snd e)) (sp_env sp))"

lemma mcpEntryJSON_ok: "spec_ok sp \<Longrightarrow> 2 < d \<Longrightarrow> value_ok d (mcpEntryJSON sp)"
proof -
  assume sp: "spec_ok sp" and d: "2 < d"
  have "value_ok (d - 1) (JObj (go_map (map (\<lambda>e. (fst e, JStr (snd e))) (sp_env sp))))"
    by (rule go_map_ok) (use sp d in \<open>auto simp: spec_ok_def list_all_iff value_ok_str\<close>)
  moreover have "value_ok d (JObj (go_map [(''command'', JStr (sp_binary sp)), (''args'', JArr [JStr ''bridge''])]))"
    by (rule go_map_ok) (use sp d in \<open>auto simp: spec_ok_def value_ok_str value_ok_arr key_valid\<close>)
  ultimately show ?thesis by (auto simp: mcpEntryJSON_def Let_def put_ok key_valid)
qed

definition servers_of :: "root \<Rightarrow> root" where
  "servers_of r = as_map (lookup r ''mcpServers'')"

lemma servers_ok: "config_ok r \<Longrightarrow> value_ok (maxNestingDepth - 1) (JObj (servers_of r))"
  unfolding config_ok_def servers_of_def by (rule as_map_ok [OF lookup_ok]) (simp_all add: maxNestingDepth_def)

lemma config_keys: "config_ok r \<Longrightarrow> map_keys_ok r" "config_ok r \<Longrightarrow> map_keys_ok (servers_of r)"
  using servers_ok [of r] by (simp_all add: config_ok_def value_ok_obj)

lemma set_entry_eq:
  "setMCPServerEntry sp r =
     (if equalJSON (lookup (servers_of r) (sp_key sp)) (mcpEntryJSON sp) then (False, map_put ''mcpServers'' (JObj (servers_of r)) r)
      else (True, map_put ''mcpServers'' (JObj (map_put (sp_key sp) (mcpEntryJSON sp) (servers_of r))) r))"
  by (simp add: setMCPServerEntry_def servers_of_def Let_def)

interpretation server: config_edit spec_ok setMCPServerEntry
proof unfold_locales
  fix sp r r'
  assume sp: "spec_ok sp" and r: "config_ok r" and "setMCPServerEntry sp r = (True, r')"
  then have r': "r' = map_put ''mcpServers'' (JObj (map_put (sp_key sp) (mcpEntryJSON sp) (servers_of r))) r"
    by (auto simp: set_entry_eq split: if_splits)
  have "value_ok (maxNestingDepth - 1) (JObj (map_put (sp_key sp) (mcpEntryJSON sp) (servers_of r)))"
    using sp by (intro put_ok servers_ok r mcpEntryJSON_ok) (auto simp: spec_ok_def maxNestingDepth_def)
  then show "config_ok r'"
    using r unfolding config_ok_def r' by (simp only: put_ok key_valid)
  have "lookup (servers_of r') (sp_key sp) = mcpEntryJSON sp"
    using config_keys [OF r] by (simp add: r' servers_of_def lookup_put as_map_def)
  then show "\<not> fst (setMCPServerEntry sp r')" by (simp add: set_entry_eq equalJSON_def)
qed

text \<open>The prompt hook.\<close>

definition hook_ok :: "spec \<Rightarrow> bool" where
  "hook_ok sp = valid_utf8 (sp_hook sp)"

definition hooks_of :: "root \<Rightarrow> root" where
  "hooks_of r = as_map (lookup r ''hooks'')"

definition groups_of :: "root \<Rightarrow> json list" where
  "groups_of r = as_list (lookup (hooks_of r) ''UserPromptSubmit'')"

definition group_has :: "string \<Rightarrow> json \<Rightarrow> bool" where
  "group_has cmd m = list_ex (has_command cmd) (as_list (lookup (as_map m) ''hooks''))"

lemma needs_hook_iff: "sp_hook sp \<noteq> [] \<Longrightarrow> needsHookUpdate sp r = (\<not> list_ex (group_has (sp_hook sp)) (groups_of r))"
  by (auto simp: needsHookUpdate_def groups_of_def hooks_of_def as_map_def lookup_def [of "[]"] as_list_def group_has_def
      list_ex_iff split: json.splits)

lemma hook_entry_eq: "hook_entry cmd = JObj [(''command'', JStr cmd), (''type'', JStr ''command'')]"
  by (simp add: hook_entry_def go_map_def)

lemma has_command_hook_entry: "has_command cmd (hook_entry cmd)"
  by (simp add: has_command_def hook_entry_eq as_map_def lookup_def as_string_def)

lemma hook_entry_ok: "valid_utf8 cmd \<Longrightarrow> 0 < d \<Longrightarrow> value_ok d (hook_entry cmd)"
  by (simp add: hook_entry_eq value_ok_obj value_ok_str map_keys_ok_def key_valid)

abbreviation extended :: "string \<Rightarrow> root \<Rightarrow> json" where
  "extended cmd entry \<equiv> JObj (map_put ''hooks'' (JArr (as_list (lookup entry ''hooks'') @ [hook_entry cmd])) entry)"

lemma extended_group:
  assumes "value_ok d (JObj entry)" "valid_utf8 cmd" "2 < d"
  shows "group_has cmd (extended cmd entry)" "value_ok d (extended cmd entry)"
proof -
  show "group_has cmd (extended cmd entry)"
    using assms(1) by (simp add: group_has_def as_map_def value_ok_obj lookup_put as_list_def [of "JArr _"] has_command_hook_entry)
  have "value_ok (d - 1 - 1) x" if "x \<in> set (as_list (lookup entry ''hooks''))" for x
    by (rule as_list_ok [OF lookup_ok [OF assms(1)] that])
  moreover have "value_ok (d - 1 - 1) (hook_entry cmd)" using assms by (intro hook_entry_ok) auto
  ultimately have "value_ok (d - 1) (JArr (as_list (lookup entry ''hooks'') @ [hook_entry cmd]))"
    using assms(3) by (auto simp: value_ok_arr)
  then show "value_ok d (extended cmd entry)" by (rule put_ok [OF assms(1) key_valid(2)])
qed

lemma merge_matchers_spec:
  assumes "merge_matchers cmd ms = Some ms'" "\<forall>m \<in> set ms. value_ok d m" "valid_utf8 cmd" "2 < d" "\<not> list_ex (group_has cmd) ms"
  shows "list_ex (group_has cmd) ms' \<and> (\<forall>m \<in> set ms'. value_ok d m)"
  using assms
proof (induction ms arbitrary: ms')
  case (Cons m ms)
  show ?case
  proof (cases "\<exists>entry. m = JObj entry \<and> as_string (lookup entry ''matcher'') = ''*''")
    case True
    then obtain entry where m: "m = JObj entry" "as_string (lookup entry ''matcher'') = ''*''" by blast
    have "\<not> list_ex (\<lambda>h. is_map h \<and> has_command cmd h) (as_list (lookup entry ''hooks''))"
      using Cons.prems(5) m(1) by (auto simp: group_has_def as_map_def list_ex_iff)
    then have "ms' = extended cmd entry # ms"
      using Cons.prems(1) m by simp
    then show ?thesis using extended_group [of d entry cmd] Cons.prems m(1) by auto
  next
    case False
    then have "map_option (Cons m) (merge_matchers cmd ms) = Some ms'"
      using Cons.prems(1) by (cases m) auto
    then obtain rest where "merge_matchers cmd ms = Some rest" "ms' = m # rest" by auto
    then show ?thesis using Cons by auto
  qed
qed simp

lemma groups_ok:
  assumes "config_ok r"
  shows "value_ok (maxNestingDepth - 1) (JObj (hooks_of r))" "\<forall>m \<in> set (groups_of r). value_ok (maxNestingDepth - 3) m"
proof -
  show h: "value_ok (maxNestingDepth - 1) (JObj (hooks_of r))"
    unfolding hooks_of_def by (rule as_map_ok [OF lookup_ok]) (use assms in \<open>simp_all add: config_ok_def maxNestingDepth_def\<close>)
  have "maxNestingDepth - 1 - 1 - 1 = maxNestingDepth - 3" by simp
  then show "\<forall>m \<in> set (groups_of r). value_ok (maxNestingDepth - 3) m"
    using as_list_ok [OF lookup_ok [OF h]] by (metis groups_of_def)
qed

text \<open>The groups after the hook was merged in.\<close>

definition merged_groups :: "string \<Rightarrow> json list \<Rightarrow> json list" where
  "merged_groups cmd ms =
     (case merge_matchers cmd ms of
        Some ms' \<Rightarrow> ms'
      | None \<Rightarrow> ms @ [JObj [(''hooks'', JArr [hook_entry cmd]), (''matcher'', JStr ''*'')]])"

lemma merge_hook_eq:
  "mergeUserPromptSubmitHook cmd r =
     map_put ''hooks'' (JObj (map_put ''UserPromptSubmit'' (JArr (merged_groups cmd (groups_of r))) (hooks_of r))) r"
  by (simp add: mergeUserPromptSubmitHook_def merged_groups_def groups_of_def hooks_of_def Let_def go_map_def split: option.split)

lemma merged_groups_spec:
  assumes "\<forall>m \<in> set ms. value_ok d m" "valid_utf8 cmd" "2 < d" "\<not> list_ex (group_has cmd) ms"
  shows "list_ex (group_has cmd) (merged_groups cmd ms) \<and> (\<forall>m \<in> set (merged_groups cmd ms). value_ok d m)"
proof (cases "merge_matchers cmd ms")
  case None
  let ?g = "JObj [(''hooks'', JArr [hook_entry cmd]), (''matcher'', JStr ''*'')]"
  have "group_has cmd ?g" by (simp add: group_has_def as_map_def lookup_def as_list_def has_command_hook_entry)
  moreover have "value_ok d ?g"
    using assms(2,3) by (simp add: value_ok_obj value_ok_arr value_ok_str map_keys_ok_def key_valid hook_entry_ok)
  ultimately show ?thesis using None assms(1) by (simp add: merged_groups_def)
next
  case (Some ms')
  then show ?thesis using merge_matchers_spec [OF Some assms] by (simp add: merged_groups_def)
qed

lemma groups_put:
  assumes "config_ok r"
  shows "groups_of (map_put ''hooks'' (JObj (map_put ''UserPromptSubmit'' (JArr ms) (hooks_of r))) r) = ms"
  using groups_ok(1) [OF assms] assms
  by (simp add: groups_of_def hooks_of_def config_ok_def value_ok_obj lookup_put as_map_def [of "JObj _"] as_list_def [of "JArr _"])

interpretation hook: config_edit hook_ok hook_edit
proof unfold_locales
  fix sp r r'
  assume sp: "hook_ok sp" and r: "config_ok r" and e: "hook_edit sp r = (True, r')"
  then have ne: "sp_hook sp \<noteq> []" and n: "\<not> list_ex (group_has (sp_hook sp)) (groups_of r)"
    using needs_hook_iff [of sp r] by (auto simp: hook_edit_def needsHookUpdate_def split: if_splits)
  have r': "r' = mergeUserPromptSubmitHook (sp_hook sp) r" using e by (auto simp: hook_edit_def split: if_splits)
  note m = merged_groups_spec [OF groups_ok(2) [OF r] sp [unfolded hook_ok_def] _ n]
  have "value_ok (maxNestingDepth - 1 - 1) (JArr (merged_groups (sp_hook sp) (groups_of r)))"
    using m by (simp add: value_ok_arr maxNestingDepth_def)
  then have "value_ok (maxNestingDepth - 1) (JObj (map_put ''UserPromptSubmit'' (JArr (merged_groups (sp_hook sp) (groups_of r))) (hooks_of r)))"
    by (rule put_ok [OF groups_ok(1) [OF r] key_valid(3)])
  then show "config_ok r'"
    using r unfolding config_ok_def r' merge_hook_eq by (simp only: put_ok key_valid)
  have "groups_of r' = merged_groups (sp_hook sp) (groups_of r)"
    unfolding r' merge_hook_eq by (rule groups_put [OF r])
  then show "\<not> fst (hook_edit sp r')"
    using m needs_hook_iff [OF ne, of r'] by (simp add: hook_edit_def maxNestingDepth_def)
qed

text \<open>The removal.\<close>

lemma prune_matcher_spec:
  assumes "value_ok d m" "1 < d" "prune_matcher c m = (b, Some m')"
  shows "value_ok d m' \<and> \<not> fst (prune_matcher c m')"
proof (cases "\<exists>entry. m = JObj entry")
  case True
  then obtain entry where m: "m = JObj entry" by blast
  let ?hs = "filter (\<lambda>h. \<not> our_hook c h) (as_list (lookup entry ''hooks''))"
  have m': "?hs \<noteq> []" "m' = JObj (map_put ''hooks'' (JArr ?hs) entry)"
    using assms(3) m by (auto simp: prune_matcher_def Let_def split: if_splits)
  have l: "lookup (map_put ''hooks'' (JArr ?hs) entry) ''hooks'' = JArr ?hs"
    using assms(1) m by (simp add: value_ok_obj lookup_put)
  have "value_ok (d - 1) (JArr ?hs)"
    using as_list_ok [OF lookup_ok [OF assms(1) [unfolded m]]] assms(2) by (auto simp: value_ok_arr)
  then have "value_ok d m'" unfolding m' by (rule put_ok [OF assms(1) [unfolded m] key_valid(2)])
  moreover have "fst (prune_matcher c m') = False"
    using m'(1) unfolding m'(2) prune_matcher_def json.case l Let_def as_list_def [of "JArr _"] by (auto simp: list_ex_iff)
  ultimately show ?thesis by simp
next
  case False
  then show ?thesis using assms by (cases m) (auto simp: prune_matcher_def)
qed

lemma prune_spec:
  assumes "value_ok d (JObj hooks)" "3 < d" "pruneUserPromptSubmitHook c hooks = (b, hooks')"
  shows "value_ok d (JObj hooks') \<and> \<not> fst (pruneUserPromptSubmitHook c hooks')"
proof -
  let ?pr = "map (prune_matcher c) (as_list (lookup hooks ''UserPromptSubmit''))"
  let ?out = "List.map_filter snd ?pr"
  have ok: "value_ok (d - 1 - 1) m'" "fst (prune_matcher c m') = False" if m': "m' \<in> set ?out" for m'
  proof -
    obtain m b where "m \<in> set (as_list (lookup hooks ''UserPromptSubmit''))" "prune_matcher c m = (b, Some m')"
      using m' by (auto simp: List.map_filter_def) (metis option.collapse prod.collapse)
    then show "value_ok (d - 1 - 1) m'" "fst (prune_matcher c m') = False"
      using prune_matcher_spec [OF as_list_ok [OF lookup_ok [OF assms(1)]]] assms(2) by auto
  qed
  consider "\<not> list_ex fst ?pr" "hooks' = hooks" | "list_ex fst ?pr" "?out = []" "hooks' = map_delete ''UserPromptSubmit'' hooks"
    | "list_ex fst ?pr" "hooks' = map_put ''UserPromptSubmit'' (JArr ?out) hooks"
    using assms(3) by (auto simp: pruneUserPromptSubmitHook_def Let_def split: if_splits)
  then show ?thesis
  proof cases
    case 1
    then show ?thesis using assms(1) by (simp add: pruneUserPromptSubmitHook_def Let_def)
  next
    case 2
    then show ?thesis using assms(1) by (simp add: delete_ok pruneUserPromptSubmitHook_def lookup_delete as_list_def)
  next
    case 3
    have "value_ok (d - 1) (JArr ?out)" using ok(1) assms(2) by (auto simp: value_ok_arr)
    then have "value_ok d (JObj hooks')" unfolding 3 by (rule put_ok [OF assms(1) key_valid(3)])
    moreover have "lookup hooks' ''UserPromptSubmit'' = JArr ?out" using assms(1) 3 by (simp add: value_ok_obj lookup_put)
    ultimately show ?thesis
      using ok(2) by (auto simp: pruneUserPromptSubmitHook_def Let_def as_list_def list_ex_iff)
  qed
qed

lemma remove_server_spec:
  assumes "config_ok r" "remove_server r = (b, r')"
  shows "config_ok r'" "map_of (servers_of r') ''a2a'' = None" "lookup r' ''hooks'' = lookup r ''hooks''"
    and "b = (map_of (servers_of r) ''a2a'' \<noteq> None)"
proof -
  have k: "map_keys_ok r" using config_keys(1) [OF assms(1)] .
  show "config_ok r'"
  proof (cases "lookup r ''mcpServers''")
    case (JObj servers)
    then have "value_ok (maxNestingDepth - 1) (JObj (map_delete ''a2a'' servers))"
      using servers_ok [OF assms(1)] by (simp add: servers_of_def as_map_def delete_ok)
    then show ?thesis
      using assms JObj put_ok [OF assms(1) [unfolded config_ok_def] key_valid(1)]
      by (auto simp: remove_server_def Let_def config_ok_def delete_ok split: if_splits)
  qed (use assms in \<open>simp_all add: remove_server_def\<close>)
  show "map_of (servers_of r') ''a2a'' = None" "lookup r' ''hooks'' = lookup r ''hooks''"
    "b = (map_of (servers_of r) ''a2a'' \<noteq> None)"
    using assms(2) k
    by (auto simp: remove_server_def servers_of_def as_map_def lookup_put lookup_delete map_of_delete Let_def
        split: json.splits if_splits)
qed

lemma remove_hook_spec:
  assumes "config_ok r" "remove_hook c r = (b, r')"
  shows "config_ok r'" "\<not> fst (remove_hook c r')" "lookup r' ''mcpServers'' = lookup r ''mcpServers''"
proof -
  have k: "map_keys_ok r" using config_keys(1) [OF assms(1)] .
  have "config_ok r' \<and> \<not> fst (remove_hook c r') \<and> lookup r' ''mcpServers'' = lookup r ''mcpServers''"
  proof (cases "lookup r ''hooks''")
    case (JObj hooks)
    obtain hooks' where p: "pruneUserPromptSubmitHook c hooks = (b, hooks')"
        "r' = (if hooks' = [] then map_delete ''hooks'' r else map_put ''hooks'' (JObj hooks') r)"
      using assms(2) JObj by (auto simp: remove_hook_def split: prod.splits)
    have "value_ok (maxNestingDepth - 1) (JObj hooks)"
      using lookup_ok [OF assms(1) [unfolded config_ok_def], of "''hooks''"] JObj by simp
    then have v: "value_ok (maxNestingDepth - 1) (JObj hooks')" "\<not> fst (pruneUserPromptSubmitHook c hooks')"
      using prune_spec [OF _ _ p(1), of "maxNestingDepth - 1"] by (simp_all add: maxNestingDepth_def)
    have "config_ok r'"
      using put_ok [OF assms(1) [unfolded config_ok_def] key_valid(2) v(1)] assms(1) by (simp add: p(2) config_ok_def delete_ok)
    then show ?thesis
      using v(2) k by (auto simp: p(2) remove_hook_def lookup_put lookup_delete split: prod.splits)
  qed (use assms in \<open>simp_all add: remove_hook_def\<close>)
  then show "config_ok r'" "\<not> fst (remove_hook c r')" "lookup r' ''mcpServers'' = lookup r ''mcpServers''" by blast+
qed

lemma remove_hook_fst: "lookup r1 ''hooks'' = lookup r ''hooks'' \<Longrightarrow> fst (remove_hook c r1) = fst (remove_hook c r)"
  by (simp add: remove_hook_def split: json.split prod.split)

lemma removal_spec:
  assumes "config_ok r" "removal_edit c r = (b, r')"
  shows "config_ok r'" "\<not> fst (removal_edit c r')" "map_of (servers_of r') ''a2a'' = None"
proof -
  obtain a r1 b1 where e: "remove_server r = (a, r1)" "remove_hook c r1 = (b1, r')"
    using assms(2) by (auto simp: removal_edit_def split: prod.splits)
  note s = remove_server_spec [OF assms(1) e(1)]
  note h = remove_hook_spec [OF s(1) e(2)]
  show ok: "config_ok r'" by (rule h(1))
  show gone: "map_of (servers_of r') ''a2a'' = None" using s(2) h(3) by (simp add: servers_of_def)
  obtain a2 r2 where e2: "remove_server r' = (a2, r2)" by fastforce
  note t = remove_server_spec [OF ok e2]
  show "\<not> fst (removal_edit c r')"
    using t(4) gone h(2) remove_hook_fst [OF t(3)] by (simp add: removal_edit_def e2 split: prod.split)
qed

interpretation removal: config_edit "\<lambda>_. True" removal_edit
  using removal_spec by unfold_locales blast+

section \<open>Examples\<close>

definition disk_works :: config_io where
  "disk_works = \<lparr>ci_read = True, ci_bak_read = True, ci_bak_write = True, ci_bak_left = None, ci_stamp = ''1'', ci_mkdir = None,
     ci_temp = True, ci_rand = ''2'', ci_write = True, ci_chmod = True, ci_close = True, ci_rename = True, ci_unlink = True,
     ci_tmp_left = Dir\<rparr>"

definition linux_host :: host where
  "linux_host = \<lparr>ho_goos = ''linux'', ho_home = Some ''/h'', ho_appdata = []\<rparr>"

definition commented_config :: string where
  "commented_config = ''{// mine'' @ [newline, dquote] @ ''a'' @ [dquote] @ '':1,}''"

definition user_files :: fsys where
  "user_files = [''/h/c'' \<mapsto> Plain commented_config 420]"

definition spec0 :: spec where
  "spec0 = \<lparr>sp_key = ''a2a'', sp_binary = ''b'', sp_env = [], sp_hook = []\<rparr>"

lemma commented_config_read: "readJSONObject disk_works ''/h/c'' user_files = Inr [(''a'', JNum ''1'')]"
  by code_simp

definition installed :: "cfg_result \<times> fsys" where
  "installed = writeJSONConfig linux_host disk_works ''x'' ''/h/c'' False (setMCPServerEntry spec0) user_files"

lemma installed_updated: "re_updated (fst installed)"
  by code_simp

definition rename_fails :: config_io where
  "rename_fails = disk_works\<lparr>ci_rename := False\<rparr>"

definition uninstalled :: "cfg_error option \<times> fsys" where
  "uninstalled = removeJSONMCPEntry linux_host disk_works ''/h/c'' (snd installed)"

lemma spec0_ok: "spec_ok spec0" "sp_key spec0 = ''a2a''"
  using valid_utf8_ascii [of "''b''"] by (simp_all add: spec_ok_def spec0_def key_valid byte_of_def)

lemma installed_eq: "writeJSONConfig linux_host disk_works ''x'' ''/h/c'' False (setMCPServerEntry spec0) user_files = (fst installed, snd installed)"
  by (simp add: installed_def)

lemma disk_reads: "ci_read disk_works"
  by (simp add: disk_works_def)

section \<open>Properties\<close>

text \<open>
  C16. A run of the installer never damages a configuration.  Whatever the disk does, an update
  that does not succeed, a dry run and a run with nothing to do leave the file as it was; after a
  successful one the file holds the complete new object under its old permissions and the old
  text is in the copy.  No other file changes, save the copy, the temporary file and
  directories that were missing.
\<close>

theorem config_never_damaged:
  assumes "writeJSONConfig h io name path dry edit fs = (res, fs')"
  shows "if re_updated res \<and> \<not> dry
    then (\<exists>r r'. readJSONObject io path fs = Inr r \<and> edit r = (True, r') \<and> config_written io path r' fs fs')
    else config_kept io path fs fs'"
  using assms by (cases rule: writeJSONConfig_cases) auto

theorem config_never_damaged_witness:
  "(\<exists>r'. config_written disk_works ''/h/c'' r' user_files (snd installed)) \<and>
   config_kept rename_fails ''/h/c'' user_files
     (snd (writeJSONConfig linux_host rename_fails ''x'' ''/h/c'' False (setMCPServerEntry spec0) user_files))"
proof -
  let ?f = "writeJSONConfig linux_host rename_fails ''x'' ''/h/c'' False (setMCPServerEntry spec0) user_files"
  have "\<not> re_updated (fst ?f)" by code_simp
  moreover have "?f = (fst ?f, snd ?f)" by simp
  ultimately have "config_kept rename_fails ''/h/c'' user_files (snd ?f)"
    using config_never_damaged [of linux_host rename_fails "''x''" "''/h/c''" False "setMCPServerEntry spec0" user_files "fst ?f" "snd ?f"]
    by simp
  moreover have "\<exists>r'. config_written disk_works ''/h/c'' r' user_files (snd installed)"
    using config_never_damaged [OF installed_eq] installed_updated by auto
  ultimately show ?thesis by blast
qed

text \<open>
  Installing twice changes nothing: after an update that succeeded, a second run with the
  same entry finds nothing to do and leaves every file alone, for the server entry and for the
  prompt hook.
\<close>

theorem install_idempotent:
  assumes "edit = setMCPServerEntry sp \<and> spec_ok sp \<or> edit = hook_edit sp \<and> hook_ok sp"
    and "writeJSONConfig h io name path False edit fs = (res, fs')" "re_updated res" "ci_read io'"
  shows "\<exists>res'. writeJSONConfig h io' name path dry edit fs' = (res', fs') \<and> re_skipped res' \<and> re_error res' = None"
  using assms(1)
proof (elim disjE conjE)
  assume "edit = setMCPServerEntry sp" "spec_ok sp"
  then show ?thesis using server.second_run_skips [OF _ _ assms(3) _ assms(4)] assms(2) by blast
next
  assume "edit = hook_edit sp" "hook_ok sp"
  then show ?thesis using hook.second_run_skips [OF _ _ assms(3) _ assms(4)] assms(2) by blast
qed

theorem install_idempotent_witness:
  "\<exists>res'. writeJSONConfig linux_host disk_works ''x'' ''/h/c'' False (setMCPServerEntry spec0) (snd installed) = (res', snd installed) \<and>
     re_skipped res'"
  using install_idempotent [OF _ installed_eq installed_updated disk_reads, of spec0 False] spec0_ok by auto

text \<open>
  C33. Installing keeps the user's settings: after an update of the server entry, the
  configuration that is read back has the entry and otherwise the settings it had, at the top
  level and among the servers.
\<close>

theorem install_keeps_settings:
  assumes "spec_ok sp" "readJSONObject io path fs = Inr r"
    and "writeJSONConfig h io name path False (setMCPServerEntry sp) fs = (res, fs')" "re_updated res" "ci_read io'"
  shows "\<exists>r'. readJSONObject io' path fs' = Inr r' \<and> lookup (servers_of r') (sp_key sp) = mcpEntryJSON sp \<and>
    (\<forall>k. k \<noteq> ''mcpServers'' \<longrightarrow> map_of r' k = map_of r k) \<and>
    (\<forall>k. k \<noteq> sp_key sp \<longrightarrow> map_of (servers_of r') k = map_of (servers_of r) k)"
  using assms(3)
proof (cases rule: writeJSONConfig_cases)
  case (written r0 r')
  have r: "r0 = r" "config_ok r" using written(1) assms(2) readJSONObject_ok by simp_all
  have r': "r' = map_put ''mcpServers'' (JObj (map_put (sp_key sp) (mcpEntryJSON sp) (servers_of r))) r"
    using written(2) r(1) by (auto simp: set_entry_eq split: if_splits)
  have "servers_of r' = map_put (sp_key sp) (mcpEntryJSON sp) (servers_of r)"
    using config_keys(1) [OF r(2)] by (simp add: r' servers_of_def lookup_put as_map_def)
  then show ?thesis
    using server.written_read [OF assms(1) written(1,2,7) assms(5)] config_keys [OF r(2)]
    by (intro exI [of _ r']) (simp add: lookup_put map_put_lookup r')
qed (use assms(4) in simp)

theorem install_keeps_settings_witness:
  "\<exists>r'. readJSONObject disk_works ''/h/c'' (snd installed) = Inr r' \<and> map_of r' ''a'' = Some (JNum ''1'') \<and>
     lookup (servers_of r') ''a2a'' = mcpEntryJSON spec0"
  using install_keeps_settings [OF spec0_ok(1) commented_config_read installed_eq installed_updated disk_reads] spec0_ok(2) by auto

lemma delete_put: "map_of m k = None \<Longrightarrow> map_delete k (map_put k v m) = m"
proof -
  assume "map_of m k = None"
  then have "map_delete k m = m" by (auto simp: map_delete_def map_of_eq_None_iff image_iff filter_id_conv)
  moreover have "map_delete k (map_put k v m) = map_delete k m" by (induction m) (auto simp: map_delete_def)
  ultimately show ?thesis by simp
qed

lemma prune_unchanged: "\<not> fst (remove_hook c r) \<Longrightarrow> remove_hook c r = (False, r') \<Longrightarrow>
    hooks_of r' = hooks_of r \<and> (\<forall>k. k \<noteq> ''hooks'' \<longrightarrow> map_of r' k = map_of r k)" if "map_keys_ok r"
  using that
  by (auto simp: remove_hook_def hooks_of_def as_map_def pruneUserPromptSubmitHook_def Let_def lookup_put lookup_delete
      map_put_lookup map_of_delete split: json.splits if_splits prod.splits)

lemma remove_server_undoes:
  assumes "config_ok r" "map_of (servers_of r) ''a2a'' = None"
    and r': "r' = map_put ''mcpServers'' (JObj (map_put ''a2a'' v (servers_of r))) r" and "config_ok r'"
  obtains r1 where "remove_server r' = (True, r1)" "servers_of r1 = servers_of r" "\<forall>k. k \<noteq> ''mcpServers'' \<longrightarrow> map_of r1 k = map_of r k"
proof -
  note k = config_keys [OF assms(1)]
  have l: "lookup r' ''mcpServers'' = JObj (map_put ''a2a'' v (servers_of r))" using k by (simp add: r' lookup_put)
  define r1 where "r1 = (if servers_of r = [] then map_delete ''mcpServers'' r' else map_put ''mcpServers'' (JObj (servers_of r)) r')"
  have "remove_server r' = (True, r1)"
    using k(2) by (simp add: remove_server_def l delete_put [OF assms(2)] map_put_lookup r1_def)
  moreover have "servers_of r1 = servers_of r" "\<forall>k. k \<noteq> ''mcpServers'' \<longrightarrow> map_of r1 k = map_of r k"
    using config_keys(1) [OF assms(4)] k(1)
    by (auto simp: r1_def servers_of_def [of "map_delete _ _"] servers_of_def [of "map_put _ _ _"] lookup_put lookup_delete as_map_def
        map_put_lookup map_of_delete r')
  ultimately show thesis using that by blast
qed

lemma removal_undoes:
  assumes "config_ok r" "\<not> fst (removal_edit c r)"
    and r': "r' = map_put ''mcpServers'' (JObj (map_put ''a2a'' v (servers_of r))) r" and "config_ok r'"
  shows "\<exists>r''. removal_edit c r' = (True, r'') \<and> servers_of r'' = servers_of r \<and> hooks_of r'' = hooks_of r \<and>
    (\<forall>k. k \<noteq> ''mcpServers'' \<longrightarrow> k \<noteq> ''hooks'' \<longrightarrow> map_of r'' k = map_of r k)"
proof -
  obtain a ra where ra: "remove_server r = (a, ra)" by fastforce
  note s = remove_server_spec [OF assms(1) ra]
  have none: "map_of (servers_of r) ''a2a'' = None" and nh: "\<not> fst (remove_hook c r)"
    using assms(2) s(4) remove_hook_fst [OF s(3), of c] by (auto simp: removal_edit_def ra split: prod.splits)
  obtain r1 where r1: "remove_server r' = (True, r1)" "servers_of r1 = servers_of r" "\<forall>k. k \<noteq> ''mcpServers'' \<longrightarrow> map_of r1 k = map_of r k"
    using remove_server_undoes [OF assms(1) none r' assms(4)] by blast
  have h: "lookup r1 ''hooks'' = lookup r ''hooks''" using r1(3) by (simp add: lookup_def)
  have ok1: "config_ok r1" by (rule remove_server_spec(1) [OF assms(4) r1(1)])
  obtain r'' where r'': "remove_hook c r1 = (False, r'')" using nh remove_hook_fst [OF h, of c] by (cases "remove_hook c r1") auto
  have "\<not> fst (remove_hook c r1)" using r'' by simp
  then have "hooks_of r'' = hooks_of r1" "\<forall>k. k \<noteq> ''hooks'' \<longrightarrow> map_of r'' k = map_of r1 k"
    using prune_unchanged [OF config_keys(1) [OF ok1] _ r''] by blast+
  moreover have "servers_of r'' = servers_of r1" using remove_hook_spec(3) [OF ok1 r''] by (simp add: servers_of_def)
  moreover have "removal_edit c r' = (True, r'')" using r1(1) r'' by (simp add: removal_edit_def)
  ultimately show ?thesis using r1(2,3) h by (simp add: hooks_of_def)
qed



end
