(* ===== verification/Ide_Writers.thy ===== *)
theory Ide_Writers
  imports Ide_Config
begin

text \<open>
  The seven editors that package ideconfig knows: where each keeps its configuration, how the
  entry gets into it and out of it.  Five of them share the JSON transaction of \<open>Ide_Config\<close>;
  Codex keeps TOML, whose codec is a parameter, and Continue gets a YAML file of its own.
\<close>

section \<open>Places\<close>

datatype writer = ClaudeCode | Codex | Cursor | Cline | Continue | Gemini | Antigravity

definition AllWriters :: "writer list" where
  "AllWriters = [ClaudeCode, Codex, Cursor, Cline, Continue, Gemini, Antigravity]"

fun Name :: "writer \<Rightarrow> string" where
  "Name ClaudeCode = ''Claude Code''"
| "Name Codex = ''Codex CLI''"
| "Name Cursor = ''Cursor''"
| "Name Cline = ''Cline (VS Code)''"
| "Name Continue = ''Continue''"
| "Name Gemini = ''Gemini CLI''"
| "Name Antigravity = ''Antigravity CLI''"

definition in_home :: "host \<Rightarrow> string list \<Rightarrow> string" where
  "in_home h parts = (case ho_home h of None \<Rightarrow> [] | Some d \<Rightarrow> path_join h (d # parts))"

definition claudeMCPConfigPath :: "host \<Rightarrow> string" where
  "claudeMCPConfigPath h = in_home h [''.claude.json'']"

definition claudeSettingsPath :: "host \<Rightarrow> string" where
  "claudeSettingsPath h = in_home h [''.claude'', ''settings.json'']"

definition vsCodeGlobalStorage :: "host \<Rightarrow> string" where
  "vsCodeGlobalStorage h =
     (if ho_goos h = ''darwin'' then in_home h [''Library'', ''Application Support'', ''Code'', ''User'', ''globalStorage'']
      else if ho_goos h = ''linux'' then in_home h [''.config'', ''Code'', ''User'', ''globalStorage'']
      else if ho_goos h = ''windows'' \<and> ho_appdata h \<noteq> [] then path_join h [ho_appdata h, ''Code'', ''User'', ''globalStorage'']
      else [])"

definition vsCodeInstalled :: "host \<Rightarrow> fsys \<Rightarrow> bool" where
  "vsCodeInstalled h fs = (vsCodeGlobalStorage h \<noteq> [] \<and> fs (vsCodeGlobalStorage h) = Some Dir)"

text \<open>The file that each writes; for Claude Code the one with the servers.\<close>

definition codex_writeTarget :: "host \<Rightarrow> string" where
  "codex_writeTarget h = in_home h [''.codex'', ''config.toml'']"

definition cursor_writeTarget :: "host \<Rightarrow> string" where
  "cursor_writeTarget h = in_home h [''.cursor'', ''mcp.json'']"

definition continue_writeTarget :: "host \<Rightarrow> string" where
  "continue_writeTarget h = in_home h [''.continue'', ''mcpServers'', ''a2a.yaml'']"

definition antigravity_writeTarget :: "host \<Rightarrow> string" where
  "antigravity_writeTarget h = in_home h [''.gemini'', ''config'', ''mcp_config.json'']"

text \<open>Whether the editor is there: its file, or a directory that it makes on its first start.\<close>

definition claude_Detect :: "host \<Rightarrow> fsys \<Rightarrow> string" where
  "claude_Detect h fs =
     (if fileExists (claudeMCPConfigPath h) fs then claudeMCPConfigPath h
      else if fileExists (claudeSettingsPath h) fs then claudeSettingsPath h
      else if ho_home h \<noteq> None \<and> dirExists (in_home h [''.claude'']) fs then in_home h [''.claude'']
      else claudeMCPConfigPath h)"

definition codex_Detect :: "host \<Rightarrow> fsys \<Rightarrow> string" where
  "codex_Detect h fs =
     (if fileExists (codex_writeTarget h) fs then codex_writeTarget h
      else if ho_home h \<noteq> None \<and> dirExists (in_home h [''.codex'']) fs then in_home h [''.codex'']
      else [])"

definition cursor_Detect :: "host \<Rightarrow> fsys \<Rightarrow> string" where
  "cursor_Detect h fs =
     (if fileExists (cursor_writeTarget h) fs then cursor_writeTarget h
      else if ho_home h \<noteq> None \<and> dirExists (in_home h [''.cursor'']) fs then in_home h [''.cursor'']
      else [])"

definition cline_Detect :: "host \<Rightarrow> string" where
  "cline_Detect h =
     (if vsCodeGlobalStorage h = [] then []
      else path_join h [vsCodeGlobalStorage h, ''saoudrizwan.claude-dev'', ''settings'', ''cline_mcp_settings.json''])"

definition continue_Detect :: "host \<Rightarrow> fsys \<Rightarrow> string" where
  "continue_Detect h fs =
     (if ho_home h \<noteq> None \<and> fs (in_home h [''.continue'']) = Some Dir then in_home h [''.continue''] else [])"

definition gemini_Detect :: "host \<Rightarrow> string" where
  "gemini_Detect h = in_home h [''.gemini'', ''settings.json'']"

definition antigravity_Detect :: "host \<Rightarrow> fsys \<Rightarrow> string" where
  "antigravity_Detect h fs =
     (if fileExists (antigravity_writeTarget h) fs then antigravity_writeTarget h
      else if ho_home h \<noteq> None \<and> fs (in_home h [''.gemini'', ''antigravity-cli'']) = Some Dir
        then in_home h [''.gemini'', ''antigravity-cli'']
      else [])"

fun Detect :: "host \<Rightarrow> writer \<Rightarrow> fsys \<Rightarrow> string" where
  "Detect h ClaudeCode fs = claude_Detect h fs"
| "Detect h Codex fs = codex_Detect h fs"
| "Detect h Cursor fs = cursor_Detect h fs"
| "Detect h Cline fs = cline_Detect h"
| "Detect h Continue fs = continue_Detect h fs"
| "Detect h Gemini fs = gemini_Detect h"
| "Detect h Antigravity fs = antigravity_Detect h fs"

definition WriterFound :: "host \<Rightarrow> writer \<Rightarrow> fsys \<Rightarrow> bool" where
  "WriterFound h w fs = (Detect h w fs \<noteq> [] \<and> fs (Detect h w fs) \<noteq> None)"

section \<open>Codex\<close>

text \<open>
  The TOML codec.  Tables and arrays are the maps and lists of the decoded value; integers,
  floats and dates are carried as literals.
\<close>

record toml_codec =
  tm_decode :: "string \<Rightarrow> root option"
  tm_encode :: "json \<Rightarrow> string option"

definition codexEntry :: "spec \<Rightarrow> json" where
  "codexEntry sp =
     (let out = go_map [(''command'', JStr (sp_binary sp)), (''args'', JArr [JStr ''bridge''])]
      in JObj (if sp_env sp \<noteq> [] then map_put ''env'' (JObj (go_map (map (\<lambda>e. (fst e, JStr (snd e))) (sp_env sp)))) out else out))"

definition equalTOMLEntry :: "toml_codec \<Rightarrow> json \<Rightarrow> json \<Rightarrow> bool" where
  "equalTOMLEntry tm a b =
     (if a = JNull \<or> b = JNull then a = JNull \<and> b = JNull
      else (case tm_encode tm a of
              None \<Rightarrow> False
            | Some x \<Rightarrow> (case tm_encode tm b of None \<Rightarrow> False | Some y \<Rightarrow> x = y)))"

definition read_toml :: "toml_codec \<Rightarrow> bool \<Rightarrow> string \<Rightarrow> fsys \<Rightarrow> cfg_error + root" where
  "read_toml tm ok path fs =
     (case os_read ok path fs of
        None \<Rightarrow> Inl Read_failed
      | Some b \<Rightarrow> if b = [] then Inr [] else (case tm_decode tm b of None \<Rightarrow> Inl Parse_failed | Some r \<Rightarrow> Inr r))"

definition write_toml :: "host \<Rightarrow> toml_codec \<Rightarrow> config_io \<Rightarrow> string \<Rightarrow> root \<Rightarrow> fsys \<Rightarrow> cfg_error option \<times> fsys" where
  "write_toml h tm io path r fs =
     (case tm_encode tm (JObj r) of
        None \<Rightarrow> (Some Encode_failed, fs)
      | Some b \<Rightarrow> writeFileAtomic h io path b newConfigMode fs)"

definition codex_servers :: "root \<Rightarrow> root" where
  "codex_servers r = as_map (lookup r ''mcp_servers'')"

definition Write_codex :: "host \<Rightarrow> toml_codec \<Rightarrow> config_io \<Rightarrow> spec \<Rightarrow> bool \<Rightarrow> fsys \<Rightarrow> cfg_result \<times> fsys" where
  "Write_codex h tm io sp dryRun fs =
     (let res = new_result (Name Codex) dryRun; path = codex_writeTarget h in
      if path = [] then (res\<lparr>re_error := Some No_path\<rparr>, fs)
      else
        (let found = fileExists path fs; res = res\<lparr>re_path := path, re_found := found\<rparr> in
         case (if found then read_toml tm (ci_read io) path fs else Inr []) of
           Inl e \<Rightarrow> (res\<lparr>re_error := Some e\<rparr>, fs)
         | Inr r \<Rightarrow>
             (let servers = codex_servers r; desired = codexEntry sp in
              if equalTOMLEntry tm (lookup servers (sp_key sp)) desired then (res\<lparr>re_skipped := True\<rparr>, fs)
              else
                (let r = map_put ''mcp_servers'' (JObj (map_put (sp_key sp) desired servers)) r in
                 if dryRun then (res\<lparr>re_updated := True\<rparr>, fs)
                 else
                   (case (if found then backupFile io path fs else (Inr [], fs)) of
                      (Inl e, fs) \<Rightarrow> (res\<lparr>re_error := Some e\<rparr>, fs)
                    | (Inr bak, fs) \<Rightarrow>
                        (case write_toml h tm io path r fs of
                           (Some e, fs) \<Rightarrow> (res\<lparr>re_backup := bak, re_error := Some e\<rparr>, fs)
                         | (None, fs) \<Rightarrow> (res\<lparr>re_backup := bak, re_updated := True\<rparr>, fs)))))))"

definition removeCodexEntry :: "host \<Rightarrow> toml_codec \<Rightarrow> config_io \<Rightarrow> string \<Rightarrow> fsys \<Rightarrow> cfg_error option \<times> fsys" where
  "removeCodexEntry h tm io path fs =
     (if \<not> fileExists path fs then (None, fs)
      else
        (case read_toml tm (ci_read io) path fs of
           Inl e \<Rightarrow> (Some e, fs)
         | Inr r \<Rightarrow>
             (case lookup r ''mcp_servers'' of
                JObj servers \<Rightarrow>
                  if map_of servers ''a2a'' = None then (None, fs)
                  else
                    (let servers = map_delete ''a2a'' servers;
                         r = (if servers = [] then map_delete ''mcp_servers'' r else map_put ''mcp_servers'' (JObj servers) r)
                     in case backupFile io path fs of
                          (Inl e, fs) \<Rightarrow> (Some e, fs)
                        | (Inr _, fs) \<Rightarrow> write_toml h tm io path r fs)
              | _ \<Rightarrow> (None, fs))))"

section \<open>Continue\<close>

definition yamlScalar :: "string \<Rightarrow> string" where
  "yamlScalar s =
     (if s = [] then [dquote, dquote]
      else if list_ex (\<lambda>c. c \<in> {CHR '':'', CHR ''#'', dquote, CHR 0x27, newline}) s
        then replace_char (dquote # s @ [dquote]) newline [bslash, CHR ''n'']
      else s)"

definition sortedKeys :: "(string \<times> string) list \<Rightarrow> string list" where
  "sortedKeys m = map fst (go_map m)"

definition continueYAML :: "spec \<Rightarrow> string" where
  "continueYAML sp =
     ''name: a2a'' @ [newline] @ ''version: 0.0.1'' @ [newline] @ ''schema: v1'' @ [newline] @ ''mcpServers:'' @ [newline] @
     ''  - name: a2a'' @ [newline] @ ''    command: '' @ yamlScalar (sp_binary sp) @ [newline] @
     ''    args:'' @ [newline] @ ''      - bridge'' @ [newline] @
     (if sp_env sp \<noteq> []
      then ''    env:'' @ [newline] @
        concat (map (\<lambda>k. ''      '' @ k @ '': '' @ yamlScalar (case map_of (go_map (sp_env sp)) k of Some v \<Rightarrow> v | None \<Rightarrow> []) @ [newline])
          (sortedKeys (sp_env sp)))
      else [])"

definition Write_continue :: "host \<Rightarrow> config_io \<Rightarrow> spec \<Rightarrow> bool \<Rightarrow> fsys \<Rightarrow> cfg_result \<times> fsys" where
  "Write_continue h io sp dryRun fs =
     (let res = new_result (Name Continue) dryRun; path = continue_writeTarget h in
      if path = [] then (res\<lparr>re_error := Some No_path\<rparr>, fs)
      else
        (let found = fileExists path fs; res = res\<lparr>re_path := path, re_found := found\<rparr>; desired = continueYAML sp in
         if found \<and> (case os_read (ci_read io) path fs of None \<Rightarrow> False | Some b \<Rightarrow> trim_space b = trim_space desired)
         then (res\<lparr>re_skipped := True\<rparr>, fs)
         else if dryRun then (res\<lparr>re_updated := True\<rparr>, fs)
         else
           (case (if found then backupFile io path fs else (Inr [], fs)) of
              (Inl e, fs) \<Rightarrow> (res\<lparr>re_error := Some e\<rparr>, fs)
            | (Inr bak, fs) \<Rightarrow>
                (case writeFileAtomic h io path desired newConfigMode fs of
                   (Some e, fs) \<Rightarrow> (res\<lparr>re_backup := bak, re_error := Some e\<rparr>, fs)
                 | (None, fs) \<Rightarrow> (res\<lparr>re_backup := bak, re_updated := True\<rparr>, fs)))))"

definition removeContinueFile :: "host \<Rightarrow> config_io \<Rightarrow> fsys \<Rightarrow> cfg_error option \<times> fsys" where
  "removeContinueFile h io fs =
     (let target = continue_writeTarget h in
      if \<not> fileExists target fs then (None, fs)
      else
        (case backupFile io target fs of
           (Inl e, fs) \<Rightarrow> (Some e, fs)
         | (Inr _, fs) \<Rightarrow> if ci_unlink io then (None, fs(target := None)) else (Some Write_failed, fs)))"

section \<open>All of them\<close>

text \<open>\<open>ios\<close> gives the outcomes for the file that is written first and for the second one.\<close>

definition Write_claude :: "host \<Rightarrow> (nat \<Rightarrow> config_io) \<Rightarrow> spec \<Rightarrow> bool \<Rightarrow> fsys \<Rightarrow> cfg_result \<times> fsys" where
  "Write_claude h ios sp dryRun fs =
     (case writeJSONConfig h (ios 0) (Name ClaudeCode) (claudeMCPConfigPath h) dryRun (setMCPServerEntry sp) fs of
        (res, fs) \<Rightarrow>
          if re_error res \<noteq> None \<or> sp_hook sp = [] then (res, fs)
          else
            (case writeJSONConfig h (ios 1) (Name ClaudeCode) (claudeSettingsPath h) dryRun (hook_edit sp) fs of
               (hookRes, fs) \<Rightarrow>
                 if re_error hookRes \<noteq> None then (res\<lparr>re_error := re_error hookRes\<rparr>, fs)
                 else if re_updated hookRes then (res\<lparr>re_updated := True, re_skipped := False\<rparr>, fs)
                 else (res, fs)))"

definition Write_cline :: "host \<Rightarrow> config_io \<Rightarrow> spec \<Rightarrow> bool \<Rightarrow> fsys \<Rightarrow> cfg_result \<times> fsys" where
  "Write_cline h io sp dryRun fs =
     (let path = cline_Detect h in
      if path = [] then ((new_result (Name Cline) dryRun)\<lparr>re_error := Some Not_installed\<rparr>, fs)
      else if \<not> fileExists path fs \<and> \<not> vsCodeInstalled h fs
        then ((new_result (Name Cline) dryRun)\<lparr>re_path := path, re_error := Some Not_installed\<rparr>, fs)
      else writeJSONConfig h io (Name Cline) path dryRun (setMCPServerEntry sp) fs)"

definition Write_cursor :: "host \<Rightarrow> config_io \<Rightarrow> spec \<Rightarrow> bool \<Rightarrow> fsys \<Rightarrow> cfg_result \<times> fsys" where
  "Write_cursor h io sp dryRun fs = writeJSONConfig h io (Name Cursor) (cursor_writeTarget h) dryRun (setMCPServerEntry sp) fs"

definition Write_gemini :: "host \<Rightarrow> config_io \<Rightarrow> spec \<Rightarrow> bool \<Rightarrow> fsys \<Rightarrow> cfg_result \<times> fsys" where
  "Write_gemini h io sp dryRun fs = writeJSONConfig h io (Name Gemini) (gemini_Detect h) dryRun (setMCPServerEntry sp) fs"

definition Write_antigravity :: "host \<Rightarrow> config_io \<Rightarrow> spec \<Rightarrow> bool \<Rightarrow> fsys \<Rightarrow> cfg_result \<times> fsys" where
  "Write_antigravity h io sp dryRun fs =
     writeJSONConfig h io (Name Antigravity) (antigravity_writeTarget h) dryRun (setMCPServerEntry sp) fs"

fun Write :: "host \<Rightarrow> toml_codec \<Rightarrow> (nat \<Rightarrow> config_io) \<Rightarrow> writer \<Rightarrow> spec \<Rightarrow> bool \<Rightarrow> fsys \<Rightarrow> cfg_result \<times> fsys" where
  "Write h tm ios ClaudeCode sp dryRun fs = Write_claude h ios sp dryRun fs"
| "Write h tm ios Codex sp dryRun fs = Write_codex h tm (ios 0) sp dryRun fs"
| "Write h tm ios Cursor sp dryRun fs = Write_cursor h (ios 0) sp dryRun fs"
| "Write h tm ios Cline sp dryRun fs = Write_cline h (ios 0) sp dryRun fs"
| "Write h tm ios Continue sp dryRun fs = Write_continue h (ios 0) sp dryRun fs"
| "Write h tm ios Gemini sp dryRun fs = Write_gemini h (ios 0) sp dryRun fs"
| "Write h tm ios Antigravity sp dryRun fs = Write_antigravity h (ios 0) sp dryRun fs"

definition removeClaudeEntries :: "host \<Rightarrow> (nat \<Rightarrow> config_io) \<Rightarrow> fsys \<Rightarrow> cfg_error list \<times> fsys" where
  "removeClaudeEntries h ios fs =
     (case (if claudeMCPConfigPath h \<noteq> [] then removeJSONMCPEntry h (ios 0) (claudeMCPConfigPath h) fs else (None, fs)) of
        (e1, fs) \<Rightarrow>
          (case (if claudeSettingsPath h \<noteq> [] then removeJSONMCPEntry h (ios 1) (claudeSettingsPath h) fs else (None, fs)) of
             (e2, fs) \<Rightarrow> (List.map_filter id [e1, e2], fs)))"

definition only :: "cfg_error option \<times> fsys \<Rightarrow> cfg_error list \<times> fsys" where
  "only x = (case x of (e, fs) \<Rightarrow> (List.map_filter id [e], fs))"

fun RemoveMCPEntry :: "host \<Rightarrow> toml_codec \<Rightarrow> (nat \<Rightarrow> config_io) \<Rightarrow> writer \<Rightarrow> string \<Rightarrow> fsys \<Rightarrow> cfg_error list \<times> fsys" where
  "RemoveMCPEntry h tm ios w [] fs = ([], fs)"
| "RemoveMCPEntry h tm ios Codex path fs = only (removeCodexEntry h tm (ios 0) (codex_writeTarget h) fs)"
| "RemoveMCPEntry h tm ios Cursor path fs = only (removeJSONMCPEntry h (ios 0) (cursor_writeTarget h) fs)"
| "RemoveMCPEntry h tm ios Continue path fs = only (removeContinueFile h (ios 0) fs)"
| "RemoveMCPEntry h tm ios Antigravity path fs = only (removeJSONMCPEntry h (ios 0) (antigravity_writeTarget h) fs)"
| "RemoveMCPEntry h tm ios ClaudeCode path fs = removeClaudeEntries h ios fs"
| "RemoveMCPEntry h tm ios w path fs = only (removeJSONMCPEntry h (ios 0) path fs)"

text \<open>The settings of VS Code itself.\<close>

definition VSCodeUserSettingsPath :: "host \<Rightarrow> string" where
  "VSCodeUserSettingsPath h =
     (if ho_goos h = ''darwin'' then in_home h [''Library'', ''Application Support'', ''Code'', ''User'', ''settings.json'']
      else if ho_goos h = ''linux'' then in_home h [''.config'', ''Code'', ''User'', ''settings.json'']
      else if ho_goos h = ''windows'' \<and> ho_appdata h \<noteq> [] then path_join h [ho_appdata h, ''Code'', ''User'', ''settings.json'']
      else [])"

end
