(* ===== verification/Installer.thy ===== *)
theory Installer
  imports Ide_Writers Go_Net
begin

text \<open>
  The commands that set the program up and look after it (install.go, uninstall.go, doctor.go,
  assets.go): the choice of the editors, the entry for each, the skill and the hook of Claude
  Code, their removal, and the health check.  What the commands print is left out except for
  the rows of the health check.
\<close>

section \<open>Choosing the editors\<close>

definition parseIDEFilter :: "string \<Rightarrow> string list option" where
  "parseIDEFilter flag =
     (let s = trim_space (to_lower flag) in
      if s \<in> {[], ''auto'', ''all''} then None
      else Some (filter (\<lambda>p. p \<noteq> []) (map trim_space (split_char (CHR '','') s))))"

definition writerSlug :: "writer \<Rightarrow> string" where
  "writerSlug w =
     (let s = to_lower (Name w);
          s = (case str_index s ''('' of Some i \<Rightarrow> if 0 < i then trim_space (take i s) else s | None \<Rightarrow> s);
          s = trim_suffix s '' cli''
      in replace_char s (CHR '' '') ''-'')"

definition filterWriters :: "writer list \<Rightarrow> string list option \<Rightarrow> writer list" where
  "filterWriters ws wanted =
     (case wanted of
        None \<Rightarrow> sort_key Name ws
      | Some slugs \<Rightarrow> filter (\<lambda>w. writerSlug w \<in> set slugs) ws)"

definition shouldInstallExtras :: "string \<Rightarrow> bool" where
  "shouldInstallExtras flag =
     (let s = to_lower (trim_space flag) in
      s \<in> {[], ''auto'', ''all''} \<or> list_ex (\<lambda>p. trim_space p = ''claude-code'') (split_char (CHR '','') s))"

section \<open>The skill and the hook\<close>

text \<open>
  The tree under a path, and moving it.  The embedded files are a parameter: the entries in the
  order of the walk, a directory without contents.
\<close>

definition under :: "char \<Rightarrow> string \<Rightarrow> string \<Rightarrow> bool" where
  "under c d p = (p = d \<or> prefix (d @ [c]) p)"

definition rename_tree :: "char \<Rightarrow> string \<Rightarrow> string \<Rightarrow> fsys \<Rightarrow> fsys" where
  "rename_tree c src dst fs =
     (\<lambda>p. if under c src p then None
          else if under c dst p then fs (src @ drop (length dst) p)
          else fs p)"

definition remove_tree :: "char \<Rightarrow> string \<Rightarrow> fsys \<Rightarrow> fsys" where
  "remove_tree c d fs = (\<lambda>p. if under c d p then None else fs p)"

type_synonym embedded = "(string list \<times> string option) list"

record extras_io =
  xi_stamp :: string
  xi_rename :: bool
  xi_step :: "nat \<Rightarrow> bool"
  xi_mkdir :: "nat option"
  xi_hook_rename :: bool
  xi_hook_write :: bool
  xi_left :: "node option"

fun CopyTree :: "host \<Rightarrow> extras_io \<Rightarrow> nat \<Rightarrow> embedded \<Rightarrow> string \<Rightarrow> fsys \<Rightarrow> bool \<times> fsys" where
  "CopyTree h io i [] dst fs = (True, fs)"
| "CopyTree h io i ((p, content) # es) dst fs =
     (let out = path_join h (dst # p);
          dir = (case content of None \<Rightarrow> out | Some _ \<Rightarrow> dir_of (sep h) out)
      in case os_mkdir_all (if xi_step io (2 * i) then None else Some 0) (ancestors (sep h) dir) fs of
           (False, fs) \<Rightarrow> (False, fs)
         | (True, fs) \<Rightarrow>
             (case content of
                None \<Rightarrow> CopyTree h io (Suc i) es dst fs
              | Some data \<Rightarrow>
                  (case os_write (xi_step io (2 * i + 1)) (xi_left io) out data (if has_suffix out ''.sh'' then 493 else 420) fs of
                     (False, fs) \<Rightarrow> (False, fs)
                   | (True, fs) \<Rightarrow> CopyTree h io (Suc i) es dst fs)))"

definition backupTreeOnce :: "host \<Rightarrow> extras_io \<Rightarrow> string \<Rightarrow> fsys \<Rightarrow> bool \<times> fsys" where
  "backupTreeOnce h io target fs =
     (if fs target = None then (True, fs)
      else if xi_rename io then (True, rename_tree (sep h) target (target @ ''.bak.'' @ xi_stamp io) fs)
      else (False, fs))"

definition installSkill :: "host \<Rightarrow> embedded \<Rightarrow> extras_io \<Rightarrow> bool \<Rightarrow> fsys \<Rightarrow> bool \<times> fsys" where
  "installSkill h skill io apply_it fs =
     (case ho_home h of
        None \<Rightarrow> (False, fs)
      | Some _ \<Rightarrow>
          (let target = in_home h [''.claude'', ''skills'', ''a2a-bridge''] in
           if \<not> apply_it then (True, fs)
           else
             (case backupTreeOnce h io target fs of
                (False, fs) \<Rightarrow> (False, fs)
              | (True, fs) \<Rightarrow> CopyTree h io 0 skill target fs)))"

definition hook_path :: "host \<Rightarrow> string" where
  "hook_path h = in_home h [''.claude'', ''hooks'', ''a2a-inbox-hook.sh'']"

definition installHook :: "host \<Rightarrow> string \<Rightarrow> extras_io \<Rightarrow> bool \<Rightarrow> fsys \<Rightarrow> bool \<times> fsys" where
  "installHook h script io apply_it fs =
     (case ho_home h of
        None \<Rightarrow> (False, fs)
      | Some _ \<Rightarrow>
          (let target = hook_path h in
           if \<not> apply_it then (True, fs)
           else
             (case os_mkdir_all (xi_mkdir io) (ancestors (sep h) (dir_of (sep h) target)) fs of
                (False, fs) \<Rightarrow> (False, fs)
              | (True, fs) \<Rightarrow>
                  if fs target \<noteq> None \<and> \<not> xi_hook_rename io then (False, fs)
                  else
                    (let fs = (if fs target \<noteq> None
                               then rename_tree (sep h) target (target @ ''.bak.'' @ xi_stamp io) fs else fs)
                     in os_write (xi_hook_write io) (xi_left io) target script 493 fs))))"

section \<open>Installing\<close>

record install_call =
  ic_apply :: bool
  ic_dryRun :: bool
  ic_ide :: string
  ic_binary :: string
  ic_directory :: string

text \<open>Where the program is: \<open>os.Executable\<close>, \<open>filepath.EvalSymlinks\<close> and \<open>filepath.Abs\<close>.\<close>

record own_path =
  op_exe :: "string option"
  op_resolve :: "string \<Rightarrow> string option"
  op_abs :: "string \<Rightarrow> string option"

definition install_binary :: "own_path \<Rightarrow> install_call \<Rightarrow> string option" where
  "install_binary own c =
     (case (if ic_binary c \<noteq> [] then Some (ic_binary c)
            else map_option (\<lambda>me. case op_resolve own me of Some r \<Rightarrow> r | None \<Rightarrow> me) (op_exe own)) of
        None \<Rightarrow> None
      | Some exe \<Rightarrow> op_abs own exe)"

definition install_spec :: "host \<Rightarrow> install_call \<Rightarrow> string \<Rightarrow> spec" where
  "install_spec h c exe =
     (let sp = DefaultSpec exe;
          sp = sp\<lparr>sp_env := sp_env sp @ [(''A2A_DIRECTORY'', ic_directory c)]\<rparr>
      in if ho_home h \<noteq> None then sp\<lparr>sp_hook := hook_path h\<rparr> else sp)"

fun install_all ::
  "host \<Rightarrow> toml_codec \<Rightarrow> (writer \<Rightarrow> nat \<Rightarrow> config_io) \<Rightarrow> bool \<Rightarrow> spec \<Rightarrow> bool \<Rightarrow> writer list \<Rightarrow> fsys \<Rightarrow> cfg_result list \<times> fsys"
where
  "install_all h tm ios auto sp dryRun [] fs = ([], fs)"
| "install_all h tm ios auto sp dryRun (w # ws) fs =
     (if auto \<and> \<not> WriterFound h w fs then install_all h tm ios auto sp dryRun ws fs
      else
        (case Write h tm (ios w) w sp dryRun fs of
           (res, fs) \<Rightarrow> (case install_all h tm ios auto sp dryRun ws fs of (results, fs) \<Rightarrow> (res # results, fs))))"

definition RunInstall ::
  "host \<Rightarrow> own_path \<Rightarrow> toml_codec \<Rightarrow> embedded \<Rightarrow> string \<Rightarrow> (writer \<Rightarrow> nat \<Rightarrow> config_io) \<Rightarrow> extras_io \<Rightarrow> install_call \<Rightarrow> fsys \<Rightarrow>
   int \<times> cfg_result list \<times> fsys"
where
  "RunInstall h own tm skill script ios xio c fs =
     (let apply_it = (ic_apply c \<and> \<not> ic_dryRun c) in
      case install_binary own c of
        None \<Rightarrow> (1, [], fs)
      | Some exe \<Rightarrow>
          (let sp = install_spec h c exe;
               selected = filterWriters AllWriters (parseIDEFilter (ic_ide c))
           in if selected = [] then (1, [], fs)
              else
                (case install_all h tm ios (ic_ide c = ''auto'') sp (\<not> apply_it) selected fs of
                   (results, fs) \<Rightarrow>
                     (let failed = list_ex (\<lambda>r. re_error r \<noteq> None) results in
                      if \<not> shouldInstallExtras (ic_ide c) then (if failed then 1 else 0, results, fs)
                      else
                        (case installSkill h skill xio apply_it fs of
                           (a, fs) \<Rightarrow>
                             (case installHook h script xio apply_it fs of
                                (b, fs) \<Rightarrow> (if failed \<or> \<not> a \<or> \<not> b then 1 else 0, results, fs)))))))"

section \<open>Uninstalling\<close>

definition removeMCPBlock :: "host \<Rightarrow> toml_codec \<Rightarrow> (nat \<Rightarrow> config_io) \<Rightarrow> writer \<Rightarrow> string \<Rightarrow> bool \<Rightarrow> fsys \<Rightarrow> bool \<times> fsys" where
  "removeMCPBlock h tm ios w path dryRun fs =
     (if dryRun then (False, fs)
      else (case RemoveMCPEntry h tm ios w path fs of (errs, fs) \<Rightarrow> (errs \<noteq> [], fs)))"

text \<open>The outcomes: whether the rename works, and whether deleting does.\<close>

definition removePath :: "host \<Rightarrow> bool \<Rightarrow> bool \<Rightarrow> string \<Rightarrow> string \<Rightarrow> bool \<Rightarrow> bool \<Rightarrow> fsys \<Rightarrow> fsys" where
  "removePath h renames deletes stamp path dryRun purge fs =
     (if fs path = None \<or> dryRun then fs
      else if purge then (if deletes then remove_tree (sep h) path fs else fs)
      else if renames then rename_tree (sep h) path (path @ ''.bak.'' @ stamp) fs
      else fs)"

fun uninstall_all :: "host \<Rightarrow> toml_codec \<Rightarrow> (writer \<Rightarrow> nat \<Rightarrow> config_io) \<Rightarrow> bool \<Rightarrow> writer list \<Rightarrow> fsys \<Rightarrow> bool \<times> fsys" where
  "uninstall_all h tm ios dryRun [] fs = (False, fs)"
| "uninstall_all h tm ios dryRun (w # ws) fs =
     (if \<not> WriterFound h w fs then uninstall_all h tm ios dryRun ws fs
      else
        (case removeMCPBlock h tm (ios w) w (Detect h w fs) dryRun fs of
           (f, fs) \<Rightarrow> (case uninstall_all h tm ios dryRun ws fs of (g, fs) \<Rightarrow> (f \<or> g, fs))))"

definition RunUninstall ::
  "host \<Rightarrow> toml_codec \<Rightarrow> (writer \<Rightarrow> nat \<Rightarrow> config_io) \<Rightarrow> bool \<Rightarrow> bool \<Rightarrow> string \<Rightarrow> bool \<Rightarrow> bool \<Rightarrow> fsys \<Rightarrow> int \<times> fsys"
where
  "RunUninstall h tm ios renames deletes stamp purge dryRun fs =
     (case uninstall_all h tm ios dryRun AllWriters fs of
        (failed, fs) \<Rightarrow>
          (case ho_home h of
             None \<Rightarrow> (1, fs)
           | Some _ \<Rightarrow>
               (let fs = removePath h renames deletes stamp (in_home h [''.claude'', ''skills'', ''a2a-bridge'']) dryRun purge fs;
                    fs = removePath h renames deletes stamp (hook_path h) dryRun purge fs;
                    fs = (if purge then removePath h renames deletes stamp (in_home h [''.a2abridge'']) dryRun True fs else fs)
                in (if failed then 1 else 0, fs))))"

section \<open>The health check\<close>

text \<open>A row of the report; the detail texts are left out.\<close>

record check_result =
  ch_name :: string
  ch_status :: string
  ch_hint :: string

definition row :: "string \<Rightarrow> string \<Rightarrow> string \<Rightarrow> check_result" where
  "row name status hint = \<lparr>ch_name = name, ch_status = status, ch_hint = hint\<rparr>"

definition checkBinary :: "own_path \<Rightarrow> check_result" where
  "checkBinary own = (case op_exe own of None \<Rightarrow> row ''binary'' ''WARN'' [] | Some _ \<Rightarrow> row ''binary'' ''PASS'' [])"

text \<open>\<open>net\<close> gives nothing for a URL from which no request can be made.\<close>

definition checkDirectoryReachable :: "(string \<Rightarrow> net_answer option) \<Rightarrow> string \<Rightarrow> check_result" where
  "checkDirectoryReachable net url =
     (case net (trim_right (CHR ''/'') url @ ''/agents'') of
        None \<Rightarrow> row ''directory'' ''FAIL'' []
      | Some Net_error \<Rightarrow> row ''directory'' ''FAIL'' ''a2abridge service install && a2abridge service start''
      | Some (Answer status body _) \<Rightarrow>
          if status div 100 \<noteq> 2 then row ''directory'' ''FAIL'' []
          else
            (case decode_first body of
               Some JNull \<Rightarrow> row ''directory'' ''PASS'' []
             | Some (JArr ps) \<Rightarrow>
                 row ''directory'' (if list_all (\<lambda>p. p = JNull \<or> is_map p) ps then ''PASS'' else ''WARN'') []
             | _ \<Rightarrow> row ''directory'' ''WARN'' []))"

definition currentExe :: "own_path \<Rightarrow> string" where
  "currentExe own = (case op_exe own of Some e \<Rightarrow> e | None \<Rightarrow> ''a2abridge'')"

definition ide_row :: "host \<Rightarrow> toml_codec \<Rightarrow> (nat \<Rightarrow> config_io) \<Rightarrow> spec \<Rightarrow> writer \<Rightarrow> fsys \<Rightarrow> check_result" where
  "ide_row h tm ios sp w fs =
     (let name = ''ide:'' @ Name w; hint = ''a2abridge install --apply --ide '' @ writerSlug w in
      if Detect h w fs = [] then row name ''WARN'' []
      else
        (let res = fst (Write h tm ios w sp True fs) in
         if re_error res = Some Not_installed then row name ''WARN'' []
         else if re_error res \<noteq> None then row name ''FAIL'' hint
         else if re_skipped res then row name ''PASS'' []
         else row name ''WARN'' hint))"

definition checkIDEs :: "host \<Rightarrow> own_path \<Rightarrow> toml_codec \<Rightarrow> (writer \<Rightarrow> nat \<Rightarrow> config_io) \<Rightarrow> fsys \<Rightarrow> check_result list" where
  "checkIDEs h own tm ios fs = map (\<lambda>w. ide_row h tm (ios w) (DefaultSpec (currentExe own)) w fs) AllWriters"

definition install_hint :: "string \<Rightarrow> string" where
  "install_hint why = ''a2abridge install --apply  ('' @ why @ '')''"

definition checkSkill :: "host \<Rightarrow> fsys \<Rightarrow> check_result" where
  "checkSkill h fs =
     (case ho_home h of
        None \<Rightarrow> row ''skill'' ''WARN'' []
      | Some _ \<Rightarrow>
          if \<not> fileExists (in_home h [''.claude'', ''skills'', ''a2a-bridge'', ''SKILL.md'']) fs
          then row ''skill'' ''WARN'' (install_hint ''drops the skill alongside MCP configs'')
          else row ''skill'' ''PASS'' [])"

definition executable :: "nat \<Rightarrow> bool" where
  "executable mode = (and mode 73 \<noteq> 0)"

definition checkHook :: "host \<Rightarrow> fsys \<Rightarrow> check_result" where
  "checkHook h fs =
     (case ho_home h of
        None \<Rightarrow> row ''hook'' ''WARN'' []
      | Some _ \<Rightarrow>
          if \<not> fileExists (hook_path h) fs then row ''hook'' ''WARN'' (install_hint ''writes the hook'')
          else
            (case fs (hook_path h) of
               Some (Plain _ mode) \<Rightarrow>
                 if ho_goos h \<noteq> ''windows'' \<and> \<not> executable mode then row ''hook'' ''WARN'' (''chmod +x '' @ hook_path h)
                 else row ''hook'' ''PASS'' []
             | _ \<Rightarrow> row ''hook'' ''PASS'' []))"

fun printResults :: "string \<Rightarrow> check_result list \<Rightarrow> string" where
  "printResults worst [] = worst"
| "printResults worst (r # rs) =
     printResults (if ch_status r = ''FAIL'' then ''FAIL''
                   else if ch_status r = ''WARN'' then (if worst \<noteq> ''FAIL'' then ''WARN'' else worst)
                   else worst) rs"

definition RunDoctor ::
  "host \<Rightarrow> own_path \<Rightarrow> toml_codec \<Rightarrow> (writer \<Rightarrow> nat \<Rightarrow> config_io) \<Rightarrow> (string \<Rightarrow> net_answer option) \<Rightarrow> string \<Rightarrow> fsys \<Rightarrow> int"
where
  "RunDoctor h own tm ios net url fs =
     (let results = [checkBinary own, checkDirectoryReachable net url] @ checkIDEs h own tm ios fs @ [checkSkill h fs, checkHook h fs]
      in if printResults ''PASS'' results = ''FAIL'' then 1 else 0)"

section \<open>Dry runs\<close>

lemma writeJSONConfig_dry: "snd (writeJSONConfig h io name path True edit fs) = fs"
  by (simp add: writeJSONConfig_def Let_def split: sum.split prod.split bool.split)

lemma Write_dry: "snd (Write h tm ios w sp True fs) = fs"
proof (cases w)
  case ClaudeCode
  have w: "snd x = fs \<Longrightarrow> \<exists>r. x = (r, fs)" for x :: "cfg_result \<times> fsys" by (metis prod.collapse)
  obtain r where "writeJSONConfig h (ios 0) (Name ClaudeCode) (claudeMCPConfigPath h) True (setMCPServerEntry sp) fs = (r, fs)"
    using w [OF writeJSONConfig_dry] by blast
  moreover obtain r' where "writeJSONConfig h (ios 1) (Name ClaudeCode) (claudeSettingsPath h) True (hook_edit sp) fs = (r', fs)"
    using w [OF writeJSONConfig_dry] by blast
  ultimately show ?thesis using ClaudeCode by (simp add: Write_claude_def del: One_nat_def)
next
  case Codex
  then show ?thesis by (simp add: Write_codex_def Let_def split: sum.split)
qed (simp_all add: Write_cursor_def Write_cline_def Write_continue_def Write_gemini_def Write_antigravity_def Let_def
    writeJSONConfig_dry)

lemma install_all_dry: "snd (install_all h tm ios auto sp True ws fs) = fs"
proof (induction ws arbitrary: fs)
  case (Cons w ws)
  obtain res where "Write h tm (ios w) w sp True fs = (res, fs)" using Write_dry [of h tm "ios w" w sp fs] by (metis prod.collapse)
  moreover obtain rest where "install_all h tm ios auto sp True ws fs = (rest, fs)" using Cons by (metis prod.collapse)
  ultimately show ?case using Cons by (cases auto) simp_all
qed simp

lemma uninstall_all_dry: "snd (uninstall_all h tm ios True ws fs) = fs"
  by (induction ws) (simp_all add: removeMCPBlock_def split: prod.split)

section \<open>Properties\<close>

text \<open>
  A dry run touches nothing: without \<open>--apply\<close>, or with \<open>--dry-run\<close>, installing leaves
  every file as it is whatever editors are chosen, and so does uninstalling with \<open>--dry-run\<close>.
\<close>

theorem dry_run_pure:
  "(ic_apply c \<and> \<not> ic_dryRun c \<or> snd (snd (RunInstall h own tm skill script ios xio c fs)) = fs) \<and>
   snd (RunUninstall h tm ios renames deletes stamp purge True fs) = fs"
proof
  obtain failed where "uninstall_all h tm ios True AllWriters fs = (failed, fs)" by (metis uninstall_all_dry prod.collapse)
  then show "snd (RunUninstall h tm ios renames deletes stamp purge True fs) = fs"
    by (simp add: RunUninstall_def removePath_def Let_def split: option.split)
next
  have "snd (snd (RunInstall h own tm skill script ios xio c fs)) = fs" if n: "\<not> (ic_apply c \<and> \<not> ic_dryRun c)"
  proof (cases "install_binary own c")
    case (Some exe)
    let ?ws = "filterWriters AllWriters (parseIDEFilter (ic_ide c))"
    obtain results where "install_all h tm ios (ic_ide c = ''auto'') (install_spec h c exe) True ?ws fs = (results, fs)"
      by (metis install_all_dry prod.collapse)
    then show ?thesis
      using n Some by (auto simp: RunInstall_def installSkill_def installHook_def Let_def split: option.splits)
  qed (simp add: RunInstall_def Let_def)
  then show "ic_apply c \<and> \<not> ic_dryRun c \<or> snd (snd (RunInstall h own tm skill script ios xio c fs)) = fs" by blast
qed

text \<open>The encoding of the entries decides their equality.\<close>

lemma equalJSON_iff:
  assumes "value_ok maxNestingDepth a" "value_ok maxNestingDepth b"
  shows "equalJSON a b \<longleftrightarrow> a = b"
proof
  have "unmarshal (marshal j) = Some j" if "value_ok maxNestingDepth j" for j
    using that unmarshal_marshal [of j] any_ok_same [of j] by (simp add: value_ok_def)
  then show "equalJSON a b \<Longrightarrow> a = b" unfolding equalJSON_def by (metis assms option.inject)
qed (simp add: equalJSON_def)

lemma default_env_valid:
  "valid_utf8 ''A2A_DIRECTORY''" "valid_utf8 ''http://127.0.0.1:7777''" "valid_utf8 ''A2A_BIND''" "valid_utf8 ''127.0.0.1:0''"
  "valid_utf8 ''A2A_ADVERTISE_HOST''" "valid_utf8 ''127.0.0.1''"
  by (rule valid_utf8_ascii, simp add: byte_of_def)+

lemma DefaultSpec_ok: "valid_utf8 exe \<Longrightarrow> spec_ok (DefaultSpec exe)"
  by (simp add: spec_ok_def DefaultSpec_def key_valid default_env_valid)

lemma install_spec_ok: "valid_utf8 exe \<Longrightarrow> valid_utf8 (ic_directory c) \<Longrightarrow> spec_ok (install_spec h c exe)"
  by (simp add: spec_ok_def install_spec_def DefaultSpec_def key_valid default_env_valid Let_def)

lemma install_entry_eq:
  "mcpEntryJSON (install_spec h c exe) = mcpEntryJSON (DefaultSpec exe') \<longleftrightarrow> exe = exe' \<and> ic_directory c = ''http://127.0.0.1:7777''"
  by (auto simp: mcpEntryJSON_def install_spec_def DefaultSpec_def go_map_def Let_def)

text \<open>The editors whose whole configuration is the JSON file.\<close>

definition json_target :: "host \<Rightarrow> writer \<Rightarrow> string" where
  "json_target h w =
     (if w = Cursor then cursor_writeTarget h else if w = Gemini then gemini_Detect h else antigravity_writeTarget h)"

lemma json_writer:
  assumes "w \<in> {Cursor, Gemini, Antigravity}"
  shows "Write h tm ios w sp dry fs = writeJSONConfig h (ios 0) (Name w) (json_target h w) dry (setMCPServerEntry sp) fs"
    and "fileExists (json_target h w) fs \<Longrightarrow> Detect h w fs = json_target h w"
  using assms
  by (auto simp: json_target_def Write_cursor_def Write_gemini_def Write_antigravity_def cursor_Detect_def antigravity_Detect_def)


definition call0 :: "string \<Rightarrow> install_call" where
  "call0 url = \<lparr>ic_apply = True, ic_dryRun = False, ic_ide = ''gemini'', ic_binary = ''/b'', ic_directory = url\<rparr>"

definition own0 :: own_path where
  "own0 = \<lparr>op_exe = Some ''/b'', op_resolve = Some, op_abs = Some\<rparr>"

definition no_toml :: toml_codec where
  "no_toml = \<lparr>tm_decode = (\<lambda>_. None), tm_encode = (\<lambda>_. None)\<rparr>"

definition gemini_after :: "string \<Rightarrow> cfg_result \<times> fsys" where
  "gemini_after url = Write linux_host no_toml (\<lambda>_. disk_works) Gemini (install_spec linux_host (call0 url) ''/b'') False Map.empty"


definition xio0 :: extras_io where
  "xio0 = \<lparr>xi_stamp = ''1'', xi_rename = True, xi_step = (\<lambda>_. True), xi_mkdir = None, xi_hook_rename = True,
     xi_hook_write = True, xi_left = None\<rparr>"

theorem dry_run_pure_witness:
  "snd (snd (RunInstall linux_host own0 no_toml [] [] (\<lambda>_ _. disk_works) xio0 ((call0 ''http://dir'')\<lparr>ic_dryRun := True\<rparr>) user_files)) = user_files"
  using dry_run_pure [of "(call0 ''http://dir'')\<lparr>ic_dryRun := True\<rparr>"] by simp

end
