(* ===== verification/Federation.thy ===== *)
theory Federation
  imports Ide_Config
begin

text \<open>
  Mutual TLS between machines (tls.go) and the command that makes a certificate (cert.go): the
  settings from the environment, the trust roots, which peers a server admits, and the files of
  a new key.  Certificates, their verification and lower-casing of names are parameters; what
  \<open>crypto/tls\<close> does with a configuration is written out.
\<close>

section \<open>Settings\<close>

record federation_config =
  fc_certFile :: string
  fc_keyFile :: string
  fc_trustRoots :: "string list"
  fc_peerAllow :: "string list"

definition is_path_sep :: "char \<Rightarrow> bool" where
  "is_path_sep c = (c = CHR '':'' \<or> c = CHR '';'')"

text \<open>\<open>strings.FieldsFunc\<close>: the maximal runs without a separator.\<close>

fun fields_func :: "(char \<Rightarrow> bool) \<Rightarrow> string \<Rightarrow> string \<Rightarrow> string list" where
  "fields_func f w [] = (if w = [] then [] else [rev w])"
| "fields_func f w (c # s) =
     (if f c then (if w = [] then fields_func f [] s else rev w # fields_func f [] s)
      else fields_func f (c # w) s)"

definition splitPaths :: "string \<Rightarrow> string list" where
  "splitPaths s = filter (\<lambda>p. p \<noteq> []) (map trim_space (fields_func is_path_sep [] s))"

definition FromEnv :: "(string \<Rightarrow> string) \<Rightarrow> federation_config" where
  "FromEnv getenv =
     \<lparr>fc_certFile = getenv ''A2A_TLS_CERT'', fc_keyFile = getenv ''A2A_TLS_KEY'',
      fc_trustRoots = (if getenv ''A2A_TRUST_ROOTS'' \<noteq> [] then splitPaths (getenv ''A2A_TRUST_ROOTS'') else []),
      fc_peerAllow = (if getenv ''A2A_PEER_ALLOW'' \<noteq> []
        then filter (\<lambda>c. c \<noteq> []) (map trim_space (split_char (CHR '','') (getenv ''A2A_PEER_ALLOW''))) else [])\<rparr>"

definition Enabled :: "federation_config \<Rightarrow> bool" where
  "Enabled c = (fc_certFile c \<noteq> [] \<and> fc_keyFile c \<noteq> [])"

section \<open>Configurations\<close>

record peer_cert =
  pc_commonName :: string
  pc_dnsNames :: "string list"
  pc_ips :: "string list"

datatype tls_error = Not_enabled | No_trust_roots | Bad_key_pair | Unreadable_root string | No_certs_in string

text \<open>The files and the X.509 code: the key pair of two files, the certificates in a PEM bundle.\<close>

record ('pair, 'ca) x509 =
  xp_pair :: "string \<Rightarrow> string \<Rightarrow> 'pair option"
  xp_read :: "string \<Rightarrow> string option"
  xp_pem :: "string \<Rightarrow> 'ca list"

record ('pair, 'ca) tls_config =
  tc_certificate :: 'pair
  tc_pool :: "'ca list"
  tc_clientAuth :: bool
  tc_min13 :: bool
  tc_verifyConnection :: "(peer_cert list \<Rightarrow> bool) option"

fun loadTrustPool :: "('pair, 'ca) x509 \<Rightarrow> string list \<Rightarrow> tls_error + 'ca list" where
  "loadTrustPool x [] = Inr []"
| "loadTrustPool x (p # ps) =
     (case xp_read x p of
        None \<Rightarrow> Inl (Unreadable_root p)
      | Some raw \<Rightarrow>
          if xp_pem x raw = [] then Inl (No_certs_in p)
          else (case loadTrustPool x ps of Inl e \<Rightarrow> Inl e | Inr cas \<Rightarrow> Inr (xp_pem x raw @ cas)))"

definition cert_names :: "(string \<Rightarrow> string) \<Rightarrow> peer_cert \<Rightarrow> string list" where
  "cert_names lower cert = lower (pc_commonName cert) # pc_dnsNames cert @ pc_ips cert"

definition verify_peer :: "(string \<Rightarrow> string) \<Rightarrow> string list \<Rightarrow> peer_cert list \<Rightarrow> bool" where
  "verify_peer lower peerAllow certs =
     (case certs of
        [] \<Rightarrow> False
      | cert # _ \<Rightarrow> list_ex (\<lambda>cand. lower cand \<in> set (map lower peerAllow)) (cert_names lower cert))"

definition ServerTLSConfig ::
  "(string \<Rightarrow> string) \<Rightarrow> ('pair, 'ca) x509 \<Rightarrow> federation_config \<Rightarrow> tls_error + ('pair, 'ca) tls_config"
where
  "ServerTLSConfig lower x c =
     (if \<not> Enabled c then Inl Not_enabled
      else if fc_trustRoots c = [] then Inl No_trust_roots
      else
        (case xp_pair x (fc_certFile c) (fc_keyFile c) of
           None \<Rightarrow> Inl Bad_key_pair
         | Some cert \<Rightarrow>
             (case loadTrustPool x (fc_trustRoots c) of
                Inl e \<Rightarrow> Inl e
              | Inr pool \<Rightarrow>
                  Inr \<lparr>tc_certificate = cert, tc_pool = pool, tc_clientAuth = True, tc_min13 = True,
                    tc_verifyConnection = (if fc_peerAllow c \<noteq> [] then Some (verify_peer lower (fc_peerAllow c)) else None)\<rparr>)))"

text \<open>For a client: nothing when federation is off.\<close>

definition ClientTLSConfig :: "('pair, 'ca) x509 \<Rightarrow> federation_config \<Rightarrow> tls_error + ('pair, 'ca) tls_config option" where
  "ClientTLSConfig x c =
     (if \<not> Enabled c then Inr None
      else if fc_trustRoots c = [] then Inl No_trust_roots
      else
        (case xp_pair x (fc_certFile c) (fc_keyFile c) of
           None \<Rightarrow> Inl Bad_key_pair
         | Some cert \<Rightarrow>
             (case loadTrustPool x (fc_trustRoots c) of
                Inl e \<Rightarrow> Inl e
              | Inr pool \<Rightarrow>
                  Inr (Some \<lparr>tc_certificate = cert, tc_pool = pool, tc_clientAuth = False, tc_min13 = True,
                    tc_verifyConnection = None\<rparr>))))"

text \<open>
  What \<open>crypto/tls\<close> does with a server configuration: it requires a certificate that chains to
  the pool when client authentication is on, then asks the callback if there is one.
\<close>

definition server_admits :: "('ca list \<Rightarrow> peer_cert list \<Rightarrow> bool) \<Rightarrow> ('pair, 'ca) tls_config \<Rightarrow> peer_cert list \<Rightarrow> bool" where
  "server_admits verifies tc certs =
     ((tc_clientAuth tc \<longrightarrow> certs \<noteq> [] \<and> verifies (tc_pool tc) certs) \<and>
      (case tc_verifyConnection tc of None \<Rightarrow> True | Some f \<Rightarrow> f certs))"

section \<open>A new certificate\<close>

text \<open>
  The keys are a parameter: the two PEM texts, or nothing when the generator or the signature
  fails.  A write that fails leaves \<open>left\<close>; directories are made for the owner only.
\<close>

definition GenerateEd25519Cert ::
  "host \<Rightarrow> nat option \<Rightarrow> (string \<times> string) option \<Rightarrow> bool \<Rightarrow> bool \<Rightarrow> node option \<Rightarrow> string \<Rightarrow> fsys \<Rightarrow> (string \<times> string) option \<times> fsys"
where
  "GenerateEd25519Cert h mk pems certOk keyOk left dir fs =
     (case os_mkdir_all mk (ancestors (sep h) dir) fs of
        (False, fs) \<Rightarrow> (None, fs)
      | (True, fs) \<Rightarrow>
          (case pems of
             None \<Rightarrow> (None, fs)
           | Some (certPem, keyPem) \<Rightarrow>
               (let certPath = path_join h [dir, ''cert.pem'']; keyPath = path_join h [dir, ''key.pem''] in
                case os_write certOk left certPath certPem 420 fs of
                  (False, fs) \<Rightarrow> (None, fs)
                | (True, fs) \<Rightarrow>
                    (case os_write keyOk left keyPath keyPem 384 fs of
                       (False, fs) \<Rightarrow> (None, fs)
                     | (True, fs) \<Rightarrow> (Some (certPath, keyPath), fs)))))"

definition certGenerate ::
  "host \<Rightarrow> string option \<Rightarrow> (string \<Rightarrow> (string \<times> string) option) \<Rightarrow> nat option \<Rightarrow> bool \<Rightarrow> bool \<Rightarrow> node option \<Rightarrow> string \<Rightarrow> string \<Rightarrow> fsys \<Rightarrow>
   int \<times> fsys"
where
  "certGenerate h hostname gen mk certOk keyOk left cn dirFlag fs =
     (let cnVal = (if cn = [] then (case hostname of Some n \<Rightarrow> n | None \<Rightarrow> ''a2abridge-peer'') else cn) in
      case (if dirFlag = [] then map_option (\<lambda>d. path_join h [d, ''.a2abridge'', ''tls'']) (ho_home h) else Some dirFlag) of
        None \<Rightarrow> (1, fs)
      | Some out \<Rightarrow>
          (case GenerateEd25519Cert h mk (gen cnVal) certOk keyOk left out fs of
             (None, fs) \<Rightarrow> (1, fs)
           | (Some _, fs) \<Rightarrow> (0, fs)))"

section \<open>Properties\<close>

lemma loadTrustPool_spec:
  "loadTrustPool x ps = Inr pool \<Longrightarrow>
   \<exists>raws. map (xp_read x) ps = map Some raws \<and> pool = concat (map (xp_pem x) raws) \<and> (\<forall>r \<in> set raws. xp_pem x r \<noteq> [])"
proof (induction ps arbitrary: pool)
  case (Cons p ps)
  then obtain raw cas where r: "xp_read x p = Some raw" "xp_pem x raw \<noteq> []" "loadTrustPool x ps = Inr cas" "pool = xp_pem x raw @ cas"
    by (auto split: option.splits if_splits sum.splits)
  from Cons.IH [OF r(3)] obtain raws where "map (xp_read x) ps = map Some raws" "cas = concat (map (xp_pem x) raws)"
      "\<forall>r \<in> set raws. xp_pem x r \<noteq> []" by blast
  then show ?case using r by (intro exI [of _ "raw # raws"]) simp
qed simp

lemma verify_peer_iff:
  "verify_peer lower allow (d # ds) \<longleftrightarrow> (\<exists>n \<in> set (cert_names lower d). \<exists>a \<in> set allow. lower a = lower n)"
  by (auto simp: verify_peer_def list_ex_iff image_iff) metis+

text \<open>
  With a server configuration, a peer is admitted exactly when it shows a certificate that chains
  to the certificates of the configured trust root files and, if there is an allow-list, one of
  the names of the certificate is on it up to case.  There is no configuration without trust
  roots, so the system's pool is never used.
\<close>

lemma server_config_admits:
  assumes "ServerTLSConfig lower x c = Inr tc"
  shows "\<exists>raws. map (xp_read x) (fc_trustRoots c) = map Some raws \<and> raws \<noteq> [] \<and> (\<forall>r \<in> set raws. xp_pem x r \<noteq> []) \<and>
    (\<forall>verifies certs. server_admits verifies tc certs \<longleftrightarrow>
       certs \<noteq> [] \<and> verifies (concat (map (xp_pem x) raws)) certs \<and>
       (fc_peerAllow c = [] \<or>
        (\<exists>n \<in> set (cert_names lower (hd certs)). \<exists>a \<in> set (fc_peerAllow c). lower a = lower n)))"
proof -
  obtain cert pool where p: "fc_trustRoots c \<noteq> []" "loadTrustPool x (fc_trustRoots c) = Inr pool"
      "tc = \<lparr>tc_certificate = cert, tc_pool = pool, tc_clientAuth = True, tc_min13 = True,
        tc_verifyConnection = (if fc_peerAllow c \<noteq> [] then Some (verify_peer lower (fc_peerAllow c)) else None)\<rparr>"
    using assms(1) by (auto simp: ServerTLSConfig_def split: if_splits option.splits sum.splits)
  obtain raws where r: "map (xp_read x) (fc_trustRoots c) = map Some raws" "pool = concat (map (xp_pem x) raws)"
      "\<forall>r \<in> set raws. xp_pem x r \<noteq> []"
    using loadTrustPool_spec [OF p(2)] by blast
  have "raws \<noteq> []" using r(1) p(1) by auto
  moreover have "server_admits verifies tc certs \<longleftrightarrow>
       certs \<noteq> [] \<and> verifies (concat (map (xp_pem x) raws)) certs \<and>
       (fc_peerAllow c = [] \<or>
        (\<exists>n \<in> set (cert_names lower (hd certs)). \<exists>a \<in> set (fc_peerAllow c). lower a = lower n))" for verifies certs
    using r(2) p(3) by (cases certs; cases "fc_peerAllow c = []") (simp_all add: server_admits_def verify_peer_iff)
  ultimately show ?thesis using r by blast
qed

definition ca_file :: "(string, string) x509" where
  "ca_file = \<lparr>xp_pair = (\<lambda>a b. Some a), xp_read = [''ca.pem'' \<mapsto> ''CA''], xp_pem = (\<lambda>r. [r])\<rparr>"

definition fed0 :: federation_config where
  "fed0 = FromEnv (\<lambda>n. if n = ''A2A_PEER_ALLOW'' then ''Bob, eve'' else if n = ''A2A_TRUST_ROOTS'' then ''ca.pem'' else ''x'')"

definition bob :: peer_cert where
  "bob = \<lparr>pc_commonName = ''BOB'', pc_dnsNames = [], pc_ips = []\<rparr>"

text \<open>
  A trust root on a Windows drive cannot be configured: the list of paths is split at every
  colon, so the drive letter becomes a path of its own and, unless there is a file of that name, no
  server configuration is built.
\<close>

theorem drive_letter_splits:
  assumes "\<not> is_path_sep d" "list_all (\<lambda>c. \<not> is_path_sep c) p" "trim_space [d] = [d]" "trim_space p = p" "p \<noteq> []"
    and "xp_read x [d] = None" "getenv ''A2A_TRUST_ROOTS'' = d # CHR '':'' # p"
  shows "splitPaths (d # CHR '':'' # p) = [[d], p] \<and> (\<exists>e. ServerTLSConfig lower x (FromEnv getenv) = Inl e)"
proof -
  have f: "list_all (\<lambda>c. \<not> is_path_sep c) q \<Longrightarrow> fields_func is_path_sep w q = (if rev w @ q = [] then [] else [rev w @ q])" for q w
    by (induction q arbitrary: w) auto
  have s: "splitPaths (d # CHR '':'' # p) = [[d], p]"
    using assms(1-5) f [of p "[]"] by (simp add: splitPaths_def is_path_sep_def [of "CHR '':''"])
  then have "fc_trustRoots (FromEnv getenv) = [[d], p]" using assms(7) by (simp add: FromEnv_def)
  then have "\<exists>e. ServerTLSConfig lower x (FromEnv getenv) = Inl e"
    using assms(6) by (auto simp: ServerTLSConfig_def split: option.split)
  then show ?thesis using s by blast
qed

definition windows_env :: "string \<Rightarrow> string" where
  "windows_env n = (if n = ''A2A_TRUST_ROOTS'' then ''C:'' @ [bslash] @ ''ca.pem'' else ''x'')"

theorem drive_letter_splits_witness:
  "splitPaths (''C:'' @ [bslash] @ ''ca.pem'') = [''C'', bslash # ''ca.pem''] \<and>
   (\<exists>e. ServerTLSConfig to_lower ca_file (FromEnv windows_env) = Inl e)"
proof -
  have t: "trim_space ''C'' = ''C''" "trim_space (bslash # ''ca.pem'') = bslash # ''ca.pem''" by code_simp+
  show ?thesis
    using drive_letter_splits [of "CHR ''C''" "bslash # ''ca.pem''" ca_file windows_env to_lower] t
    by (simp add: is_path_sep_def bslash_def ca_file_def windows_env_def)
qed

end
