(* ===== verification/Protocol_Guard.thy ===== *)
theory Protocol_Guard
  imports Task_Store
begin

text \<open>
  internal/agent/guard.go and internal/agent/cardcache.go: the checks in front of the SDK's
  handlers (bounded bodies, the protocol version, subscriptions to missing or finished tasks)
  and the caching of the Agent Card.

  A handler is a function from the request to a response or to the request that is passed on.
  Error texts are not modelled, only the sentinel and the codes.  The SDK's protocol version,
  the name of its version parameter, its error reasons, its decoding of the parameters of
  \<open>SubscribeToTask\<close> and the hash over the card are parameters.
\<close>

section \<open>Requests\<close>

text \<open>
  A body as \<open>io.ReadAll\<close> finds it under the \<open>MaxBytesReader\<close> limit; headers under their
  canonical names; the query as parsed by \<open>URL.Query\<close>.
\<close>

datatype body = No_body | Body string | Body_too_large | Body_broken

record request =
  rq_method :: string
  rq_path :: string
  rq_header :: "string \<rightharpoonup> string"
  rq_query :: "string \<rightharpoonup> string list"
  rq_body :: body

record protocol =
  svcParamVersion :: string
  a2a_version :: string
  error_reason :: "a2a_error \<Rightarrow> string"

text \<open>\<open>Header.Get\<close> and \<open>Values.Get\<close>: the empty string when there is no value.\<close>

definition header_get :: "request \<Rightarrow> string \<Rightarrow> string" where
  "header_get r h = (case rq_header r h of None \<Rightarrow> '''' | Some v \<Rightarrow> v)"

definition query_get :: "request \<Rightarrow> string \<Rightarrow> string" where
  "query_get r q = (case rq_query r q of Some (v # _) \<Rightarrow> v | _ \<Rightarrow> '''')"

section \<open>Error codes\<close>

record error_codes =
  rpcCode :: int
  httpStatus :: nat
  grpcStatus :: string
  reason :: string

definition protocolErrors :: "(a2a_error \<times> int \<times> nat \<times> string) list" where
  "protocolErrors =
     [(ErrInvalidRequest, -32600, 400, ''INVALID_ARGUMENT''),
      (ErrTaskNotFound, -32001, 404, ''NOT_FOUND''),
      (ErrUnsupportedOperation, -32004, 400, ''FAILED_PRECONDITION''),
      (ErrVersionNotSupported, -32009, 400, ''FAILED_PRECONDITION'')]"

definition codesFor :: "protocol \<Rightarrow> a2a_error \<Rightarrow> error_codes" where
  "codesFor pv err =
     (case List.find (\<lambda>m. fst m = err) protocolErrors of
        Some (e, c, h, g) \<Rightarrow> \<lparr>rpcCode = c, httpStatus = h, grpcStatus = g, reason = error_reason pv e\<rparr>
      | None \<Rightarrow> \<lparr>rpcCode = -32603, httpStatus = 500, grpcStatus = ''INTERNAL'',
                  reason = error_reason pv ErrInternalError\<rparr>)"

text \<open>The answers: a JSON-RPC error (a nil id is sent as null), a REST error, or the request passed on.\<close>

datatype guard_answer =
    RPC_error nat "string option" error_codes
  | REST_error nat error_codes task_id
  | Forward request

definition writeJSONRPCError :: "protocol \<Rightarrow> nat \<Rightarrow> string option \<Rightarrow> a2a_error \<Rightarrow> guard_answer" where
  "writeJSONRPCError pv status i err = RPC_error status i (codesFor pv err)"

definition writeRESTError :: "protocol \<Rightarrow> nat \<Rightarrow> a2a_error \<Rightarrow> task_id \<Rightarrow> guard_answer" where
  "writeRESTError pv status err i =
     (let codes = codesFor pv err
      in REST_error (if status = 0 then httpStatus codes else status) codes i)"

definition bodyReadError :: "body \<Rightarrow> nat \<times> a2a_error" where
  "bodyReadError b = (case b of Body_too_large \<Rightarrow> (413, ErrInvalidRequest) | _ \<Rightarrow> (400, ErrInvalidRequest))"

section \<open>The protocol version\<close>

definition majorMinor :: "string \<Rightarrow> string option" where
  "majorMinor v =
     (case splitn_char (CHR ''.'') 3 v of
        p # q # _ \<Rightarrow>
          (case atoi p of
             None \<Rightarrow> None
           | Some major \<Rightarrow>
               (if major < 0 then None
                else (case atoi q of
                        None \<Rightarrow> None
                      | Some minor \<Rightarrow>
                          (if minor < 0 then None else Some (itoa major @ ''.'' @ itoa minor)))))
      | _ \<Rightarrow> None)"

definition checkProtocolVersion :: "protocol \<Rightarrow> request \<Rightarrow> a2a_error option" where
  "checkProtocolVersion pv r =
     (let h = trim_space (header_get r (svcParamVersion pv));
          v = (if h = '''' then trim_space (query_get r (svcParamVersion pv)) else h)
      in if v = '''' then Some ErrVersionNotSupported
         else (case majorMinor v of
                 None \<Rightarrow> Some ErrVersionNotSupported
               | Some got \<Rightarrow>
                   (let want = (case majorMinor (a2a_version pv) of None \<Rightarrow> '''' | Some w \<Rightarrow> w)
                    in if got \<noteq> want then Some ErrVersionNotSupported else None)))"

definition pinProtocolVersion :: "protocol \<Rightarrow> request \<Rightarrow> request" where
  "pinProtocolVersion pv r =
     (let served = a2a_version pv; n = svcParamVersion pv;
          r = (if header_get r n \<noteq> '''' then r\<lparr>rq_header := (rq_header r)(n \<mapsto> served)\<rparr> else r)
      in if rq_query r n \<noteq> None then r\<lparr>rq_query := (rq_query r)(n \<mapsto> [served])\<rparr> else r)"

section \<open>Subscriptions\<close>

definition restTasksPrefix :: string where "restTasksPrefix = ''/tasks/''"
definition subscribeActionSuffix :: string where "subscribeActionSuffix = '':subscribe''"
definition methodSubscribeToTask :: string where "methodSubscribeToTask = ''SubscribeToTask''"
definition jsonrpcVersion :: string where "jsonrpcVersion = ''2.0''"

definition subscribeTaskID :: "string \<Rightarrow> task_id option" where
  "subscribeTaskID path =
     (case cut_prefix path restTasksPrefix of
        None \<Rightarrow> None
      | Some rest \<Rightarrow>
          (if str_contains rest ''/'' then None
           else (case cut_suffix rest subscribeActionSuffix of
                   None \<Rightarrow> None
                 | Some i \<Rightarrow> if i = '''' then None else Some i)))"

text \<open>
  \<open>checkSubscribable\<close>: \<open>got\<close> is what the task store's \<open>Get\<close> answers.  A store failure other
  than a missing task is logged and left to the SDK.
\<close>

definition checkSubscribable :: "sdk \<Rightarrow> a2a_error + stored_task \<Rightarrow> a2a_error option" where
  "checkSubscribable k got =
     (case got of
        Inl e \<Rightarrow> if e = ErrTaskNotFound then Some ErrTaskNotFound else None
      | Inr st \<Rightarrow> if task_terminal k (sd_task st) then Some ErrUnsupportedOperation else None)"

section \<open>The JSON-RPC binding\<close>

record rpc_envelope =
  env_jsonrpc :: string
  env_id :: "string option"
  env_method :: string
  env_params :: "string option"

definition empty_envelope :: rpc_envelope where
  "empty_envelope = \<lparr>env_jsonrpc = '''', env_id = None, env_method = '''', env_params = None\<rparr>"

fun envelope_members :: "(string \<times> string \<times> json) list \<Rightarrow> rpc_envelope \<Rightarrow> rpc_envelope option" where
  "envelope_members [] e = Some e"
| "envelope_members (m # ms) e =
     (let raw = fst (snd m); v = snd (snd m)
      in case match_field [''jsonrpc'', ''id'', ''method'', ''params''] (fst m) of
           None \<Rightarrow> envelope_members ms e
         | Some n \<Rightarrow>
             (if n = ''id'' then envelope_members ms (e\<lparr>env_id := Some raw\<rparr>)
              else if n = ''params'' then envelope_members ms (e\<lparr>env_params := Some raw\<rparr>)
              else (case v of
                      JStr x \<Rightarrow> envelope_members ms
                        (if n = ''jsonrpc'' then e\<lparr>env_jsonrpc := x\<rparr> else e\<lparr>env_method := x\<rparr>)
                    | JNull \<Rightarrow> envelope_members ms e
                    | _ \<Rightarrow> None)))"

definition unmarshal_envelope :: "string \<Rightarrow> rpc_envelope option" where
  "unmarshal_envelope b =
     (case unmarshal b of
        Some JNull \<Rightarrow> Some empty_envelope
      | Some (JObj _) \<Rightarrow> (case raw_object b of None \<Rightarrow> None | Some ms \<Rightarrow> envelope_members ms empty_envelope)
      | _ \<Rightarrow> None)"

definition isRPCID :: "string option \<Rightarrow> bool" where
  "isRPCID raw =
     (case raw of
        None \<Rightarrow> False
      | Some s \<Rightarrow>
          (case trim_space s of
             [] \<Rightarrow> False
           | c # _ \<Rightarrow> c = dquote \<or> c = CHR ''-'' \<or> is_digit c))"

definition body_bytes :: "body \<Rightarrow> string" where
  "body_bytes b = (case b of Body s \<Rightarrow> s | _ \<Rightarrow> '''')"

definition guard_jsonrpc ::
  "protocol \<Rightarrow> sdk \<Rightarrow> (string \<Rightarrow> task_id option) \<Rightarrow> (task_id \<Rightarrow> a2a_error + stored_task) \<Rightarrow> bool \<Rightarrow>
   request \<Rightarrow> guard_answer" where
  "guard_jsonrpc pv k decode_params get streaming r =
     (if rq_body r = Body_too_large \<or> rq_body r = Body_broken then
        (case bodyReadError (rq_body r) of (status, err) \<Rightarrow> writeJSONRPCError pv status None err)
      else
        (let b = body_bytes (rq_body r);
             env = unmarshal_envelope b;
             i = (case env of
                    None \<Rightarrow> None
                  | Some e \<Rightarrow> if env_jsonrpc e = jsonrpcVersion \<and> isRPCID (env_id e) then env_id e else None)
         in case checkProtocolVersion pv r of
              Some err \<Rightarrow> writeJSONRPCError pv 200 i err
            | None \<Rightarrow>
                (let r' = pinProtocolVersion pv r
                 in case (i, env) of
                      (Some _, Some e) \<Rightarrow>
                        (if \<not> streaming \<or> env_method e \<noteq> methodSubscribeToTask then Forward r'
                         else (case Option.bind (env_params e) decode_params of
                                 None \<Rightarrow> Forward r'
                               | Some t \<Rightarrow>
                                   (if t = '''' then Forward r'
                                    else (case checkSubscribable k (get t) of
                                            None \<Rightarrow> Forward r'
                                          | Some err \<Rightarrow> writeJSONRPCError pv 200 i err))))
                    | _ \<Rightarrow> Forward r')))"

section \<open>The REST binding\<close>

definition guard_rest ::
  "protocol \<Rightarrow> sdk \<Rightarrow> (task_id \<Rightarrow> a2a_error + stored_task) \<Rightarrow> bool \<Rightarrow> request \<Rightarrow> guard_answer" where
  "guard_rest pv k get streaming r =
     (if rq_body r = Body_too_large \<or> rq_body r = Body_broken then
        (case bodyReadError (rq_body r) of (status, err) \<Rightarrow> writeRESTError pv status err '''')
      else
        (case checkProtocolVersion pv r of
           Some err \<Rightarrow> writeRESTError pv 0 err ''''
         | None \<Rightarrow>
             (let r' = pinProtocolVersion pv r
              in if streaming \<and> (rq_method r' = ''GET'' \<or> rq_method r' = ''POST'') then
                   (case subscribeTaskID (rq_path r') of
                      None \<Rightarrow> Forward r'
                    | Some t \<Rightarrow>
                        (case checkSubscribable k (get t) of
                           None \<Rightarrow> Forward r'
                         | Some err \<Rightarrow> writeRESTError pv 0 err t))
                 else Forward r')))"

section \<open>The Agent Card\<close>

definition agentCardMaxAge :: duration where "agentCardMaxAge = 5 * minute_d"

definition etagMatches :: "string \<Rightarrow> string \<Rightarrow> bool" where
  "etagMatches header etag =
     (header \<noteq> '''' \<and>
      list_ex (\<lambda>c. trim_space c = ''*'' \<or> trim_prefix (trim_space c) ''W/'' = etag)
        (split_char (CHR '','') header))"

text \<open>
  The handler's answer: either 304 with the cache headers, or the SDK's static handler on a
  request with the given method, with or without the cache headers set before.
\<close>

datatype card_answer =
    Not_modified "(string \<times> string) list"
  | Static string "(string \<times> string) list"

definition cache_headers :: "string \<Rightarrow> string \<Rightarrow> (string \<times> string) list" where
  "cache_headers etag lastModified =
     [(''Cache-Control'', ''public, max-age='' @ itoa (agentCardMaxAge div second_d)),
      (''ETag'', etag), (''Last-Modified'', lastModified)]"

definition card_etag :: "(string \<Rightarrow> string) \<Rightarrow> string \<Rightarrow> string" where
  "card_etag hexsum body_text = [dquote] @ hexsum body_text @ [dquote]"

definition agent_card_handler :: "(string \<Rightarrow> string) \<Rightarrow> string \<Rightarrow> string \<Rightarrow> request \<Rightarrow> card_answer" where
  "agent_card_handler hexsum body_text lastModified r =
     (if rq_method r \<noteq> ''GET'' \<and> rq_method r \<noteq> ''HEAD'' then Static (rq_method r) []
      else (let etag = card_etag hexsum body_text; h = cache_headers etag lastModified
            in if etagMatches (header_get r ''If-None-Match'') etag then Not_modified h
               else Static ''GET'' h))"

section \<open>Properties\<close>

lemmas guard_defs = guard_jsonrpc_def guard_rest_def writeJSONRPCError_def writeRESTError_def bodyReadError_def

definition readable :: "request \<Rightarrow> bool" where
  "readable r = (rq_body r \<noteq> Body_too_large \<and> rq_body r \<noteq> Body_broken)"

definition forwards :: "protocol \<Rightarrow> sdk \<Rightarrow> (string \<Rightarrow> task_id option) \<Rightarrow> (task_id \<Rightarrow> a2a_error + stored_task) \<Rightarrow>
    bool \<Rightarrow> request \<Rightarrow> request \<Rightarrow> bool" where
  "forwards pv k dp get str r r' =
     (guard_jsonrpc pv k dp get str r = Forward r' \<or> guard_rest pv k get str r = Forward r')"

lemma forwards_pinned:
  assumes "forwards pv k dp get str r r'"
  shows "r' = pinProtocolVersion pv r" "checkProtocolVersion pv r = None" "readable r"
  using assms
  by (auto simp: forwards_def guard_defs readable_def Let_def split: if_splits option.splits)

lemma pin_frame:
  "rq_body (pinProtocolVersion pv r) = rq_body r" "rq_method (pinProtocolVersion pv r) = rq_method r"
  "rq_path (pinProtocolVersion pv r) = rq_path r"
  by (simp_all add: pinProtocolVersion_def Let_def)

lemma codesFor_simps [simp]:
  "rpcCode (codesFor pv ErrVersionNotSupported) = -32009" "httpStatus (codesFor pv ErrVersionNotSupported) = 400"
  "rpcCode (codesFor pv ErrTaskNotFound) = -32001" "httpStatus (codesFor pv ErrTaskNotFound) = 404"
  "rpcCode (codesFor pv ErrUnsupportedOperation) = -32004" "httpStatus (codesFor pv ErrUnsupportedOperation) = 400"
  by (simp_all add: codesFor_def protocolErrors_def)

lemma version_error: "checkProtocolVersion pv r \<noteq> None \<Longrightarrow> checkProtocolVersion pv r = Some ErrVersionNotSupported"
  by (auto simp: checkProtocolVersion_def Let_def split: option.splits if_splits)

text \<open>
  What passes the guard, in either binding, is the request with body, method and path
  untouched and with every version it carries (header and query parameter) rewritten to the
  exact version the SDK serves; at least one of the two is there.
\<close>

theorem forwarded_request_pinned:
  assumes "forwards pv k dp get str r r'"
  shows "rq_body r' = rq_body r \<and> rq_method r' = rq_method r \<and> rq_path r' = rq_path r \<and>
    (header_get r' (svcParamVersion pv) \<noteq> '''' \<longrightarrow> header_get r' (svcParamVersion pv) = a2a_version pv) \<and>
    (rq_query r' (svcParamVersion pv) \<noteq> None \<longrightarrow> rq_query r' (svcParamVersion pv) = Some [a2a_version pv]) \<and>
    (header_get r' (svcParamVersion pv) = a2a_version pv \<or> query_get r' (svcParamVersion pv) = a2a_version pv)"
proof -
  note f = forwards_pinned [OF assms]
  have "header_get r (svcParamVersion pv) \<noteq> '''' \<or> rq_query r (svcParamVersion pv) \<noteq> None"
    using f(2)
    by (cases "rq_query r (svcParamVersion pv)")
       (auto simp: checkProtocolVersion_def query_get_def Let_def split: if_splits)
  then show ?thesis
    unfolding f(1) pin_frame
    by (auto simp: pinProtocolVersion_def header_get_def query_get_def Let_def)
qed

definition protocol10 :: protocol where
  "protocol10 = \<lparr>svcParamVersion = ''A2A-Version'', a2a_version = ''1.0'', error_reason = (\<lambda>_. '''')\<rparr>"

definition get_card :: "string \<Rightarrow> request" where
  "get_card v = \<lparr>rq_method = ''GET'', rq_path = ''/tasks/t1:subscribe'',
     rq_header = [''A2A-Version'' \<mapsto> v], rq_query = Map.empty, rq_body = No_body\<rparr>"

lemma majorMinor_eval:
  "majorMinor ''1.0'' = Some ''1.0''" "majorMinor ''1.0.3'' = Some ''1.0''"
  "majorMinor ''+1.0.beta'' = Some ''1.0''" "trim_space '' 1.0.3 '' = ''1.0.3''" "majorMinor ''0.3'' = Some ''0.3''"
  "trim_space ''0.3'' = ''0.3''"
  by code_simp+

lemma get_card_version:
  "checkProtocolVersion protocol10 (get_card '' 1.0.3 '') = None"
  "checkProtocolVersion protocol10 (get_card ''0.3'') = Some ErrVersionNotSupported"
  by (simp_all add: checkProtocolVersion_def get_card_def header_get_def protocol10_def majorMinor_eval Let_def)

theorem forwarded_request_pinned_witness:
  "\<exists>r'. forwards protocol10 sdk0 (\<lambda>_. None) (\<lambda>_. Inl ErrNilTask) False (get_card '' 1.0.3 '') r' \<and>
     header_get r' ''A2A-Version'' = ''1.0''"
proof -
  let ?r = "pinProtocolVersion protocol10 (get_card '' 1.0.3 '')"
  have "forwards protocol10 sdk0 (\<lambda>_. None) (\<lambda>_. Inl ErrNilTask) False (get_card '' 1.0.3 '') ?r"
    by (simp add: forwards_def guard_rest_def get_card_version Let_def) (simp add: get_card_def)
  with forwarded_request_pinned [OF this] show ?thesis
    by (auto simp: protocol10_def pinProtocolVersion_def get_card_def header_get_def Let_def)
qed

text \<open>
  A readable request that carries no or another version than the agent's is refused in
  both bindings with the version error, whatever its body, path and method: code -32009 under
  HTTP 200 for JSON-RPC, status 400 for REST.
\<close>

theorem unsupported_version_refused:
  assumes "readable r" "checkProtocolVersion pv r \<noteq> None"
  shows "(\<exists>i c. guard_jsonrpc pv k dp get str r = RPC_error 200 i c \<and> rpcCode c = -32009) \<and>
    (\<exists>c. guard_rest pv k get str r = REST_error 400 c '''' \<and> grpcStatus c = ''FAILED_PRECONDITION'')"
  using assms version_error [OF assms(2)]
  by (auto simp: guard_defs readable_def Let_def) (simp add: codesFor_def protocolErrors_def)

theorem unsupported_version_refused_witness:
  "\<exists>c. guard_rest protocol10 sdk0 (\<lambda>_. Inl ErrNilTask) True (get_card ''0.3'') = REST_error 400 c ''''"
proof -
  have "readable (get_card ''0.3'')" by (simp add: readable_def get_card_def)
  then show ?thesis
    using unsupported_version_refused [of "get_card ''0.3''" protocol10 sdk0 "\<lambda>_. None" "\<lambda>_. Inl ErrNilTask" True]
      get_card_version(2) by simp blast
qed

lemma subscribeTaskID_iff:
  "subscribeTaskID path = Some i \<longleftrightarrow>
   path = ''/tasks/'' @ i @ '':subscribe'' \<and> i \<noteq> '''' \<and> CHR ''/'' \<notin> set i"
proof
  assume "subscribeTaskID path = Some i"
  then obtain rest where "path = restTasksPrefix @ rest" "rest = i @ subscribeActionSuffix" "i \<noteq> ''''"
      "\<not> sublist ''/'' rest"
    by (auto simp: subscribeTaskID_def cut_prefix_Some_iff cut_suffix_Some_iff str_contains_iff
        split: option.splits if_splits)
  moreover from this have "CHR ''/'' \<notin> set i"
    by (metis append.assoc in_set_conv_decomp sublist_appendI append_Cons append_Nil)
  ultimately show "path = ''/tasks/'' @ i @ '':subscribe'' \<and> i \<noteq> '''' \<and> CHR ''/'' \<notin> set i"
    by (simp add: restTasksPrefix_def subscribeActionSuffix_def)
next
  assume p: "path = ''/tasks/'' @ i @ '':subscribe'' \<and> i \<noteq> '''' \<and> CHR ''/'' \<notin> set i"
  have "\<not> sublist ''/'' (i @ '':subscribe'')"
    using p by (auto dest!: set_mono_sublist)
  then show "subscribeTaskID path = Some i"
    using p by (simp add: subscribeTaskID_def restTasksPrefix_def subscribeActionSuffix_def str_contains_iff
        cut_prefix_def cut_suffix_def has_prefix_def has_suffix_def suffix_def)
qed

text \<open>
  \<open>subscribeTaskID\<close> recognises exactly the paths \<open>/tasks/{id}:subscribe\<close> with a non-empty
  ID of one path segment, and returns that ID.
\<close>

theorem subscribe_path_spec:
  "subscribeTaskID path = Some i \<longleftrightarrow>
   path = ''/tasks/'' @ i @ '':subscribe'' \<and> i \<noteq> '''' \<and> CHR ''/'' \<notin> set i"
  by (rule subscribeTaskID_iff)

definition rpc_subscribe :: "(string \<Rightarrow> task_id option) \<Rightarrow> request \<Rightarrow> task_id \<Rightarrow> string \<Rightarrow> bool" where
  "rpc_subscribe dp r t i =
     (\<exists>e p. unmarshal_envelope (body_bytes (rq_body r)) = Some e \<and> env_jsonrpc e = jsonrpcVersion \<and>
        env_id e = Some i \<and> isRPCID (Some i) \<and> env_method e = methodSubscribeToTask \<and>
        env_params e = Some p \<and> dp p = Some t \<and> t \<noteq> '''')"

text \<open>
  C23. A subscription to a task that the store does not hold, or that has ended, is answered
  with a plain error in both bindings and never reaches the SDK's stream: 404 and code -32001
  for a missing task, 400 and code -32004 for a terminal one.
\<close>

theorem finished_task_not_subscribable:
  assumes "readable r" "checkProtocolVersion pv r = None"
    and "t \<notin> dom (ts_tasks s) \<and> code = -32001 \<and> status = 404 \<or>
      (\<exists>e. ts_tasks s t = Some e \<and> cloneTask k (te_task e) = Inr (te_task e) \<and> task_terminal k (te_task e)) \<and>
       code = -32004 \<and> status = 400"
  shows "(rq_method r \<in> {''GET'', ''POST''} \<and> subscribeTaskID (rq_path r) = Some t \<longrightarrow>
      (\<exists>c. guard_rest pv k (\<lambda>i. Get k i s) True r = REST_error status c t \<and> rpcCode c = code)) \<and>
    (rpc_subscribe dp r t i \<longrightarrow>
      (\<exists>c. guard_jsonrpc pv k dp (\<lambda>i. Get k i s) True r = RPC_error 200 (Some i) c \<and> rpcCode c = code))"
proof -
  obtain err where err: "checkSubscribable k (Get k t s) = Some err"
    and codes: "rpcCode (codesFor pv err) = code" "httpStatus (codesFor pv err) = status"
  proof (cases "t \<in> dom (ts_tasks s)")
    case False
    then have "Get k t s = Inl ErrTaskNotFound" by (simp add: ttl.get_not_found)
    then show ?thesis using that [of ErrTaskNotFound] assms(3) False by (auto simp: checkSubscribable_def)
  next
    case True
    then show ?thesis
      using that [of ErrUnsupportedOperation] assms(3) by (auto simp: checkSubscribable_def Get_def)
  qed
  then show ?thesis
    using assms(1,2)
    by (auto simp: guard_defs readable_def rpc_subscribe_def Let_def pin_frame codes)
qed

theorem finished_task_not_subscribable_witness:
  "\<exists>c. guard_rest protocol10 sdk1 (\<lambda>i. Get sdk1 i two_tasks) True (get_card '' 1.0.3 '') = REST_error 404 c ''t1''"
proof -
  have "readable (get_card '' 1.0.3 '')" "rq_method (get_card '' 1.0.3 '') = ''GET''"
    "subscribeTaskID (rq_path (get_card '' 1.0.3 '')) = Some ''t1''"
    by (simp_all add: readable_def get_card_def subscribeTaskID_iff)
  moreover have "''t1'' \<notin> dom (ts_tasks two_tasks)" by (simp add: two_tasks_def)
  ultimately show ?thesis
    using finished_task_not_subscribable [OF _ get_card_version(1), of "''t1''" two_tasks "-32001" 404 sdk1]
    by auto
qed

lemma envelope_members_id:
  "envelope_members ms e = Some e' \<Longrightarrow> env_id e' = Some i \<Longrightarrow>
   env_id e = Some i \<or> (\<exists>m \<in> set ms. i = fst (snd m))"
proof (induction ms arbitrary: e)
  case (Cons m ms)
  from Cons.prems Cons.IH show ?case
    by (fastforce simp: Let_def split: option.splits if_splits json.splits)
qed simp

text \<open>
  The ID in a JSON-RPC error of the guard is echoed byte for byte: it is a piece of the
  request body as it was sent, and a string or number literal.
\<close>

theorem error_id_echoed:
  assumes "guard_jsonrpc pv k dp get str r = RPC_error status (Some i) c"
  shows "sublist i (body_bytes (rq_body r)) \<and> isRPCID (Some i)"
proof -
  obtain e where e: "unmarshal_envelope (body_bytes (rq_body r)) = Some e" "env_id e = Some i" "isRPCID (Some i)"
    using assms by (auto simp: guard_defs Let_def split: if_splits option.splits)
  then obtain ms where "raw_object (body_bytes (rq_body r)) = Some ms" "envelope_members ms empty_envelope = Some e"
    by (auto simp: unmarshal_envelope_def empty_envelope_def split: option.splits json.splits)
  with e(2,3) envelope_members_id [of ms empty_envelope e i] raw_object_sublist show ?thesis
    by (fastforce simp: empty_envelope_def)
qed

definition rpc_call :: "string \<Rightarrow> request" where
  "rpc_call v = \<lparr>rq_method = ''POST'', rq_path = ''/'', rq_header = [''A2A-Version'' \<mapsto> v], rq_query = Map.empty,
     rq_body = Body (marshal (JObj [(''jsonrpc'', JStr ''2.0''), (''id'', JNum ''7''), (''method'', JStr ''GetTask'')]))\<rparr>"

theorem error_id_echoed_witness:
  "\<exists>c. guard_jsonrpc protocol10 sdk0 (\<lambda>_. None) (\<lambda>_. Inl ErrNilTask) True (rpc_call ''0.3'') = RPC_error 200 (Some ''7'') c \<and>
     sublist ''7'' (body_bytes (rq_body (rpc_call ''0.3'')))"
proof -
  have env: "unmarshal_envelope (body_bytes (rq_body (rpc_call ''0.3''))) =
      Some \<lparr>env_jsonrpc = ''2.0'', env_id = Some ''7'', env_method = ''GetTask'', env_params = None\<rparr>"
    by code_simp
  moreover have "isRPCID (Some ''7'')" by code_simp
  moreover have "checkProtocolVersion protocol10 (rpc_call ''0.3'') = Some ErrVersionNotSupported"
    by (simp add: checkProtocolVersion_def rpc_call_def header_get_def protocol10_def majorMinor_eval Let_def)
  moreover have "rq_body (rpc_call ''0.3'') \<noteq> Body_too_large" "rq_body (rpc_call ''0.3'') \<noteq> Body_broken"
    by (simp_all add: rpc_call_def)
  ultimately have "guard_jsonrpc protocol10 sdk0 (\<lambda>_. None) (\<lambda>_. Inl ErrNilTask) True (rpc_call ''0.3'') =
      RPC_error 200 (Some ''7'') (codesFor protocol10 ErrVersionNotSupported)"
    by (simp add: guard_jsonrpc_def writeJSONRPCError_def jsonrpcVersion_def Let_def)
  with error_id_echoed [OF this] show ?thesis by blast
qed

lemma utoa_no_dot: "CHR ''.'' \<notin> set (utoa n)"
  using utoa_digits [of n] by (auto simp: list_all_iff is_digit_def)

lemma str_cut_free: "c \<notin> set s \<Longrightarrow> str_cut s [c] = None"
proof -
  assume "c \<notin> set s"
  then have "\<not> sublist [c] s" by (auto dest!: set_mono_sublist)
  then have "str_index s [c] = None" by (simp add: str_index_None_iff)
  then show ?thesis by (simp add: str_cut_def)
qed

lemma splitn_two:
  "splitn_char (CHR ''.'') 3 (utoa a @ ''.'' @ utoa b) = [utoa a, utoa b]"
  "splitn_char (CHR ''.'') 3 (utoa a @ ''.'' @ utoa b @ ''.'' @ rest) = [utoa a, utoa b, rest]"
  by (simp_all add: numeral_3_eq_3 str_cut_char utoa_no_dot str_cut_free)

text \<open>
  Version normalisation: \<open>major.minor\<close>, and likewise \<open>major.minor.rest\<close> for any rest,
  become \<open>major.minor\<close>.
\<close>

theorem majorMinor_normalises:
  assumes "int a < 2 ^ 63" "int b < 2 ^ 63"
  shows "majorMinor (utoa a @ ''.'' @ utoa b) = Some (utoa a @ ''.'' @ utoa b) \<and>
    majorMinor (utoa a @ ''.'' @ utoa b @ ''.'' @ rest) = Some (utoa a @ ''.'' @ utoa b)"
  using assms unfolding majorMinor_def splitn_two by (simp add: atoi_utoa itoa_def)

theorem majorMinor_normalises_witness: "majorMinor ''1.0.3'' = Some ''1.0''"
proof -
  have "utoa 1 = ''1''" "utoa 0 = ''0''" by code_simp+
  then show ?thesis using majorMinor_normalises [of 1 0 "''3''"] by simp
qed

text \<open>
  The version check is more lenient than its comment, which calls anything but \<open>1.0\<close> and
  \<open>1.0.3\<close>-like strings invalid: a leading plus sign and an arbitrary third component pass.
\<close>

theorem version_check_lenient: "majorMinor ''+1.0.beta'' = Some ''1.0''"
  by code_simp

text \<open>
  \<open>If-None-Match\<close>: a list of entity tags matches exactly when one of its members, without
  the white space around it, is an asterisk or, up to a weak prefix, the card's tag; a matching
  GET or HEAD is answered with 304 and the cache headers, any other with the card under the
  same headers.
\<close>

theorem card_revalidation:
  assumes "cs \<noteq> []" "\<forall>c \<in> set cs. CHR '','' \<notin> set c" "str_join cs '','' \<noteq> ''''"
    and "header_get r ''If-None-Match'' = str_join cs '',''" "rq_method r \<in> {''GET'', ''HEAD''}"
  shows "agent_card_handler hs body_text lm r =
    (if \<exists>c \<in> set cs. trim_space c = ''*'' \<or> trim_prefix (trim_space c) ''W/'' = card_etag hs body_text
     then Not_modified (cache_headers (card_etag hs body_text) lm)
     else Static ''GET'' (cache_headers (card_etag hs body_text) lm))"
proof -
  have "split_char (CHR '','') (str_join cs '','') = cs"
    using assms(1,2) by (intro split_char_join) (auto simp: list_all_iff)
  then show ?thesis
    using assms(3-5) by (auto simp: agent_card_handler_def etagMatches_def Let_def list_ex_iff)
qed

definition revalidate :: request where
  "revalidate = \<lparr>rq_method = ''HEAD'', rq_path = '''', rq_header = [''If-None-Match'' \<mapsto> str_join [''x'', ''*''] '',''],
     rq_query = Map.empty, rq_body = No_body\<rparr>"

theorem card_revalidation_witness:
  "\<exists>h. agent_card_handler (\<lambda>_. ''ab'') ''{}'' ''now'' revalidate = Not_modified h"
proof -
  have "trim_space ''*'' = ''*''" by code_simp
  then show ?thesis
    using card_revalidation [of "[''x'', ''*'']" revalidate "\<lambda>_. ''ab''" "''{}''" "''now''"]
    by (auto simp: revalidate_def header_get_def)
qed

end
