(* ===== verification/A2A_Server.thy ===== *)
theory A2A_Server
  imports Protocol_Guard Metrics
begin

text \<open>
  internal/agent/server.go: the HTTP surface of an agent.  The limit on request bodies, the
  routes as \<open>http.ServeMux\<close> matches them, the operational endpoints, and the guards in front
  of the two bindings of the SDK.

  The standard library's multiplexer is modelled for the features the routes use: a path pattern
  with or without a method (\<open>GET\<close> stands for \<open>HEAD\<close> too), a pattern that ends in a slash for a
  subtree, and \<open>{$}\<close> for the path itself.  Paths are taken without percent escapes.
\<close>

section \<open>The body limit\<close>

text \<open>
  A request on the wire has no body, a body that ends, or one that breaks off after some bytes
  (\<open>Chunk s False\<close>).  \<open>MaxBytesReader\<close> lets through exactly as many bytes as the limit.
\<close>

datatype wire_body = No_wire | Chunk string bool

record wire_request =
  wr_method :: string
  wr_path :: string
  wr_header :: "string \<rightharpoonup> string"
  wr_query :: "string \<rightharpoonup> string list"
  wr_body :: wire_body

definition maxRequestBodyBytes :: nat where
  "maxRequestBodyBytes = 10 * 2 ^ 20"

definition limit_body :: "wire_body \<Rightarrow> body" where
  "limit_body b =
     (case b of
        No_wire \<Rightarrow> No_body
      | Chunk s ends \<Rightarrow> if maxRequestBodyBytes < length s then Body_too_large else if ends then Body s else Body_broken)"

definition limited :: "wire_request \<Rightarrow> request" where
  "limited w = \<lparr>rq_method = wr_method w, rq_path = wr_path w, rq_header = wr_header w, rq_query = wr_query w,
     rq_body = limit_body (wr_body w)\<rparr>"

lemma limited_sel [simp]:
  "rq_method (limited w) = wr_method w" "rq_path (limited w) = wr_path w" "rq_body (limited w) = limit_body (wr_body w)"
  by (simp_all add: limited_def)

section \<open>The multiplexer\<close>

datatype mux_path = Exact string | Subtree string

record 'h mux_entry =
  me_method :: "string option"
  me_path :: mux_path
  me_handler :: 'h

fun path_matches :: "mux_path \<Rightarrow> string \<Rightarrow> bool" where
  "path_matches (Exact q) p = (p = q)"
| "path_matches (Subtree q) p = has_prefix p q"

definition method_matches :: "string option \<Rightarrow> string \<Rightarrow> bool" where
  "method_matches m meth = (case m of None \<Rightarrow> True | Some x \<Rightarrow> meth = x \<or> x = ''GET'' \<and> meth = ''HEAD'')"

text \<open>
  \<open>cleanPath\<close>: the path with empty segments, \<open>.\<close> and \<open>..\<close> resolved, a final slash kept.
  The segments are collected in reverse.
\<close>

fun clean_segments :: "string list \<Rightarrow> string list \<Rightarrow> string list" where
  "clean_segments out [] = rev out"
| "clean_segments out (s # ss) =
     (if s = [] \<or> s = ''.'' then clean_segments out ss
      else if s = ''..'' then clean_segments (tl out) ss
      else clean_segments (s # out) ss)"

definition cleanPath :: "string \<Rightarrow> string" where
  "cleanPath p =
     (let q = (if has_prefix p ''/'' then p else CHR ''/'' # p);
          np = CHR ''/'' # str_join (clean_segments [] (split_char (CHR ''/'') q)) ''/''
      in if last q = CHR ''/'' \<and> np \<noteq> ''/'' then np @ ''/'' else np)"

datatype 'h mux_answer = Redirected string | Not_found | Method_not_allowed "string list" | Dispatch 'h

text \<open>
  An exact pattern is more specific than a subtree, so it is tried first; a request that matches
  only patterns of other methods is answered with these.
\<close>

definition is_exact :: "mux_path \<Rightarrow> bool" where
  "is_exact q = (case q of Exact _ \<Rightarrow> True | Subtree _ \<Rightarrow> False)"

definition allowed_methods :: "'h mux_entry list \<Rightarrow> string \<Rightarrow> string list" where
  "allowed_methods es p =
     concat (map (\<lambda>e. case me_method e of None \<Rightarrow> [] | Some m \<Rightarrow> if m = ''GET'' then [''GET'', ''HEAD''] else [m])
       (filter (\<lambda>e. path_matches (me_path e) p) es))"

definition mux_serve :: "'h mux_entry list \<Rightarrow> string \<Rightarrow> string \<Rightarrow> 'h mux_answer" where
  "mux_serve es meth p =
     (if meth \<noteq> ''CONNECT'' \<and> cleanPath p \<noteq> p then Redirected (cleanPath p)
      else
        (let hits = filter (\<lambda>e. path_matches (me_path e) p \<and> method_matches (me_method e) meth) es in
         case filter (\<lambda>e. is_exact (me_path e)) hits @ hits of
           e # _ \<Rightarrow> Dispatch (me_handler e)
         | [] \<Rightarrow> if allowed_methods es p = [] then Not_found else Method_not_allowed (allowed_methods es p)))"

section \<open>The routes\<close>

datatype a2a_route = Card_route | Healthz | Metrics_route | JSONRPC_route | REST_route

definition any_method :: "mux_path \<Rightarrow> a2a_route \<Rightarrow> a2a_route mux_entry" where
  "any_method p r = \<lparr>me_method = None, me_path = p, me_handler = r\<rparr>"

definition for_method :: "string \<Rightarrow> mux_path \<Rightarrow> a2a_route \<Rightarrow> a2a_route mux_entry" where
  "for_method m p r = \<lparr>me_method = Some m, me_path = p, me_handler = r\<rparr>"

definition rest_patterns :: "mux_path list" where
  "rest_patterns = [Exact ''/message:send'', Exact ''/message:stream'', Exact ''/tasks'', Subtree ''/tasks/'', Exact ''/extendedAgentCard'']"

definition a2a_mux :: "string \<Rightarrow> a2a_route mux_entry list" where
  "a2a_mux wellKnown =
     [any_method (Exact wellKnown) Card_route,
      for_method ''GET'' (Exact ''/healthz'') Healthz,
      for_method ''GET'' (Exact ''/metrics'') Metrics_route,
      for_method ''POST'' (Exact ''/'') JSONRPC_route] @
     map (\<lambda>p. any_method p REST_route) rest_patterns"

text \<open>
  What the handler is built from: the SDK's constants and decoder, the card as \<open>json.Marshal\<close>
  gives it with the build time and the hash, whether the card enforcer can be built, and whether
  the card announces streaming.
\<close>

record a2a_surface =
  sf_protocol :: protocol
  sf_sdk :: sdk
  sf_decode_params :: "string \<Rightarrow> task_id option"
  sf_wellKnown :: string
  sf_card :: "string option"
  sf_builtAt :: string
  sf_hexsum :: "string \<Rightarrow> string"
  sf_enforcer :: bool
  sf_streaming :: bool

datatype surface_answer =
    Mux_answer "a2a_route mux_answer"
  | Card_answer card_answer
  | Ok_text
  | Metrics_answer string
  | RPC_binding guard_answer
  | REST_binding guard_answer

definition serve_route ::
  "a2a_surface \<Rightarrow> string \<Rightarrow> (task_id \<Rightarrow> a2a_error + stored_task) \<Rightarrow> string \<Rightarrow> metrics \<Rightarrow> a2a_route \<Rightarrow> request \<Rightarrow> surface_answer"
where
  "serve_route sf card_text get uptime m route r =
     (case route of
        Card_route \<Rightarrow> Card_answer (agent_card_handler (sf_hexsum sf) card_text (sf_builtAt sf) r)
      | Healthz \<Rightarrow> Ok_text
      | Metrics_route \<Rightarrow> Metrics_answer (emit uptime m)
      | JSONRPC_route \<Rightarrow> RPC_binding (guard_jsonrpc (sf_protocol sf) (sf_sdk sf) (sf_decode_params sf) get (sf_streaming sf) r)
      | REST_route \<Rightarrow> REST_binding (guard_rest (sf_protocol sf) (sf_sdk sf) get (sf_streaming sf) r))"

text \<open>The handler, or nothing when the card cannot be encoded or the enforcer cannot be built.\<close>

definition NewA2AHTTPHandler ::
  "a2a_surface \<Rightarrow> ((task_id \<Rightarrow> a2a_error + stored_task) \<Rightarrow> string \<Rightarrow> metrics \<Rightarrow> wire_request \<Rightarrow> surface_answer) option"
where
  "NewA2AHTTPHandler sf =
     (case sf_card sf of
        None \<Rightarrow> None
      | Some card_text \<Rightarrow>
          if \<not> sf_enforcer sf then None
          else Some (\<lambda>get uptime m w.
            (let r = limited w in
             case mux_serve (a2a_mux (sf_wellKnown sf)) (rq_method r) (rq_path r) of
               Dispatch route \<Rightarrow> serve_route sf card_text get uptime m route r
             | a \<Rightarrow> Mux_answer a)))"


section \<open>Properties\<close>

lemma mux_dispatch:
  assumes "mux_serve es meth p = Dispatch h"
  shows "\<exists>e \<in> set es. me_handler e = h \<and> path_matches (me_path e) p \<and> method_matches (me_method e) meth"
proof -
  let ?hits = "filter (\<lambda>e. path_matches (me_path e) p \<and> method_matches (me_method e) meth) es"
  obtain e rest where e: "filter (\<lambda>e. is_exact (me_path e)) ?hits @ ?hits = e # rest" "me_handler e = h"
    using assms by (auto simp: mux_serve_def Let_def split: if_splits list.splits)
  have "e \<in> set (filter (\<lambda>e. is_exact (me_path e)) ?hits @ ?hits)" unfolding e(1) by simp
  then show ?thesis using e(2) by auto
qed

lemma dispatch_rpc:
  "mux_serve (a2a_mux wk) meth p = Dispatch JSONRPC_route \<Longrightarrow> meth = ''POST'' \<and> p = ''/''"
  using mux_dispatch [of "a2a_mux wk" meth p JSONRPC_route]
  by (auto simp: a2a_mux_def any_method_def for_method_def method_matches_def)

definition rest_path :: "string \<Rightarrow> bool" where
  "rest_path p = (p \<in> {''/message:send'', ''/message:stream'', ''/tasks'', ''/extendedAgentCard''} \<or> has_prefix p ''/tasks/'')"

lemma dispatch_rest: "mux_serve (a2a_mux wk) meth p = Dispatch REST_route \<Longrightarrow> rest_path p"
  using mux_dispatch [of "a2a_mux wk" meth p REST_route]
  by (auto simp: a2a_mux_def any_method_def for_method_def rest_patterns_def rest_path_def)

lemma limit_body_complete:
  assumes "limit_body b \<noteq> Body_too_large" "limit_body b \<noteq> Body_broken"
  shows "b = No_wire \<and> limit_body b = No_body \<or>
    (\<exists>s. b = Chunk s True \<and> length s \<le> maxRequestBodyBytes \<and> limit_body b = Body s)"
  using assms by (auto simp: limit_body_def split: wire_body.splits if_splits)

lemma rest_forward_subscribable:
  assumes "guard_rest pv k (\<lambda>i. Get k i s) True r = Forward r'" "rq_method r \<in> {''GET'', ''POST''}"
    and "subscribeTaskID (rq_path r) = Some t"
  shows "\<exists>e. ts_tasks s t = Some e \<and> (cloneTask k (te_task e) = Inr (te_task e) \<longrightarrow> \<not> task_terminal k (te_task e))"
proof -
  have c: "checkSubscribable k (Get k t s) = None"
    using assms by (auto simp: guard_defs pin_frame Let_def split: if_splits option.splits)
  show ?thesis
  proof (cases "ts_tasks s t")
    case None
    then show ?thesis using c by (simp add: checkSubscribable_def Get_def)
  next
    case (Some e)
    then show ?thesis using c by (auto simp: checkSubscribable_def Get_def split: if_splits)
  qed
qed


lemma surface_forward:
  assumes "NewA2AHTTPHandler sf = Some serve"
  shows "serve get uptime m w = RPC_binding (Forward r) \<Longrightarrow>
      wr_method w = ''POST'' \<and> wr_path w = ''/'' \<and>
      guard_jsonrpc (sf_protocol sf) (sf_sdk sf) (sf_decode_params sf) get (sf_streaming sf) (limited w) = Forward r"
    and "serve get uptime m w = REST_binding (Forward r) \<Longrightarrow>
      rest_path (wr_path w) \<and> guard_rest (sf_protocol sf) (sf_sdk sf) get (sf_streaming sf) (limited w) = Forward r"
proof -
  obtain card where s: "serve = (\<lambda>get uptime m w. case mux_serve (a2a_mux (sf_wellKnown sf)) (wr_method w) (wr_path w) of
      Dispatch route \<Rightarrow> serve_route sf card get uptime m route (limited w) | a \<Rightarrow> Mux_answer a)"
    using assms by (auto simp: NewA2AHTTPHandler_def Let_def split: option.splits if_splits)
  show "wr_method w = ''POST'' \<and> wr_path w = ''/'' \<and>
      guard_jsonrpc (sf_protocol sf) (sf_sdk sf) (sf_decode_params sf) get (sf_streaming sf) (limited w) = Forward r"
    if "serve get uptime m w = RPC_binding (Forward r)"
    using that dispatch_rpc [of "sf_wellKnown sf" "wr_method w" "wr_path w"] unfolding s
    by (auto simp: serve_route_def split: mux_answer.splits a2a_route.splits)
  show "rest_path (wr_path w) \<and> guard_rest (sf_protocol sf) (sf_sdk sf) get (sf_streaming sf) (limited w) = Forward r"
    if "serve get uptime m w = REST_binding (Forward r)"
    using that dispatch_rest [of "sf_wellKnown sf" "wr_method w" "wr_path w"] unfolding s
    by (auto simp: serve_route_def split: mux_answer.splits a2a_route.splits)
qed

text \<open>The version a request names, when it names one in the header or in the query, is the SDK's.\<close>

definition version_pinned :: "protocol \<Rightarrow> request \<Rightarrow> bool" where
  "version_pinned pv r =
     (let p = svcParamVersion pv; v = a2a_version pv in
      header_get r p \<in> {'''', v} \<and> rq_query r p \<in> {None, Some [v]} \<and> (header_get r p = v \<or> query_get r p = v))"

lemma forwards_version_pinned: "forwards pv k dp get str r r' \<Longrightarrow> version_pinned pv r'"
  using forwarded_request_pinned [of pv k dp get str r r'] by (auto simp: version_pinned_def Let_def)


definition surface0 :: a2a_surface where
  "surface0 = \<lparr>sf_protocol = protocol10, sf_sdk = sdk0, sf_decode_params = (\<lambda>_. None),
     sf_wellKnown = ''/.well-known/agent-card.json'', sf_card = Some ''{}'', sf_builtAt = [], sf_hexsum = id,
     sf_enforcer = True, sf_streaming = True\<rparr>"

definition list_tasks :: wire_request where
  "list_tasks = \<lparr>wr_method = ''GET'', wr_path = ''/tasks'', wr_header = [''A2A-Version'' \<mapsto> '' 1.0.3 ''],
     wr_query = Map.empty, wr_body = No_wire\<rparr>"

lemma mux_tasks: "mux_serve (a2a_mux ''/.well-known/agent-card.json'') ''GET'' ''/tasks'' = Dispatch REST_route"
  by code_simp


end
