(* ===== verification/Updater.thy ===== *)
theory Updater
  imports Go_Json Go_Net "HOL-Library.Product_Lexorder"
begin

text \<open>
  internal/buildinfo/version.go and internal/cli/update.go: what version runs, which release
  to install, and the replacement of the running binary.

  The network is a function from URLs to answers; SHA-256 and the archive formats are
  parameters.  The file system is a map from paths to contents, and every operation on it may
  fail: the outcomes are a parameter.  Flags are taken after parsing.

  Shown: the order that \<open>compareVersions\<close> implements, that only a verified binary is
  installed and a failed installation keeps the old one, that no update is a downgrade.
\<close>

section \<open>Build information\<close>

record build_info =
  bi_Version :: string
  bi_Commit :: string
  bi_BuildDate :: string

record go_module =
  mod_path :: string
  mod_version :: string

record debug_info =
  dbg_main :: go_module
  dbg_deps :: "go_module list"
  dbg_settings :: "(string \<times> string) list"

definition DevVersion :: string where "DevVersion = ''dev''"
definition Unknown :: string where "Unknown = ''unknown''"
definition develModuleVersion :: string where "develModuleVersion = ''(devel)''"
definition shortRevisionLen :: nat where "shortRevisionLen = 7"
definition dirtySuffix :: string where "dirtySuffix = ''-dirty''"

definition modulePath :: string where
  "modulePath = trim_suffix ''github.com/vbcherepanov/a2abridge/v4/internal/buildinfo'' ''/internal/buildinfo''"

text \<open>
  The pattern for module versions: \<open>v\<close>, three numbers, then optionally a prerelease and
  build metadata.  A prerelease has no plus sign, so the first one starts the metadata.
\<close>

definition semver_tail_char :: "char \<Rightarrow> bool" where
  "semver_tail_char c =
     (is_digit c \<or> of_char c \<in> {65..90::nat} \<or> of_char c \<in> {97..122::nat} \<or> c = CHR ''.'' \<or> c = CHR ''-'')"

definition semver_tail :: "string \<Rightarrow> bool" where
  "semver_tail s = (s \<noteq> [] \<and> list_all semver_tail_char s)"

definition semver_rest :: "string \<Rightarrow> bool" where
  "semver_rest s =
     (let pre = takeWhile (\<lambda>c. c \<noteq> CHR ''+'') s; build = dropWhile (\<lambda>c. c \<noteq> CHR ''+'') s
      in (pre = [] \<or> hd pre = CHR ''-'' \<and> semver_tail (tl pre)) \<and> (build = [] \<or> semver_tail (tl build)))"

definition number_then :: "(string \<Rightarrow> bool) \<Rightarrow> string \<Rightarrow> bool" where
  "number_then k s = (takeWhile is_digit s \<noteq> [] \<and> k (dropWhile is_digit s))"

definition dot_then :: "(string \<Rightarrow> bool) \<Rightarrow> string \<Rightarrow> bool" where
  "dot_then k s = (case s of c # r \<Rightarrow> c = CHR ''.'' \<and> k r | [] \<Rightarrow> False)"

definition semverPattern :: "string \<Rightarrow> bool" where
  "semverPattern s =
     (case s of
        c # r \<Rightarrow> c = CHR ''v'' \<and> number_then (dot_then (number_then (dot_then (number_then semver_rest)))) r
      | [] \<Rightarrow> False)"

definition moduleVersion :: "debug_info option \<Rightarrow> string" where
  "moduleVersion bi =
     (case bi of
        None \<Rightarrow> DevVersion
      | Some b \<Rightarrow>
          (case (if mod_path (dbg_main b) = modulePath then Some (dbg_main b)
                 else List.find (\<lambda>d. mod_path d = modulePath) (dbg_deps b)) of
             None \<Rightarrow> DevVersion
           | Some m \<Rightarrow>
               if mod_version m = develModuleVersion \<or> \<not> semverPattern (mod_version m) then DevVersion
               else trim_prefix (mod_version m) ''v''))"

definition buildSettings :: "debug_info option \<Rightarrow> string \<Rightarrow> string" where
  "buildSettings bi =
     (case bi of
        None \<Rightarrow> (\<lambda>_. '''')
      | Some b \<Rightarrow> foldl (\<lambda>m s. m(fst s := snd s)) (\<lambda>_. '''') (dbg_settings b))"

definition vcsCommit :: "(string \<Rightarrow> string) \<Rightarrow> string" where
  "vcsCommit settings =
     (let rev = settings ''vcs.revision'' in
      if rev = '''' then Unknown
      else (if length rev > shortRevisionLen then take shortRevisionLen rev else rev) @
           (if settings ''vcs.modified'' = ''true'' then dirtySuffix else ''''))"

definition resolve :: "build_info \<Rightarrow> debug_info option \<Rightarrow> build_info" where
  "resolve linked bi =
     (let settings = buildSettings bi in
      \<lparr>bi_Version = (if bi_Version linked = '''' then moduleVersion bi else bi_Version linked),
       bi_Commit = (if bi_Commit linked = '''' then vcsCommit settings else bi_Commit linked),
       bi_BuildDate =
         (if bi_BuildDate linked = '''' then (if settings ''vcs.time'' = '''' then Unknown else settings ''vcs.time'')
          else bi_BuildDate linked)\<rparr>)"

section \<open>Versions\<close>

record parsed_version =
  pv_nums :: "int list"
  pv_pre :: string

definition parse_nums :: "string list \<Rightarrow> int list option" where
  "parse_nums parts =
     (if length parts > 3 then None
      else map_option (\<lambda>ns. ns @ replicate (3 - length ns) 0)
        (decode_all (\<lambda>p. case atoi p of Some n \<Rightarrow> if n < 0 then None else Some n | None \<Rightarrow> None) parts))"

definition before_char :: "char \<Rightarrow> string \<Rightarrow> string" where
  "before_char c s = takeWhile (\<lambda>x. x \<noteq> c) s"

definition parseVersion :: "string \<Rightarrow> parsed_version option" where
  "parseVersion s =
     (let s = before_char (CHR ''+'') (trim_prefix (trim_space s) ''v'') in
      case str_cut s ''-'' of
        None \<Rightarrow> map_option (\<lambda>ns. \<lparr>pv_nums = ns, pv_pre = ''''\<rparr>) (parse_nums (split_char (CHR ''.'') s))
      | Some (core, pre) \<Rightarrow>
          if pre = '''' then None
          else map_option (\<lambda>ns. \<lparr>pv_nums = ns, pv_pre = pre\<rparr>) (parse_nums (split_char (CHR ''.'') core)))"

fun compare_nums :: "int list \<Rightarrow> int list \<Rightarrow> int option" where
  "compare_nums (x # xs) (y # ys) =
     (if x \<noteq> y then Some (if x < y then -1 else 1) else compare_nums xs ys)"
| "compare_nums _ _ = None"

definition compareVersions :: "string \<Rightarrow> string \<Rightarrow> int option" where
  "compareVersions a b =
     (case (parseVersion a, parseVersion b) of
        (Some av, Some bv) \<Rightarrow>
          (case compare_nums (pv_nums av) (pv_nums bv) of
             Some c \<Rightarrow> Some c
           | None \<Rightarrow>
               Some (if pv_pre av = pv_pre bv then 0
                     else if pv_pre av = '''' then 1
                     else if pv_pre bv = '''' then -1
                     else if pv_pre av < pv_pre bv then -1
                     else 1))
      | _ \<Rightarrow> None)"


section \<open>Download and installation\<close>

definition maxArchiveBytes :: int where "maxArchiveBytes = 256 * 2 ^ 20"
definition maxBinaryBytes :: int where "maxBinaryBytes = 512 * 2 ^ 20"
definition maxChecksumsBytes :: int where "maxChecksumsBytes = 2 ^ 20"

definition httpGetLimited :: "(string \<Rightarrow> net_answer) \<Rightarrow> string \<Rightarrow> int \<Rightarrow> string option" where
  "httpGetLimited net url limit =
     (case net url of
        Net_error \<Rightarrow> None
      | Answer status body broken \<Rightarrow>
          if status \<noteq> 200 then None
          else if broken \<and> int (length body) \<le> limit then None
          else if int (length body) > limit then None
          else Some body)"

text \<open>\<open>filepath.Base\<close> on slash-separated paths.\<close>

definition path_base :: "string \<Rightarrow> string" where
  "path_base p =
     (if p = '''' then ''.''
      else let q = rev (dropWhile (\<lambda>c. c = CHR ''/'') (rev p)) in
        if q = '''' then ''/'' else rev (takeWhile (\<lambda>c. c \<noteq> CHR ''/'') (rev q)))"

definition readAllLimited :: "string option \<Rightarrow> int \<Rightarrow> string option" where
  "readAllLimited content limit =
     (case content of None \<Rightarrow> None | Some d \<Rightarrow> if int (length d) > limit then None else Some d)"

text \<open>
  What the archive readers make of a blob: the members in order (name, contents unless they
  cannot be read) and, for a tar stream, possibly an error in place of a member.
\<close>

datatype tar_item = Tar_member string "string option" | Tar_error

fun tar_find :: "tar_item list \<Rightarrow> string \<Rightarrow> string option" where
  "tar_find [] nm = None"
| "tar_find (Tar_error # is) nm = None"
| "tar_find (Tar_member n c # is) nm = (if path_base n \<noteq> nm then tar_find is nm else readAllLimited c maxBinaryBytes)"

record zip_file =
  zf_name :: string
  zf_opens :: bool
  zf_content :: "string option"
  zf_closes :: bool

fun zip_find :: "zip_file list \<Rightarrow> string \<Rightarrow> string option" where
  "zip_find [] nm = None"
| "zip_find (f # fs) nm =
     (if path_base (zf_name f) \<noteq> nm then zip_find fs nm
      else if \<not> zf_opens f then None
      else case readAllLimited (zf_content f) maxBinaryBytes of
             None \<Rightarrow> None
           | Some d \<Rightarrow> if zf_closes f then Some d else None)"

record archive_formats =
  af_untar :: "string \<Rightarrow> tar_item list option"
  af_unzip :: "string \<Rightarrow> zip_file list option"
  af_sha256 :: "string \<Rightarrow> string"

definition extractTarGzMember :: "archive_formats \<Rightarrow> string \<Rightarrow> string \<Rightarrow> string option" where
  "extractTarGzMember af blob nm = Option.bind (af_untar af blob) (\<lambda>is. tar_find is nm)"

definition extractZipMember :: "archive_formats \<Rightarrow> string \<Rightarrow> string \<Rightarrow> string option" where
  "extractZipMember af blob nm = Option.bind (af_unzip af blob) (\<lambda>fs. zip_find fs nm)"

fun findChecksum_lines :: "string list \<Rightarrow> string \<Rightarrow> string option" where
  "findChecksum_lines [] nm = None"
| "findChecksum_lines (l # ls) nm =
     (case str_fields l of
        [d, f] \<Rightarrow> if trim_prefix f ''*'' = nm then Some d else findChecksum_lines ls nm
      | _ \<Rightarrow> findChecksum_lines ls nm)"

definition findChecksum :: "string \<Rightarrow> string \<Rightarrow> string option" where
  "findChecksum sums nm = findChecksum_lines (split_char (CHR 0x0A) sums) nm"

definition hex_encode :: "string \<Rightarrow> string" where
  "hex_encode s = concat (map (\<lambda>c. [hex_digit (byte_of c div 16), hex_digit (byte_of c mod 16)]) s)"

definition equal_fold :: "string \<Rightarrow> string \<Rightarrow> bool" where
  "equal_fold a b = (fold_name a = fold_name b)"

definition verifyChecksum :: "archive_formats \<Rightarrow> (string \<Rightarrow> net_answer) \<Rightarrow> string \<Rightarrow> string \<Rightarrow> string \<Rightarrow> bool" where
  "verifyChecksum af net baseURL asset body =
     (case httpGetLimited net (baseURL @ ''/checksums.txt'') maxChecksumsBytes of
        None \<Rightarrow> False
      | Some sums \<Rightarrow>
          (case findChecksum sums asset of
             None \<Rightarrow> False
           | Some want \<Rightarrow> equal_fold (hex_encode (af_sha256 af body)) want))"

type_synonym files = "string \<rightharpoonup> string"

text \<open>The outcomes of the file operations; a failed write leaves something or nothing at its path.\<close>

record swap_io =
  sw_backup :: bool
  sw_write :: bool
  sw_left :: "string option"
  sw_activate :: bool
  sw_remove :: bool
  sw_restore :: bool

definition os_rename :: "bool \<Rightarrow> string \<Rightarrow> string \<Rightarrow> files \<Rightarrow> bool \<times> files" where
  "os_rename ok src dst fs =
     (case fs src of
        None \<Rightarrow> (False, fs)
      | Some c \<Rightarrow> if ok then (True, fs(src := None, dst \<mapsto> c)) else (False, fs))"

definition swap_binary :: "swap_io \<Rightarrow> string \<Rightarrow> string \<Rightarrow> string \<Rightarrow> files \<Rightarrow> bool \<times> files" where
  "swap_binary io stamp fresh dst fs =
     (let bak = dst @ ''.bak.'' @ stamp; tmp = dst @ ''.new'' in
      case os_rename (sw_backup io) dst bak fs of
        (False, fs) \<Rightarrow> (False, fs)
      | (True, fs) \<Rightarrow>
          if \<not> sw_write io then
            (False, snd (os_rename (sw_restore io) bak dst (fs(tmp := sw_left io))))
          else
            (case os_rename (sw_activate io) tmp dst (fs(tmp \<mapsto> fresh)) of
               (True, fs) \<Rightarrow> (True, fs)
             | (False, fs) \<Rightarrow>
                 let fs = (if sw_remove io then fs(tmp := None) else fs)
                 in (False, snd (os_rename (sw_restore io) bak dst fs))))"

definition downloadAndReplace ::
  "archive_formats \<Rightarrow> (string \<Rightarrow> net_answer) \<Rightarrow> swap_io \<Rightarrow> string \<Rightarrow> string \<Rightarrow> string \<Rightarrow> string \<Rightarrow> files \<Rightarrow> bool \<times> files"
where
  "downloadAndReplace af net io stamp baseURL asset dst fs =
     (case httpGetLimited net (baseURL @ ''/'' @ asset) maxArchiveBytes of
        None \<Rightarrow> (False, fs)
      | Some body \<Rightarrow>
          if \<not> verifyChecksum af net baseURL asset body then (False, fs)
          else
            (case (if has_suffix asset ''.tar.gz'' then extractTarGzMember af body ''a2abridge''
                   else if has_suffix asset ''.zip'' then extractZipMember af body ''a2abridge.exe''
                   else None) of
               None \<Rightarrow> (False, fs)
             | Some fresh \<Rightarrow> swap_binary io stamp fresh dst fs))"

definition assetName :: "string \<Rightarrow> string \<Rightarrow> string \<Rightarrow> string option" where
  "assetName goos goarch tag =
     (let v = trim_prefix tag ''v'' in
      if goos = ''darwin'' \<or> goos = ''linux'' then Some (''a2abridge_'' @ v @ ''_'' @ goos @ ''_'' @ goarch @ ''.tar.gz'')
      else if goos = ''windows'' then Some (''a2abridge_'' @ v @ ''_windows_'' @ goarch @ ''.zip'')
      else None)"

definition resolveLatestTag :: "(string \<Rightarrow> net_answer) \<Rightarrow> string \<Rightarrow> string option" where
  "resolveLatestTag net repo =
     (case net (''https://api.github.com/repos/'' @ repo @ ''/releases/latest'') of
        Net_error \<Rightarrow> None
      | Answer status body broken \<Rightarrow>
          if status \<noteq> 200 then None
          else Option.bind (decode_first body)
            (\<lambda>j. map_option (\<lambda>f. f ''tag_name'') (decode_struct [''tag_name''] j)))"

record update_call =
  up_repo :: string
  up_want :: string
  up_check :: bool
  up_current :: string
  up_goos :: string
  up_goarch :: string
  up_exe :: "string option"
  up_stamp :: string

definition RunUpdate :: "archive_formats \<Rightarrow> (string \<Rightarrow> net_answer) \<Rightarrow> swap_io \<Rightarrow> update_call \<Rightarrow> files \<Rightarrow> nat \<times> files" where
  "RunUpdate af net io u fs =
     (case (if up_want u = '''' then resolveLatestTag net (up_repo u) else Some (up_want u)) of
        None \<Rightarrow> (1, fs)
      | Some target \<Rightarrow>
          if target = '''' then (1, fs)
          else if compareVersions (up_current u) target = Some 0 then (0, fs)
          else if compareVersions (up_current u) target = Some 1 then (if up_want u \<noteq> '''' then (1, fs) else (0, fs))
          else if up_check u then (1, fs)
          else
            (case assetName (up_goos u) (up_goarch u) target of
               None \<Rightarrow> (1, fs)
             | Some asset \<Rightarrow>
                 (case up_exe u of
                    None \<Rightarrow> (1, fs)
                  | Some exe \<Rightarrow>
                      (case downloadAndReplace af net io (up_stamp u)
                          (''https://github.com/'' @ up_repo u @ ''/releases/download/'' @ target) asset exe fs of
                         (ok, fs') \<Rightarrow> (if ok then 0 else 1, fs')))))"

section \<open>The order of versions\<close>

definition version_key :: "parsed_version \<Rightarrow> int list \<times> bool \<times> string" where
  "version_key v = (pv_nums v, pv_pre v = '''', pv_pre v)"

definition order_sign :: "'a::linorder \<Rightarrow> 'a \<Rightarrow> int" where
  "order_sign x y = (if x = y then 0 else if x < y then -1 else 1)"

lemma order_sign_pair: "order_sign (a, b) (c, d) = (if a = c then order_sign b d else order_sign a c)"
  by (auto simp: order_sign_def)

lemma order_sign_bool: "order_sign p q = (if p = q then 0 else if q then -1 else 1)"
  by (auto simp: order_sign_def)

lemma compare_nums_sign:
  "length xs = length ys \<Longrightarrow> compare_nums xs ys = (if xs = ys then None else Some (order_sign xs ys))"
  by (induction xs ys rule: compare_nums.induct) (auto simp: order_sign_def)

lemma compare_nums_refl: "compare_nums xs xs = None"
  by (simp add: compare_nums_sign)

lemma decode_all_length: "decode_all f xs = Some ys \<Longrightarrow> length ys = length xs"
  by (induction xs arbitrary: ys) (auto split: option.splits)

lemma parse_nums_length: "parse_nums parts = Some ns \<Longrightarrow> length ns = 3"
  by (auto simp: parse_nums_def split: if_splits dest!: decode_all_length)

lemma parseVersion_length: "parseVersion s = Some v \<Longrightarrow> length (pv_nums v) = 3"
  by (auto simp: parseVersion_def Let_def split: option.splits if_splits dest!: parse_nums_length)

lemma compareVersions_cases:
  "compareVersions a b = None \<or> compareVersions a b = Some (-1) \<or> compareVersions a b = Some 0 \<or> compareVersions a b = Some 1"
proof -
  have "compare_nums xs ys = Some c \<Longrightarrow> c = -1 \<or> c = 1" for xs ys c
    by (induction xs ys rule: compare_nums.induct) (auto split: if_splits)
  then show ?thesis
    unfolding compareVersions_def by (auto split: option.split)
qed

text \<open>
  C30. \<open>compareVersions\<close> is the comparison of a linear order: the three numbers first, then a
  release after its prereleases, then the prerelease text by bytes.  So the answers are
  antisymmetric and transitive, and it answers exactly when both versions have a numeric core.
\<close>

theorem compare_versions_order:
  "compareVersions a b =
   (case (parseVersion a, parseVersion b) of
      (Some v, Some w) \<Rightarrow> Some (order_sign (version_key v) (version_key w))
    | _ \<Rightarrow> None)"
proof (cases "parseVersion a"; cases "parseVersion b")
  fix v w
  assume p: "parseVersion a = Some v" "parseVersion b = Some w"
  then have "length (pv_nums v) = length (pv_nums w)" by (simp add: parseVersion_length)
  then have n: "compare_nums (pv_nums v) (pv_nums w) =
      (if pv_nums v = pv_nums w then None else Some (order_sign (pv_nums v) (pv_nums w)))"
    by (rule compare_nums_sign)
  show ?thesis
    unfolding compareVersions_def p n version_key_def order_sign_pair order_sign_bool
    by (cases "pv_nums v = pv_nums w"; cases "pv_pre v = ''''"; cases "pv_pre w = ''''")
      (simp_all add: n compare_nums_refl order_sign_def [of "pv_pre v"] order_sign_def [of "[]"])
qed (simp_all add: compareVersions_def)


section \<open>Installation\<close>

text \<open>The binary that the release offers for an asset, when its published digest matches.\<close>

definition verified_binary ::
  "archive_formats \<Rightarrow> (string \<Rightarrow> net_answer) \<Rightarrow> string \<Rightarrow> string \<Rightarrow> string \<Rightarrow> bool"
where
  "verified_binary af net baseURL asset fresh =
     (\<exists>body sums digest.
        httpGetLimited net (baseURL @ ''/'' @ asset) maxArchiveBytes = Some body \<and>
        httpGetLimited net (baseURL @ ''/checksums.txt'') maxChecksumsBytes = Some sums \<and>
        findChecksum sums asset = Some digest \<and> equal_fold (hex_encode (af_sha256 af body)) digest \<and>
        (if has_suffix asset ''.tar.gz'' then extractTarGzMember af body ''a2abridge'' = Some fresh
         else has_suffix asset ''.zip'' \<and> extractZipMember af body ''a2abridge.exe'' = Some fresh))"

lemma downloadAndReplace_cases:
  obtains "downloadAndReplace af net io stamp baseURL asset dst fs = (False, fs)"
    | fresh where "verified_binary af net baseURL asset fresh"
      "downloadAndReplace af net io stamp baseURL asset dst fs = swap_binary io stamp fresh dst fs"
proof (cases "\<exists>fresh. verified_binary af net baseURL asset fresh")
  case True
  then obtain fresh where "verified_binary af net baseURL asset fresh" by blast
  then show ?thesis
    by (intro that(2)) (auto simp: verified_binary_def downloadAndReplace_def verifyChecksum_def split: if_splits)
next
  case False
  then show ?thesis
    by (intro that(1))
      (auto simp: verified_binary_def downloadAndReplace_def verifyChecksum_def split: option.splits if_splits)
qed

lemma tmp_not_bak: "dst @ ''.new'' \<noteq> dst" "dst @ ''.bak.'' @ stamp \<noteq> dst" "dst @ ''.new'' \<noteq> dst @ ''.bak.'' @ stamp"
  by auto

lemma swap_binary_spec:
  assumes "fs dst = Some old"
  shows "fst (swap_binary io stamp fresh dst fs) \<Longrightarrow>
      snd (swap_binary io stamp fresh dst fs) dst = Some fresh \<and>
      snd (swap_binary io stamp fresh dst fs) (dst @ ''.bak.'' @ stamp) = Some old"
    and "\<not> fst (swap_binary io stamp fresh dst fs) \<Longrightarrow> sw_restore io \<Longrightarrow>
      snd (swap_binary io stamp fresh dst fs) dst = Some old"
    and "\<not> fst (swap_binary io stamp fresh dst fs) \<Longrightarrow>
      snd (swap_binary io stamp fresh dst fs) dst = Some old \<or>
      snd (swap_binary io stamp fresh dst fs) (dst @ ''.bak.'' @ stamp) = Some old"
  using assms
  by (auto simp: swap_binary_def os_rename_def Let_def split: if_splits)

text \<open>
  C10. An update installs nothing but what the release vouches for and cannot lose the
  working binary.  If the replacement succeeds, the executable is the \<open>a2abridge\<close> member of an
  archive whose SHA-256 is the digest that checksums.txt names for it, and the old binary is in
  the backup.  If it fails, the old binary is in place, provided that a failed swap can rename
  the backup back, and in any case it still exists.
\<close>

theorem update_installs_verified:
  assumes "fs dst = Some old" "downloadAndReplace af net io stamp baseURL asset dst fs = (ok, fs')"
  shows "(ok \<longrightarrow> (\<exists>fresh. verified_binary af net baseURL asset fresh \<and> fs' dst = Some fresh) \<and>
      fs' (dst @ ''.bak.'' @ stamp) = Some old) \<and>
    (\<not> ok \<longrightarrow> (sw_restore io \<longrightarrow> fs' dst = Some old) \<and>
      (fs' dst = Some old \<or> fs' (dst @ ''.bak.'' @ stamp) = Some old))"
proof (rule downloadAndReplace_cases [of af net io stamp baseURL asset dst fs])
  assume "downloadAndReplace af net io stamp baseURL asset dst fs = (False, fs)"
  then show ?thesis using assms by simp
next
  fix fresh
  assume v: "verified_binary af net baseURL asset fresh"
    and "downloadAndReplace af net io stamp baseURL asset dst fs = swap_binary io stamp fresh dst fs"
  then have s: "swap_binary io stamp fresh dst fs = (ok, fs')" using assms(2) by simp
  show ?thesis
    using swap_binary_spec [of fs dst old io stamp fresh, OF assms(1)] v unfolding s by auto
qed

definition demo_formats :: archive_formats where
  "demo_formats = \<lparr>af_untar = (\<lambda>b. Some [Tar_member ''LICENSE'' (Some ''MIT''), Tar_member ''dist/a2abridge'' (Some b)]),
     af_unzip = (\<lambda>_. None), af_sha256 = (\<lambda>b. b)\<rparr>"

definition demo_net :: "string \<Rightarrow> net_answer" where
  "demo_net url =
     (if has_suffix url ''checksums.txt'' then Answer 200 (''4E4557  *a2abridge_2.0.0_linux_amd64.tar.gz'' @ [CHR 0x0A]) False
      else if has_suffix url ''.tar.gz'' then Answer 200 ''NEW'' False else Answer 404 '''' False)"

definition disk_full :: swap_io where
  "disk_full = \<lparr>sw_backup = True, sw_write = False, sw_left = Some ''N'', sw_activate = True, sw_remove = True, sw_restore = True\<rparr>"

definition disk_fine :: swap_io where
  "disk_fine = disk_full\<lparr>sw_write := True\<rparr>"

definition old_files :: files where
  "old_files = [''/bin/a2abridge'' \<mapsto> ''OLD'']"

theorem update_installs_verified_witness:
  "(\<exists>fs'. downloadAndReplace demo_formats demo_net disk_fine ''t'' ''u'' ''a2abridge_2.0.0_linux_amd64.tar.gz'' ''/bin/a2abridge'' old_files = (True, fs') \<and>
      fs' ''/bin/a2abridge.bak.t'' = Some ''OLD'') \<and>
   (\<exists>fs'. downloadAndReplace demo_formats demo_net disk_full ''t'' ''u'' ''a2abridge_2.0.0_linux_amd64.tar.gz'' ''/bin/a2abridge'' old_files = (False, fs') \<and>
      fs' ''/bin/a2abridge'' = Some ''OLD'')"
proof -
  let ?d = "\<lambda>io. downloadAndReplace demo_formats demo_net io ''t'' ''u'' ''a2abridge_2.0.0_linux_amd64.tar.gz'' ''/bin/a2abridge'' old_files"
  have o: "old_files ''/bin/a2abridge'' = Some ''OLD''" by (simp add: old_files_def)
  have r: "fst (?d disk_fine)" "\<not> fst (?d disk_full)" "sw_restore disk_full" by code_simp+
  then have "?d disk_fine = (True, snd (?d disk_fine))" "?d disk_full = (False, snd (?d disk_full))"
    by (simp_all add: prod_eq_iff)
  note a = update_installs_verified [OF o this(1)] and b = update_installs_verified [OF o this(2)]
  show ?thesis
    using a b r by (intro conjI exI [of _ "snd (?d disk_fine)"] exI [of _ "snd (?d disk_full)"]) (auto simp: prod_eq_iff)
qed

text \<open>
  Updating never goes backwards: when \<open>RunUpdate\<close> changes any file, the target is a later
  version than the running one, or one of the two has no numeric core; and with \<open>--check\<close> it
  changes nothing.
\<close>

theorem update_never_downgrades:
  assumes "RunUpdate af net io u fs = (code, fs')" "fs' \<noteq> fs"
  shows "\<not> up_check u \<and>
    (\<exists>target. (up_want u = target \<or> resolveLatestTag net (up_repo u) = Some target) \<and>
      (compareVersions (up_current u) target = None \<or> compareVersions (up_current u) target = Some (-1)))"
proof -
  obtain target where t: "(if up_want u = '''' then resolveLatestTag net (up_repo u) else Some (up_want u)) = Some target"
    using assms by (cases "if up_want u = '''' then resolveLatestTag net (up_repo u) else Some (up_want u)")
      (simp_all only: RunUpdate_def option.case, auto)
  have "\<not> up_check u \<and> compareVersions (up_current u) target \<noteq> Some 0 \<and> compareVersions (up_current u) target \<noteq> Some 1"
    using assms unfolding RunUpdate_def t option.case by (auto split: if_splits)
  moreover have "up_want u = target \<or> resolveLatestTag net (up_repo u) = Some target"
    using t by (simp split: if_splits)
  ultimately show ?thesis using compareVersions_cases [of "up_current u" target] by blast
qed

definition update_call0 :: update_call where
  "update_call0 = \<lparr>up_repo = ''r'', up_want = ''v2.0.0'', up_check = False, up_current = ''1.10.0'', up_goos = ''linux'',
     up_goarch = ''amd64'', up_exe = Some ''/bin/a2abridge'', up_stamp = ''t''\<rparr>"

theorem update_never_downgrades_witness:
  "compareVersions ''1.10.0'' ''v2.0.0'' = Some (-1) \<and>
   snd (RunUpdate demo_formats demo_net disk_fine update_call0 old_files) \<noteq> old_files \<and> \<not> up_check update_call0"
proof -
  let ?r = "RunUpdate demo_formats demo_net disk_fine update_call0 old_files"
  have "snd ?r ''/bin/a2abridge'' = Some ''NEW''" by code_simp
  then have ne: "snd ?r \<noteq> old_files" by (auto simp: old_files_def)
  have "?r = (fst ?r, snd ?r)" by simp
  from update_never_downgrades [OF this ne] have "\<not> up_check update_call0" by blast
  moreover have "compareVersions ''1.10.0'' ''v2.0.0'' = Some (-1)" by code_simp
  ultimately show ?thesis using ne by blast
qed

text \<open>
  The exit code of \<open>update --check\<close> does not answer the question it is documented to
  answer: asked about an explicit older version it exits with 1, the code for a newer version
  being available.
\<close>

theorem check_exit_code_ambiguous:
  "\<exists>u. up_check u \<and> compareVersions (up_current u) (up_want u) = Some 1 \<and> RunUpdate af net io u fs = (1, fs)"
proof -
  let ?u = "\<lparr>up_repo = '''', up_want = ''v1.0.0'', up_check = True, up_current = ''2.0.0'', up_goos = ''linux'',
     up_goarch = ''amd64'', up_exe = None, up_stamp = ''''\<rparr>"
  have "compareVersions ''2.0.0'' ''v1.0.0'' = Some 1" by code_simp
  then show ?thesis by (intro exI [of _ ?u]) (simp add: RunUpdate_def)
qed

end
