(* ===== verification/Bridge_Start.thy ===== *)
theory Bridge_Start
  imports Responder Installer Federation A2A_Server Updater
begin

text \<open>
  internal/cli/bridge.go: how a bridge comes up.  The state directory, the name, the singleton
  lock on the port, the Agent Card, what is told of incoming messages, TLS on both sides, the
  guard of the webhook client and the HTTP handler, in the order of \<open>RunBridge\<close>; a start ends in an exit
  code or in a running bridge.  The flags are taken as parsed; what is logged and the
  background loops, which only call modelled operations, are left out.
\<close>

section \<open>The state directory\<close>

text \<open>
  The outcomes: the working directory, the probe file in it (its name and whether it can be
  removed), the three directory creations, the write of \<open>.gitignore\<close>, the parent's process id.
\<close>

record state_io =
  si_cwd :: "string option"
  si_probe :: "(string \<times> bool) option"
  si_mk_explicit :: "nat option"
  si_mk_cwd :: "nat option"
  si_mk_home :: "nat option"
  si_ignore :: bool
  si_left :: "node option"
  si_ppid :: int

definition ensureStateGitignore :: "host \<Rightarrow> state_io \<Rightarrow> string \<Rightarrow> fsys \<Rightarrow> bool \<times> fsys" where
  "ensureStateGitignore h io dir fs =
     (let p = path_join h [dir, ''.gitignore''] in
      if fs p \<noteq> None then (True, fs) else os_write (si_ignore io) (si_left io) p (''*'' @ [CHR 0x0A]) 384 fs)"

definition writable :: "host \<Rightarrow> state_io \<Rightarrow> string \<Rightarrow> fsys \<Rightarrow> bool \<times> fsys" where
  "writable h io dir fs =
     (case si_probe io of
        None \<Rightarrow> (False, fs)
      | Some (name, removed) \<Rightarrow>
          (True, if removed then fs else fs(path_join h [dir, name] \<mapsto> Plain [] 384)))"

text \<open>The directory with its \<open>.gitignore\<close>; nothing when the command gives up.\<close>

definition with_ignore :: "host \<Rightarrow> state_io \<Rightarrow> string \<Rightarrow> fsys \<Rightarrow> string option \<times> fsys" where
  "with_ignore h io dir fs =
     (case ensureStateGitignore h io dir fs of (ok, fs) \<Rightarrow> (if ok then Some dir else None, fs))"

definition home_state :: "host \<Rightarrow> state_io \<Rightarrow> fsys \<Rightarrow> string option \<times> fsys" where
  "home_state h io fs =
     (case ho_home h of
        None \<Rightarrow> (None, fs)
      | Some home \<Rightarrow>
          (let fallback = path_join h [home, ''.a2abridge'', ''state'', itoa (si_ppid io)] in
           case os_mkdir_all (si_mk_home io) (ancestors (sep h) fallback) fs of
             (False, fs) \<Rightarrow> (None, fs)
           | (True, fs) \<Rightarrow> with_ignore h io fallback fs))"

definition resolveStateDir :: "host \<Rightarrow> state_io \<Rightarrow> string \<Rightarrow> fsys \<Rightarrow> string option \<times> fsys" where
  "resolveStateDir h io explicit fs =
     (if explicit \<noteq> [] then
        (case os_mkdir_all (si_mk_explicit io) (ancestors (sep h) explicit) fs of
           (False, fs) \<Rightarrow> (None, fs)
         | (True, fs) \<Rightarrow> with_ignore h io explicit fs)
      else
        (case si_cwd io of
           None \<Rightarrow> home_state h io fs
         | Some cwd \<Rightarrow>
             (let candidate = path_join h [cwd, ''.a2a''] in
              case writable h io cwd fs of
                (False, fs) \<Rightarrow> home_state h io fs
              | (True, fs) \<Rightarrow>
                  (case os_mkdir_all (si_mk_cwd io) (ancestors (sep h) candidate) fs of
                     (True, fs) \<Rightarrow> with_ignore h io candidate fs
                   | (False, fs) \<Rightarrow> home_state h io fs))))"

section \<open>The name\<close>

text \<open>\<open>ps\<close> is the output of the command for one column, or nothing when it is missing or fails.\<close>

definition last_part :: "string \<Rightarrow> string" where
  "last_part s = rev (takeWhile (\<lambda>c. c \<noteq> CHR ''/'') (rev s))"

definition parentCommand :: "(string \<Rightarrow> string option) \<Rightarrow> string" where
  "parentCommand ps = (case ps ''comm='' of None \<Rightarrow> [] | Some out \<Rightarrow> last_part (trim_space out))"

definition parentTTY :: "(string \<Rightarrow> string option) \<Rightarrow> string" where
  "parentTTY ps = (case ps ''tty='' of None \<Rightarrow> [] | Some out \<Rightarrow> trim_space out)"

definition autoName :: "(string \<Rightarrow> string option) \<Rightarrow> int \<Rightarrow> string" where
  "autoName ps ppid =
     (let parent = parentCommand ps; tty = parentTTY ps;
          base = (if str_contains parent ''claude'' then ''claude''
                  else if str_contains parent ''codex'' then ''codex''
                  else if str_contains parent ''cursor'' then ''cursor''
                  else if str_contains parent ''code'' then ''vscode''
                  else if parent \<noteq> [] then parent
                  else ''agent'');
          suffix = (if tty = [] \<or> tty = ''??'' then ''pid'' @ itoa ppid else trim_prefix tty ''/dev/'')
      in base @ ''-'' @ suffix)"

definition splitCSV :: "string \<Rightarrow> string list" where
  "splitCSV s = (if s = [] then [] else filter (\<lambda>p. p \<noteq> []) (map trim_space (split_char (CHR '','') s)))"

definition envOr :: "(string \<Rightarrow> string) \<Rightarrow> string \<Rightarrow> string \<Rightarrow> string" where
  "envOr getenv k def = (if getenv k \<noteq> [] then getenv k else def)"

record bridge_flags =
  bf_directory :: string
  bf_bind :: string
  bf_advertiseHost :: string
  bf_name :: string
  bf_model :: string
  bf_skills :: string
  bf_id :: string
  bf_stateDir :: string

definition default_flags :: "(string \<Rightarrow> string) \<Rightarrow> (string \<Rightarrow> string option) \<Rightarrow> int \<Rightarrow> bridge_flags" where
  "default_flags getenv ps ppid =
     \<lparr>bf_directory = envOr getenv ''A2A_DIRECTORY'' ''http://127.0.0.1:7777'',
      bf_bind = envOr getenv ''A2A_BIND'' ''127.0.0.1:0'',
      bf_advertiseHost = envOr getenv ''A2A_ADVERTISE_HOST'' ''127.0.0.1'',
      bf_name = envOr getenv ''A2A_NAME'' (autoName ps ppid),
      bf_model = envOr getenv ''A2A_MODEL'' [],
      bf_skills = envOr getenv ''A2A_SKILLS'' [],
      bf_id = envOr getenv ''A2A_ID'' [],
      bf_stateDir = envOr getenv ''A2A_STATE_DIR'' []\<rparr>"

section \<open>The port\<close>

text \<open>The loop gives the port or the exit code, and the time slept in milliseconds.\<close>

datatype listen_answer = Bound nat | In_use | Listen_failed

function bind_loop :: "(nat \<Rightarrow> listen_answer) \<Rightarrow> nat \<Rightarrow> (int + nat) \<times> nat" where
  "bind_loop listen attempt =
     (case listen attempt of
        Bound port \<Rightarrow> (Inr port, 0)
      | Listen_failed \<Rightarrow> (Inl 1, 0)
      | In_use \<Rightarrow>
          if 10 \<le> attempt then (Inl 0, 0)
          else (case bind_loop listen (Suc attempt) of (r, slept) \<Rightarrow> (r, 300 + slept)))"
  by pat_completeness auto

termination
  by (relation "measure (\<lambda>(_, a). 10 - a)") auto

declare bind_loop.simps [simp del]


section \<open>The files of the responder\<close>

text \<open>
  The outcomes of \<open>NewResponder\<close>: the fresh names of the temporary file and directory, and
  whether each later call succeeds; the three files of the directory are written at best.
\<close>

record responder_io =
  ri_file :: "string option"
  ri_write :: bool
  ri_close :: bool
  ri_dir :: "string option"
  ri_auth_read :: bool
  ri_auth_write :: bool
  ri_config :: bool
  ri_agents :: bool
  ri_left :: "node option"

record responder_files =
  rf_emptyMCP :: string
  rf_codexHome :: string

definition codex_config :: string where
  "codex_config =
     [CHR 0x0A] @ ''model_reasoning_effort = '' @ [CHR 0x22] @ ''low'' @ [CHR 0x22] @
     [CHR 0x0A] @ ''approval_policy = '' @ [CHR 0x22] @ ''never'' @ [CHR 0x22] @
     [CHR 0x0A] @ ''sandbox_mode = '' @ [CHR 0x22] @ ''read-only'' @ [CHR 0x22, CHR 0x0A]"

definition empty_mcp :: string where
  "empty_mcp = [CHR 0x7B, CHR 0x22] @ ''mcpServers'' @ [CHR 0x22, CHR 0x3A, CHR 0x7B, CHR 0x7D, CHR 0x7D]"

definition agents_note :: string where
  "agents_note = ''# headless responder '' @ [CHR 0xE2, CHR 0x80, CHR 0x94] @ '' no special rules'' @ [CHR 0x0A]"

definition NewResponder :: "host \<Rightarrow> responder_io \<Rightarrow> string \<Rightarrow> fsys \<Rightarrow> responder_files option \<times> fsys" where
  "NewResponder h io origHome fs =
     (case ri_file io of
        None \<Rightarrow> (None, fs)
      | Some f \<Rightarrow>
          if \<not> ri_write io \<or> \<not> ri_close io then (None, fs(f := None))
          else
            (let fs = fs(f \<mapsto> Plain empty_mcp 384) in
             case ri_dir io of
               None \<Rightarrow> (None, fs(f := None))
             | Some home \<Rightarrow>
                 (let fs = fs(home \<mapsto> Dir);
                      fs = (case os_read (ri_auth_read io) (path_join h (filter (\<lambda>p. p \<noteq> []) [origHome, ''.codex'', ''auth.json''])) fs of
                              None \<Rightarrow> fs
                            | Some b \<Rightarrow> snd (os_write (ri_auth_write io) (ri_left io) (path_join h [home, ''auth.json'']) b 384 fs));
                      fs = snd (os_write (ri_config io) (ri_left io) (path_join h [home, ''config.toml'']) codex_config 384 fs);
                      fs = snd (os_write (ri_agents io) (ri_left io) (path_join h [home, ''AGENTS.md'']) agents_note 384 fs)
                  in (Some \<lparr>rf_emptyMCP = f, rf_codexHome = home\<rparr>, fs))))"

definition Close_responder :: "host \<Rightarrow> responder_files \<Rightarrow> fsys \<Rightarrow> fsys" where
  "Close_responder h r fs =
     (let fs = (if rf_emptyMCP r \<noteq> [] then fs(rf_emptyMCP r := None) else fs)
      in if rf_codexHome r \<noteq> [] then remove_tree (sep h) (rf_codexHome r) fs else fs)"

section \<open>The pieces of a bridge\<close>

record agent_skill =
  as_id :: string
  as_name :: string
  as_description :: string
  as_tags :: "string list"

datatype transport = JSONRPC_transport | HTTPJSON_transport

record bridge_card =
  bc_name :: string
  bc_description :: string
  bc_interfaces :: "(string \<times> transport) list"
  bc_version :: string
  bc_streaming :: bool
  bc_push :: bool
  bc_inputModes :: "string list"
  bc_outputModes :: "string list"
  bc_skills :: "agent_skill list"
  bc_provider :: "string \<times> string"

definition agent_card :: "bridge_flags \<Rightarrow> string \<Rightarrow> string \<Rightarrow> string \<Rightarrow> bridge_card" where
  "agent_card fl cwd version selfURL =
     \<lparr>bc_name = bf_name fl,
      bc_description = ''a2abridge agent ('' @ bf_name fl @ '') at '' @ cwd @
        (if bf_model fl \<noteq> [] then '' | model='' @ bf_model fl else []),
      bc_interfaces = [(selfURL, JSONRPC_transport), (selfURL, HTTPJSON_transport)],
      bc_version = version, bc_streaming = True, bc_push = True,
      bc_inputModes = [''text/plain''], bc_outputModes = [''text/plain''],
      bc_skills = map (\<lambda>sk. \<lparr>as_id = sk, as_name = sk, as_description = ''agent skill: '' @ sk, as_tags = [sk]\<rparr>) (splitCSV (bf_skills fl)),
      bc_provider = (''a2abridge'', ''https://github.com/vbcherepanov/a2abridge'')\<rparr>"

datatype incoming_hook = No_hook | Respond string responder_files | Nudge nudger

definition nudge_hook :: "(string \<Rightarrow> string) \<Rightarrow> host \<Rightarrow> string \<Rightarrow> string \<Rightarrow> incoming_hook" where
  "nudge_hook getenv h tty name =
     (let mode = getenv ''A2A_NUDGE'';
          mode = (if mode = ''auto'' then DetectNudgeMode (getenv ''TMUX'') (ho_goos h) else mode);
          socket = getenv ''A2A_NUDGE_SOCKET''
      in if mode = [] then No_hook
         else if mode = ''dtach'' then
           Nudge (NewDtachNudger
             (if socket = [] then path_join h (filter (\<lambda>p. p \<noteq> []) [getenv ''HOME'', ''.dtach'', name]) else socket))
         else if tty = [] then No_hook
         else Nudge (NewNudger mode tty))"

definition choose_hook ::
  "(string \<Rightarrow> string) \<Rightarrow> host \<Rightarrow> responder_io \<Rightarrow> string \<Rightarrow> string \<Rightarrow> fsys \<Rightarrow> incoming_hook \<times> fsys"
where
  "choose_hook getenv h rio tty name fs =
     (if getenv ''A2A_RESPONDER'' \<noteq> [] then
        (case NewResponder h rio (getenv ''HOME'') fs of
           (None, fs) \<Rightarrow> (No_hook, fs)
         | (Some r, fs) \<Rightarrow> (Respond (getenv ''A2A_RESPONDER'') r, fs))
      else (nudge_hook getenv h tty name, fs))"

text \<open>The dial check of the webhook client that \<open>NewPushSender\<close> builds.\<close>

definition push_dial :: "bool \<Rightarrow> string \<Rightarrow> dial_answer" where
  "push_dial allowPrivateNetworks address = (if \<not> allowPrivateNetworks then guardPushDial address else Dial_ok)"

section \<open>The start\<close>

text \<open>
  The world of a start: environment, outcomes of the system calls, and the parameters of the
  parts (certificates, the encoding of the card and the SDK, the codec of the snapshot).
\<close>

record ('pair, 'ca) bridge_world =
  bw_getenv :: "string \<Rightarrow> string"
  bw_host :: host
  bw_uuid :: string
  bw_ps :: "string \<Rightarrow> string option"
  bw_state :: state_io
  bw_log :: bool
  bw_listen :: "nat \<Rightarrow> listen_answer"
  bw_info :: build_info
  bw_codec :: snapshot_codec
  bw_disk :: disk_io
  bw_responder :: responder_io
  bw_lower :: "string \<Rightarrow> string"
  bw_x509 :: "('pair, 'ca) x509"
  bw_surface :: "bridge_card \<Rightarrow> a2a_surface"

record ('pair, 'ca) bridge =
  br_id :: string
  br_stateDir :: string
  br_port :: nat
  br_selfURL :: string
  br_card :: bridge_card
  br_store :: store
  br_hook :: incoming_hook
  br_clientTLS :: "('pair, 'ca) tls_config option"
  br_allowPrivatePush :: bool
  br_handler :: "(task_id \<Rightarrow> a2a_error + stored_task) \<Rightarrow> string \<Rightarrow> metrics \<Rightarrow> wire_request \<Rightarrow> surface_answer"
  br_serverTLS :: "('pair, 'ca) tls_config option"

definition plain_files :: "fsys \<Rightarrow> string \<Rightarrow> string option" where
  "plain_files fs p = (case fs p of Some (Plain b _) \<Rightarrow> Some b | _ \<Rightarrow> None)"

definition bridge_store :: "('pair, 'ca) bridge_world \<Rightarrow> string \<Rightarrow> fsys \<Rightarrow> store" where
  "bridge_store w dir fs =
     LoadInbox (bw_codec w) (bw_disk w)
       (NewStore\<lparr>inboxPath := path_join (bw_host w) [dir, ''inbox.json''], disk := plain_files fs\<rparr>)"

definition self_url :: "bool \<Rightarrow> string \<Rightarrow> nat \<Rightarrow> string" where
  "self_url tls advertise port = (if tls then ''https'' else ''http'') @ ''://'' @ advertise @ '':'' @ utoa port"

text \<open>What comes after the port is bound; a failure is exit code 1, and the deferred calls close the responder.\<close>

definition close_hook :: "host \<Rightarrow> incoming_hook \<Rightarrow> fsys \<Rightarrow> fsys" where
  "close_hook h told fs = (case told of Respond _ r \<Rightarrow> Close_responder h r fs | _ \<Rightarrow> fs)"

definition bridge_up ::
  "('pair, 'ca) bridge_world \<Rightarrow> bridge_flags \<Rightarrow> string \<Rightarrow> nat \<Rightarrow> fsys \<Rightarrow> (int + ('pair, 'ca) bridge) \<times> fsys"
where
  "bridge_up w fl dir port fs =
     (let fed = FromEnv (bw_getenv w);
          selfURL = self_url (Enabled fed) (bf_advertiseHost fl) port;
          s = bridge_store w dir fs;
          card = agent_card fl (case si_cwd (bw_state w) of Some d \<Rightarrow> d | None \<Rightarrow> []) (bi_Version (bw_info w)) selfURL
      in case choose_hook (bw_getenv w) (bw_host w) (bw_responder w) (parentTTY (bw_ps w)) (bf_name fl) fs of
           (told, fs) \<Rightarrow>
             (case ClientTLSConfig (bw_x509 w) fed of
                Inl _ \<Rightarrow> (Inl 1, close_hook (bw_host w) told fs)
              | Inr clientTLS \<Rightarrow>
                  (case NewA2AHTTPHandler ((bw_surface w card)\<lparr>sf_streaming := bc_streaming card\<rparr>) of
                     None \<Rightarrow> (Inl 1, close_hook (bw_host w) told fs)
                   | Some handler \<Rightarrow>
                       (case (if Enabled fed then map_sum id Some (ServerTLSConfig (bw_lower w) (bw_x509 w) fed) else Inr None) of
                          Inl _ \<Rightarrow> (Inl 1, close_hook (bw_host w) told fs)
                        | Inr serverTLS \<Rightarrow>
                            (Inr \<lparr>br_id = (if bf_id fl = [] then bw_uuid w else bf_id fl), br_stateDir = dir, br_port = port,
                               br_selfURL = selfURL, br_card = card, br_store = s\<lparr>onIncoming := (told \<noteq> No_hook)\<rparr>, br_hook = told,
                               br_clientTLS = clientTLS,
                               br_allowPrivatePush = (\<not> Enabled fed \<or> bw_getenv w ''A2A_PUSH_ALLOW_PRIVATE'' = ''1''),
                               br_handler = handler, br_serverTLS = serverTLS\<rparr>, fs)))))"

text \<open>The log is opened for appending before the port is bound.\<close>

definition open_log :: "host \<Rightarrow> bool \<Rightarrow> string \<Rightarrow> fsys \<Rightarrow> fsys" where
  "open_log h ok dir fs =
     (let p = path_join h [dir, ''bridge.log''] in if ok \<and> fs p = None then fs(p \<mapsto> Plain [] 420) else fs)"

definition RunBridge ::
  "('pair, 'ca) bridge_world \<Rightarrow> bridge_flags \<Rightarrow> fsys \<Rightarrow> (int + ('pair, 'ca) bridge) \<times> fsys"
where
  "RunBridge w fl fs =
     (case resolveStateDir (bw_host w) (bw_state w) (bf_stateDir fl) fs of
        (None, fs) \<Rightarrow> (Inl 1, fs)
      | (Some dir, fs) \<Rightarrow>
          (let fs = open_log (bw_host w) (bw_log w) dir fs in
           case fst (bind_loop (bw_listen w) 0) of
             Inl code \<Rightarrow> (Inl code, fs)
           | Inr port \<Rightarrow> bridge_up w fl dir port fs))"


section \<open>Properties\<close>

lemma bind_loop_spec:
  "a \<le> 10 \<Longrightarrow>
   (fst (bind_loop listen a) = Inl 0 \<longleftrightarrow> (\<forall>i. a \<le> i \<and> i \<le> 10 \<longrightarrow> listen i = In_use)) \<and>
   (fst (bind_loop listen a) = Inr port \<longleftrightarrow> (\<exists>n. a \<le> n \<and> n \<le> 10 \<and> listen n = Bound port \<and> (\<forall>i. a \<le> i \<and> i < n \<longrightarrow> listen i = In_use))) \<and>
   snd (bind_loop listen a) \<le> 300 * (10 - a)"
proof (induction listen a rule: bind_loop.induct)
  case (1 listen a)
  note b = bind_loop.simps [of listen a]
  show ?case
  proof (cases "listen a")
    case (Bound p)
    have "(\<exists>n. a \<le> n \<and> n \<le> 10 \<and> listen n = Bound port \<and> (\<forall>i. a \<le> i \<and> i < n \<longrightarrow> listen i = In_use)) \<longleftrightarrow> p = port"
    proof
      assume "\<exists>n. a \<le> n \<and> n \<le> 10 \<and> listen n = Bound port \<and> (\<forall>i. a \<le> i \<and> i < n \<longrightarrow> listen i = In_use)"
      then obtain n where "a \<le> n" "listen n = Bound port" "a < n \<Longrightarrow> listen a = In_use" by blast
      then show "p = port" using Bound by (cases "a = n") auto
    qed (use Bound 1(2) in auto)
    then show ?thesis using Bound 1(2) b by force
  next
    case In_use
    show ?thesis
    proof (cases "a = 10")
      case True
      then have "i = a" if "a \<le> i" "i \<le> 10" for i using that by simp
      then have "(\<forall>i. a \<le> i \<and> i \<le> 10 \<longrightarrow> listen i = In_use)"
        "\<not> (\<exists>n. a \<le> n \<and> n \<le> 10 \<and> listen n = Bound port \<and> (\<forall>i. a \<le> i \<and> i < n \<longrightarrow> listen i = In_use))"
        using In_use by fastforce+
      moreover have "bind_loop listen a = (Inl 0, 0)" using In_use True b by simp
      ultimately show ?thesis by (metis fst_conv snd_conv sum.distinct(1) zero_le)
    next
      case False
      then have a: "a < 10" using 1(2) by simp
      have all: "(\<forall>i. a \<le> i \<and> i \<le> 10 \<longrightarrow> listen i = In_use) \<longleftrightarrow> (\<forall>i. Suc a \<le> i \<and> i \<le> 10 \<longrightarrow> listen i = In_use)"
        using In_use by (metis Suc_le_eq le_eq_less_or_eq)
      have ex: "(\<exists>n. a \<le> n \<and> n \<le> 10 \<and> listen n = Bound port \<and> (\<forall>i. a \<le> i \<and> i < n \<longrightarrow> listen i = In_use)) \<longleftrightarrow>
          (\<exists>n. Suc a \<le> n \<and> n \<le> 10 \<and> listen n = Bound port \<and> (\<forall>i. Suc a \<le> i \<and> i < n \<longrightarrow> listen i = In_use))"
        using In_use by (metis Suc_le_eq le_eq_less_or_eq listen_answer.distinct(1))
      show ?thesis
        using 1(1) [OF In_use] a In_use b unfolding all ex by (auto split: prod.splits)
    qed
  next
    case Listen_failed
    then have "\<not> (\<forall>i. a \<le> i \<and> i \<le> 10 \<longrightarrow> listen i = In_use)" using 1(2) by force
    moreover have False if "a \<le> n" "listen n = Bound port" "\<forall>i. a \<le> i \<and> i < n \<longrightarrow> listen i = In_use" for n
      using that Listen_failed by (cases "a = n") force+
    moreover have "bind_loop listen a = (Inl 1, 0)" using Listen_failed b by simp
    ultimately show ?thesis by auto
  qed
qed

lemma bridge_up_code: "fst (bridge_up w fl dir port fs) \<noteq> Inl 0"
  by (simp add: bridge_up_def Let_def split: prod.split sum.split option.split)

text \<open>
  C34. The port is a singleton lock: a start exits with code 0 exactly when the state directory
  is usable and all of eleven attempts find the port held by another bridge; it takes the port of
  the first attempt that succeeds, if all earlier ones found it in use; and it never waits
  longer than three seconds for it.
\<close>

theorem bridge_defers_iff:
  "(fst (RunBridge w fl fs) = Inl 0 \<longleftrightarrow>
     fst (resolveStateDir (bw_host w) (bw_state w) (bf_stateDir fl) fs) \<noteq> None \<and> (\<forall>i \<le> 10. bw_listen w i = In_use)) \<and>
   (\<forall>b. fst (RunBridge w fl fs) = Inr b \<longrightarrow>
     (\<exists>n \<le> 10. bw_listen w n = Bound (br_port b) \<and> (\<forall>i < n. bw_listen w i = In_use))) \<and>
   snd (bind_loop (bw_listen w) 0) \<le> 3000"
proof (intro conjI allI impI)
  note spec = bind_loop_spec [of 0 "bw_listen w", simplified]
  show "snd (bind_loop (bw_listen w) 0) \<le> 3000" using spec by simp
  show "fst (RunBridge w fl fs) = Inl 0 \<longleftrightarrow>
      fst (resolveStateDir (bw_host w) (bw_state w) (bf_stateDir fl) fs) \<noteq> None \<and> (\<forall>i \<le> 10. bw_listen w i = In_use)"
    using spec bridge_up_code [of w fl] by (cases "fst (bind_loop (bw_listen w) 0)") (auto simp: RunBridge_def Let_def split: prod.split option.splits)
  show "\<exists>n \<le> 10. bw_listen w n = Bound (br_port b) \<and> (\<forall>i < n. bw_listen w i = In_use)" if r: "fst (RunBridge w fl fs) = Inr b" for b
  proof -
    obtain dir port fs1 where p: "fst (bind_loop (bw_listen w) 0) = Inr port" "fst (bridge_up w fl dir port fs1) = Inr b"
      using r by (auto simp: RunBridge_def Let_def split: prod.splits option.splits sum.splits)
    have "br_port b = port"
      using p(2) by (auto simp: bridge_up_def Let_def split: prod.splits option.splits sum.splits)
    then show ?thesis using spec p(1) by blast
  qed
qed


definition io_ok :: state_io where
  "io_ok = \<lparr>si_cwd = Some ''/w'', si_probe = None, si_mk_explicit = None, si_mk_cwd = None, si_mk_home = None,
     si_ignore = True, si_left = None, si_ppid = 7\<rparr>"

definition world0 :: "(string \<Rightarrow> string) \<Rightarrow> (nat \<Rightarrow> listen_answer) \<Rightarrow> (string, string) bridge_world" where
  "world0 env listen =
     \<lparr>bw_getenv = env, bw_host = \<lparr>ho_goos = ''linux'', ho_home = Some ''/h'', ho_appdata = []\<rparr>, bw_uuid = ''u'',
      bw_ps = (\<lambda>_. None), bw_state = io_ok, bw_log = False, bw_listen = listen,
      bw_info = \<lparr>bi_Version = ''4'', bi_Commit = [], bi_BuildDate = []\<rparr>, bw_codec = snapshot_json, bw_disk = io0,
      bw_responder = \<lparr>ri_file = None, ri_write = True, ri_close = True, ri_dir = None, ri_auth_read = True, ri_auth_write = True,
        ri_config = True, ri_agents = True, ri_left = None\<rparr>,
      bw_lower = to_lower, bw_x509 = ca_file, bw_surface = (\<lambda>_. surface0)\<rparr>"

definition flags0 :: bridge_flags where
  "flags0 = (default_flags (\<lambda>_. []) (\<lambda>_. None) 7)\<lparr>bf_stateDir := ''/s''\<rparr>"

lemma state0: "fst (resolveStateDir (bw_host (world0 env listen)) (bw_state (world0 env listen)) (bf_stateDir flags0) Map.empty) = Some ''/s''"
proof -
  have "fst (resolveStateDir \<lparr>ho_goos = ''linux'', ho_home = Some ''/h'', ho_appdata = []\<rparr> io_ok ''/s'' (\<lambda>_. None)) = Some ''/s''"
    by code_simp
  then show ?thesis by (simp add: world0_def flags0_def)
qed

theorem bridge_defers_iff_witness:
  "fst (RunBridge (world0 (\<lambda>_. []) (\<lambda>_. In_use)) flags0 Map.empty) = Inl 0"
  using bridge_defers_iff [of "world0 (\<lambda>_. []) (\<lambda>_. In_use)" flags0 Map.empty] state0 [of "\<lambda>_. []" "\<lambda>_. In_use"]
  by (simp add: world0_def)



definition fed_env :: "string \<Rightarrow> string" where
  "fed_env n =
     (if n = ''A2A_PEER_ALLOW'' then ''Bob, eve'' else if n = ''A2A_TRUST_ROOTS'' then ''ca.pem''
      else if n \<in> {''A2A_TLS_CERT'', ''A2A_TLS_KEY''} then ''x'' else [])"

lemma fed_env_config:
  "fc_trustRoots (FromEnv fed_env) = [''ca.pem'']" "fc_peerAllow (FromEnv fed_env) = [''Bob'', ''eve'']" "Enabled (FromEnv fed_env)"
  by code_simp+

lemma fed_bridge_runs: "\<exists>b fs'. RunBridge (world0 fed_env (\<lambda>_. Bound 80)) flags0 Map.empty = (Inr b, fs')"
proof -
  let ?w = "world0 fed_env (\<lambda>_. Bound 80)"
  obtain fs1 where s: "resolveStateDir (bw_host ?w) (bw_state ?w) (bf_stateDir flags0) Map.empty = (Some ''/s'', fs1)"
    using state0 [of fed_env "\<lambda>_. Bound 80"] by (metis prod.collapse)
  have p: "fst (bind_loop (bw_listen ?w) 0) = Inr 80" by (simp add: world0_def bind_loop.simps)
  have e: "fed_env ''A2A_RESPONDER'' = []" by (simp add: fed_env_def)
  have "\<exists>b fs'. bridge_up ?w flags0 ''/s'' 80 fs = (Inr b, fs')" for fs
    using fed_env_config e
    by (simp add: bridge_up_def world0_def choose_hook_def ClientTLSConfig_def ServerTLSConfig_def ca_file_def
        NewA2AHTTPHandler_def surface0_def Let_def)
  then show ?thesis unfolding RunBridge_def s prod.case option.case Let_def p sum.case by simp
qed

definition bob :: peer_cert where
  "bob = \<lparr>pc_commonName = ''BOB'', pc_dnsNames = [], pc_ips = []\<rparr>"


text \<open>The directory comes with a \<open>.gitignore\<close>, and one that is there is kept.\<close>

lemma with_ignore_spec:
  assumes "with_ignore h io dir fs = (Some d, fs')"
  shows "d = dir" "fs' (path_join h [d, ''.gitignore'']) \<noteq> None" "fs p = Some n \<Longrightarrow> fs' p = Some n"
  using assms
  by (auto simp: with_ignore_def ensureStateGitignore_def os_write_def Let_def split: if_splits prod.splits)

lemma mkdir_keeps: "os_mkdir_all stop ps fs = (ok, fs') \<Longrightarrow> fs p = Some n \<Longrightarrow> fs' p = Some n"
  by (auto simp: os_mkdir_all_def make_dirs_def Let_def)

lemma home_state_spec:
  assumes "home_state h io fs = (Some d, fs')"
  shows "fs' (path_join h [d, ''.gitignore'']) \<noteq> None" "fs p = Some n \<Longrightarrow> fs' p = Some n"
    "ho_home h \<noteq> None \<and> d = in_home h [''.a2abridge'', ''state'', itoa (si_ppid io)]"
proof -
  obtain home fs1 where s: "ho_home h = Some home" "with_ignore h io (path_join h [home, ''.a2abridge'', ''state'', itoa (si_ppid io)]) fs1 = (Some d, fs')"
      "os_mkdir_all (si_mk_home io) (ancestors (sep h) (path_join h [home, ''.a2abridge'', ''state'', itoa (si_ppid io)])) fs = (True, fs1)"
    using assms by (auto simp: home_state_def Let_def split: option.splits prod.splits bool.splits)
  note w = with_ignore_spec [OF s(2)]
  show "fs' (path_join h [d, ''.gitignore'']) \<noteq> None" by (rule w(2))
  show "fs' p = Some n" if "fs p = Some n" by (rule w(3) [OF mkdir_keeps [OF s(3) that]])
  show "ho_home h \<noteq> None \<and> d = in_home h [''.a2abridge'', ''state'', itoa (si_ppid io)]" using s(1) w(1) by (simp add: in_home_def)
qed


text \<open>
  C49. The state directory is the one asked for, else \<open>.a2a\<close> in the working directory, else one
  under the home directory; it has a \<open>.gitignore\<close>, and no file that was there before is
  changed or removed, the user's own \<open>.gitignore\<close> included.
\<close>

theorem state_dir_safe:
  assumes "resolveStateDir h io explicit fs = (Some d, fs')"
    and "\<And>cwd name. si_cwd io = Some cwd \<Longrightarrow> si_probe io = Some (name, False) \<Longrightarrow> fs (path_join h [cwd, name]) = None"
  shows "fs' (path_join h [d, ''.gitignore'']) \<noteq> None \<and> (\<forall>p n. fs p = Some n \<longrightarrow> fs' p = Some n) \<and>
    (if explicit \<noteq> [] then d = explicit
     else (\<exists>cwd. si_cwd io = Some cwd \<and> d = path_join h [cwd, ''.a2a'']) \<or> d = in_home h [''.a2abridge'', ''state'', itoa (si_ppid io)])"
proof (cases "explicit = []")
  case False
  then obtain fs1 where m: "os_mkdir_all (si_mk_explicit io) (ancestors (sep h) explicit) fs = (True, fs1)"
      "with_ignore h io explicit fs1 = (Some d, fs')"
    using assms(1) by (auto simp: resolveStateDir_def split: prod.splits bool.splits)
  then show ?thesis using False with_ignore_spec [OF m(2)] mkdir_keeps [OF m(1)] by auto
next
  case True
  show ?thesis
  proof (cases "home_state h io fs = (Some d, fs')")
    case H: True
    then show ?thesis using True home_state_spec [OF H] by auto
  next
    case False
    then obtain cwd ok fs1 where c: "si_cwd io = Some cwd" "writable h io cwd fs = (True, fs1)"
      using True assms(1) by (cases "si_cwd io"; cases "si_probe io") (auto simp: resolveStateDir_def writable_def)
    have k: "fs p = Some n \<Longrightarrow> fs1 p = Some n" for p n
      using c(2) assms(2) [OF c(1)] by (auto simp: writable_def split: option.splits prod.splits if_splits)
    obtain ok fs2 where m: "os_mkdir_all (si_mk_cwd io) (ancestors (sep h) (path_join h [cwd, ''.a2a''])) fs1 = (ok, fs2)" by fastforce
    note k2 = mkdir_keeps [OF m k]
    show ?thesis
    proof (cases ok)
      case ok: True
      then have w: "with_ignore h io (path_join h [cwd, ''.a2a'']) fs2 = (Some d, fs')"
        using True assms(1) c m by (simp add: resolveStateDir_def Let_def)
      show ?thesis using True c(1) with_ignore_spec [OF w] k2 by auto
    next
      case bad: False
      then have w: "home_state h io fs2 = (Some d, fs')"
        using True assms(1) c m by (simp add: resolveStateDir_def Let_def)
      show ?thesis using True home_state_spec [OF w] k2 by auto
    qed
  qed
qed

theorem state_dir_safe_witness:
  "\<exists>fs'. resolveStateDir \<lparr>ho_goos = ''linux'', ho_home = Some ''/h'', ho_appdata = []\<rparr> io_ok ''/s''
      [''/s/.gitignore'' \<mapsto> Plain ''!keep'' 420] = (Some ''/s'', fs') \<and> fs' ''/s/.gitignore'' = Some (Plain ''!keep'' 420)"
proof -
  let ?h = "\<lparr>ho_goos = ''linux'', ho_home = Some ''/h'', ho_appdata = []\<rparr>" and ?fs = "[''/s/.gitignore'' \<mapsto> Plain ''!keep'' 420]"
  have "fst (resolveStateDir ?h io_ok ''/s'' ?fs) = Some ''/s''" by code_simp
  then obtain fs' where r: "resolveStateDir ?h io_ok ''/s'' ?fs = (Some ''/s'', fs')" by (metis prod.collapse)
  have "\<forall>p n. ?fs p = Some n \<longrightarrow> fs' p = Some n"
    using state_dir_safe [OF r] by (simp add: io_ok_def)
  then show ?thesis using r by simp
qed

section \<open>The responder cleans up\<close>

lemma os_write_outside: "snd (os_write ok left p data mode fs) q = (if q = p then snd (os_write ok left p data mode fs) p else fs q)"
  by (simp add: os_write_def)

lemma in_dir_under: "under (sep h) home (path_join h [home, x])"
  by (simp add: under_def path_join_def)

lemma write_in_dir: "\<not> under (sep h) home q \<Longrightarrow> snd (os_write ok left (path_join h [home, x]) data mode fs) q = fs q"
  using in_dir_under [of h home x] by (subst os_write_outside) auto

text \<open>
  The responder leaves nothing behind: a failed preparation removes what it made, and
  closing a prepared responder restores the file system, if the temporary names were free.
\<close>

theorem responder_leaves_nothing:
  assumes "NewResponder h io origHome fs = (r, fs')"
    and "\<And>f. ri_file io = Some f \<Longrightarrow> f \<noteq> [] \<and> fs f = None"
    and "\<And>home q. ri_dir io = Some home \<Longrightarrow> home \<noteq> [] \<and> (under (sep h) home q \<longrightarrow> fs q = None)"
  shows "(case r of None \<Rightarrow> fs' | Some x \<Rightarrow> Close_responder h x fs') = fs"
proof (cases r)
  case None
  then show ?thesis
    using assms(1,2) by (auto simp: NewResponder_def Let_def fun_upd_idem split: option.splits if_splits)
next
  case (Some x)
  then obtain f home where f: "ri_file io = Some f" "ri_dir io = Some home" "x = \<lparr>rf_emptyMCP = f, rf_codexHome = home\<rparr>"
    using assms(1) by (auto simp: NewResponder_def Let_def split: option.splits if_splits)
  have fresh: "f \<noteq> []" "fs f = None" "home \<noteq> []" "\<And>q. under (sep h) home q \<Longrightarrow> fs q = None"
    using assms(2,3) f by auto
  have "fs' q = (if q = f then Some (Plain empty_mcp 384) else fs q)" if "\<not> under (sep h) home q" for q
  proof -
    have "q \<noteq> home" using that by (auto simp: under_def)
    then show ?thesis
      using assms(1) that Some f by (auto simp: NewResponder_def Let_def write_in_dir split: option.splits if_splits)
  qed
  then show ?thesis
    using Some f fresh by (auto simp: Close_responder_def remove_tree_def fun_eq_iff)
qed

definition rio0 :: responder_io where
  "rio0 = \<lparr>ri_file = Some ''/tmp/m'', ri_write = True, ri_close = True, ri_dir = Some ''/tmp/c'', ri_auth_read = True,
     ri_auth_write = True, ri_config = True, ri_agents = False, ri_left = Some (Plain [] 384)\<rparr>"

theorem responder_leaves_nothing_witness:
  "\<exists>x fs'. NewResponder \<lparr>ho_goos = ''linux'', ho_home = None, ho_appdata = []\<rparr> rio0 ''/h'' Map.empty = (Some x, fs') \<and>
     Close_responder \<lparr>ho_goos = ''linux'', ho_home = None, ho_appdata = []\<rparr> x fs' = Map.empty"
proof -
  let ?h = "\<lparr>ho_goos = ''linux'', ho_home = None, ho_appdata = []\<rparr>"
  obtain x fs' where r: "NewResponder ?h rio0 ''/h'' Map.empty = (Some x, fs')"
    by (simp add: NewResponder_def rio0_def Let_def)
  show ?thesis using r responder_leaves_nothing [OF r] by (simp add: rio0_def)
qed

end
