(* ===== verification/Bridge_Run.thy ===== *)
theory Bridge_Run
  imports Bridge_Start
begin

text \<open>
  internal/cli/bridge.go from the first goroutine to the exit, with internal/cli/pdeathsig_linux.go,
  \<open>Heartbeat\<close> of internal/agent/mcp.go and the directory it talks to: the running bridge as a step
  relation over its goroutines and a clock.

  A goroutine that has something to do does it before the clock moves; a call with a deadline
  ends at any time up to it.  What requests and tools do to the store are the steps of the store,
  what they do to the webhook queues the steps of the push sender.  A request to the directory
  arrives or is lost, and either way the call returns later.

  Shown: the bridge ends within six seconds of the end of its host, with its port released at
  once; the shutdown cannot get stuck; a bridge that never loses two heartbeats in a row stays
  listed; and the bridge does not wait for its removal from the directory.
\<close>

section \<open>State\<close>

definition shutdownTimeout :: duration where
  "shutdownTimeout = 3 * second_d"

definition directoryRequestTimeout :: duration where
  "directoryRequestTimeout = 5 * second_d"

definition heartbeatInterval :: duration where
  "heartbeatInterval = 30 * second_d"

definition unregisterTimeout :: duration where
  "unregisterTimeout = 2 * second_d"

datatype main_pc = Main_wait | Main_shutdown duration | Main_drain duration | Main_abort | Main_exited

datatype beat_pc = Beat_start | Beat_post dir_route duration | Beat_wait | Beat_ended

text \<open>
  \<open>rn_stopped\<close>, \<open>rn_eof\<close>, \<open>rn_died\<close>: when the context was cancelled, standard input closed, the
  host ended.  History: when a request last reached the directory, how many were lost since, and the
  most that were ever lost in a row.
\<close>

record running =
  rn_clock :: duration
  rn_stopped :: "duration option"
  rn_eof :: "duration option"
  rn_died :: "duration option"
  rn_armed :: bool
  rn_port :: bool
  rn_serving :: bool
  rn_stdio :: bool
  rn_main :: main_pc
  rn_beat :: beat_pc
  rn_tick :: duration
  rn_dir :: registry
  rn_world :: world
  rn_push :: sender
  rn_hook :: incoming_hook
  rn_fs :: fsys
  rn_last :: "duration option"
  rn_missed :: nat
  rn_worst :: nat

abbreviation clock_time :: "running \<Rightarrow> gotime" where
  "clock_time r \<equiv> \<lparr>unix_nano = rn_clock r, zone_off = 0\<rparr>"

definition stop_bridge :: "running \<Rightarrow> running" where
  "stop_bridge r = (if rn_stopped r = None then r\<lparr>rn_stopped := Some (rn_clock r)\<rparr> else r)"

text \<open>
  \<open>ppid1\<close>: the parent is gone already.  When the signal cannot be armed, and on the other systems,
  nothing happens.
\<close>

definition setParentDeathSignal :: "string \<Rightarrow> bool \<Rightarrow> bool \<Rightarrow> running \<Rightarrow> running" where
  "setParentDeathSignal goos prctl ppid1 r =
     (if goos \<noteq> ''linux'' \<or> \<not> prctl then r
      else if ppid1 then stop_bridge r
      else r\<lparr>rn_armed := True\<rparr>)"

text \<open>The state in which \<open>RunBridge\<close> has launched its goroutines, around a directory that may know other agents.\<close>

definition running0 :: "duration \<Rightarrow> registry \<Rightarrow> ('pair, 'ca) bridge \<Rightarrow> fsys \<Rightarrow> running" where
  "running0 now dir b fs =
     \<lparr>rn_clock = now, rn_stopped = None, rn_eof = None, rn_died = None, rn_armed = False, rn_port = True, rn_serving = True,
      rn_stdio = True, rn_main = Main_wait, rn_beat = Beat_start, rn_tick = 0, rn_dir = dir,
      rn_world = \<lparr>w_store = br_store b, w_flight = [], w_tracked = []\<rparr>, rn_push = NewPushSender,
      rn_hook = br_hook b, rn_fs = fs, rn_last = None, rn_missed = 0, rn_worst = 0\<rparr>"

section \<open>The goroutines\<close>

text \<open>\<open>Serve\<close> returns an error of its own; it closes the listener on its way out.\<close>

definition serve_fails :: "running \<Rightarrow> running option" where
  "serve_fails r =
     (if rn_serving r \<and> rn_port r then Some (stop_bridge (r\<lparr>rn_serving := False, rn_port := False\<rparr>)) else None)"

definition serve_closed :: "running \<Rightarrow> running option" where
  "serve_closed r = (if rn_serving r \<and> \<not> rn_port r then Some (r\<lparr>rn_serving := False\<rparr>) else None)"

text \<open>\<open>ServeStdio\<close> returns at the end of the input or with an error; the bridge stops either way.\<close>

definition stdio_returns :: "running \<Rightarrow> running option" where
  "stdio_returns r = (if rn_stdio r then Some (stop_bridge (r\<lparr>rn_stdio := False\<rparr>)) else None)"

text \<open>
  The body of \<open>Heartbeat\<close>.  A tick that is due when the context is done would be a request that
  fails at once, so the end of the context is taken first.
\<close>

definition beat_next :: "running \<Rightarrow> running option" where
  "beat_next r =
     (case rn_beat r of
        Beat_start \<Rightarrow> Some (r\<lparr>rn_beat := Beat_post POST_register (rn_clock r + directoryRequestTimeout)\<rparr>)
      | Beat_wait \<Rightarrow>
          if rn_stopped r \<noteq> None then
            Some (r\<lparr>rn_beat := Beat_post POST_unregister (rn_clock r + unregisterTimeout)\<rparr>)
          else if rn_tick r \<le> rn_clock r then
            Some (r\<lparr>rn_beat := Beat_post POST_heartbeat (rn_clock r + directoryRequestTimeout),
                    rn_tick := rn_tick r + heartbeatInterval\<rparr>)
          else None
      | _ \<Rightarrow> None)"

text \<open>
  The end of a request.  A request that arrives is served, and the call then returns at once; one
  that does not is given up, at the latest at its deadline.
\<close>

definition beat_return :: "url_parser \<Rightarrow> string \<Rightarrow> bool \<Rightarrow> running \<Rightarrow> running option" where
  "beat_return parse selfURL arrives r =
     (case rn_beat r of
        Beat_post route t \<Rightarrow>
          (let r = (if arrives
                    then r\<lparr>rn_dir := serve_event parse (Request (clock_time r) route (heartbeat_body selfURL)) (rn_dir r),
                           rn_last := Some (rn_clock r), rn_missed := 0\<rparr>
                    else r\<lparr>rn_missed := Suc (rn_missed r), rn_worst := max (rn_worst r) (Suc (rn_missed r))\<rparr>)
           in Some (case route of
                      POST_unregister \<Rightarrow> r\<lparr>rn_beat := Beat_ended\<rparr>
                    | POST_register \<Rightarrow> r\<lparr>rn_beat := Beat_wait, rn_tick := rn_clock r + heartbeatInterval\<rparr>
                    | _ \<Rightarrow> r\<lparr>rn_beat := Beat_wait\<rparr>))
      | _ \<Rightarrow> None)"

text \<open>
  The end of \<open>RunBridge\<close>: \<open>Shutdown\<close> closes the listener first and waits for the connections;
  then \<open>Close\<close> of the push sender, whose own wait is cut by a second deadline, after which the
  deliveries are aborted; then the deferred calls.
\<close>

definition workers_gone :: "sender \<Rightarrow> bool" where
  "workers_gone s = list_all (\<lambda>w. wk_pc w = Exited) (sn_spawned s)"

definition bridge_exits :: "host \<Rightarrow> running \<Rightarrow> running" where
  "bridge_exits h r =
     r\<lparr>rn_push := close_cancel (rn_push r), rn_fs := close_hook h (rn_hook r) (rn_fs r), rn_main := Main_exited\<rparr>"

definition main_next :: "host \<Rightarrow> running \<Rightarrow> running option" where
  "main_next h r =
     (case rn_main r of
        Main_wait \<Rightarrow>
          if rn_stopped r = None then None
          else Some (r\<lparr>rn_port := False, rn_main := Main_shutdown (rn_clock r + shutdownTimeout)\<rparr>)
      | Main_shutdown t \<Rightarrow>
          Some (r\<lparr>rn_push := close_queues (rn_push r), rn_main := Main_drain (rn_clock r + shutdownTimeout)\<rparr>)
      | Main_drain t \<Rightarrow>
          if workers_gone (rn_push r) then Some (bridge_exits h r)
          else if t \<le> rn_clock r then Some (r\<lparr>rn_push := close_cancel (rn_push r), rn_main := Main_abort\<rparr>)
          else None
      | Main_abort \<Rightarrow> if workers_gone (rn_push r) then Some (bridge_exits h r) else None
      | Main_exited \<Rightarrow> None)"

text \<open>Time passes while every goroutine waits, and up to the next deadline.\<close>

definition can_wait :: "duration \<Rightarrow> running \<Rightarrow> bool" where
  "can_wait d r =
     ((case rn_main r of
         Main_wait \<Rightarrow> rn_stopped r = None
       | Main_shutdown t \<Rightarrow> rn_clock r + d \<le> t
       | Main_drain t \<Rightarrow> rn_clock r + d \<le> t
       | _ \<Rightarrow> False) \<and>
      (case rn_beat r of
         Beat_start \<Rightarrow> False
       | Beat_post route t \<Rightarrow> rn_clock r + d \<le> t \<and> (route \<noteq> POST_unregister \<longrightarrow> rn_stopped r = None)
       | Beat_wait \<Rightarrow> rn_stopped r = None \<and> rn_clock r + d \<le> rn_tick r
       | Beat_ended \<Rightarrow> True) \<and>
      \<not> (rn_stdio r \<and> rn_eof r \<noteq> None))"

section \<open>Steps\<close>

inductive bridge_act ::
  "sdk \<Rightarrow> snapshot_codec \<Rightarrow> (event \<Rightarrow> string option) \<Rightarrow> url_parser \<Rightarrow> host \<Rightarrow> string \<Rightarrow> running \<Rightarrow> running \<Rightarrow> bool"
  for k cd enc parse h selfURL
where
  act_time: "0 < d \<Longrightarrow> can_wait d r \<Longrightarrow> bridge_act k cd enc parse h selfURL r (r\<lparr>rn_clock := rn_clock r + d\<rparr>)"
| act_signal: "bridge_act k cd enc parse h selfURL r (stop_bridge r)"
| act_host_dies: "rn_died r = None \<Longrightarrow> bridge_act k cd enc parse h selfURL r
    ((if rn_armed r then stop_bridge r else r)\<lparr>rn_died := Some (rn_clock r)\<rparr>)"
| act_eof: "rn_eof r = None \<Longrightarrow> bridge_act k cd enc parse h selfURL r (r\<lparr>rn_eof := Some (rn_clock r)\<rparr>)"
| act_serve_fails: "serve_fails r = Some r' \<Longrightarrow> bridge_act k cd enc parse h selfURL r r'"
| act_serve_closed: "serve_closed r = Some r' \<Longrightarrow> bridge_act k cd enc parse h selfURL r r'"
| act_stdio: "stdio_returns r = Some r' \<Longrightarrow> bridge_act k cd enc parse h selfURL r r'"
| act_beat: "beat_next r = Some r' \<Longrightarrow> bridge_act k cd enc parse h selfURL r r'"
| act_beat_return: "beat_return parse selfURL arrives r = Some r' \<Longrightarrow> bridge_act k cd enc parse h selfURL r r'"
| act_main: "main_next h r = Some r' \<Longrightarrow> bridge_act k cd enc parse h selfURL r r'"
| act_store: "store_step k cd (rn_world r) w \<Longrightarrow> bridge_act k cd enc parse h selfURL r (r\<lparr>rn_world := w\<rparr>)"
| act_event: "bridge_act k cd enc parse h selfURL r (r\<lparr>rn_push := SendPush k enc heap config ev (rn_push r)\<rparr>)"
| act_worker: "i < length (sn_spawned (rn_push r)) \<Longrightarrow> run url_ok env idle i (rn_push r) = Some s \<Longrightarrow>
    bridge_act k cd enc parse h selfURL r (r\<lparr>rn_push := s\<rparr>)"
| act_collect: "bridge_act k cd enc parse h selfURL r (r\<lparr>rn_dir := gc (clock_time r) (rn_dir r)\<rparr>)"
| act_others: "u \<noteq> selfURL \<Longrightarrow> op = Reg t u \<or> op = Unreg u \<Longrightarrow>
    bridge_act k cd enc parse h selfURL r (r\<lparr>rn_dir := apply_op op (rn_dir r)\<rparr>)"

text \<open>After the exit there is no process.\<close>

definition bridge_step where
  "bridge_step k cd enc parse h selfURL r r' = (rn_main r \<noteq> Main_exited \<and> bridge_act k cd enc parse h selfURL r r')"

abbreviation bridge_steps where
  "bridge_steps k cd enc parse h selfURL \<equiv> (bridge_step k cd enc parse h selfURL)\<^sup>*\<^sup>*"

inductive_cases bridge_actE: "bridge_act k cd enc parse h selfURL r r'"

lemmas act_defs = stop_bridge_def serve_fails_def serve_closed_def stdio_returns_def beat_next_def beat_return_def
  main_next_def bridge_exits_def Let_def

lemmas time_consts = shutdownTimeout_def directoryRequestTimeout_def heartbeatInterval_def unregisterTimeout_def second_d_def

section \<open>The shutdown is timely\<close>

definition stop_ok :: "running \<Rightarrow> bool" where
  "stop_ok r =
     (case rn_stopped r of
        None \<Rightarrow> rn_main r = Main_wait
      | Some c \<Rightarrow> c \<le> rn_clock r \<and>
          (case rn_main r of
             Main_wait \<Rightarrow> rn_clock r = c
           | Main_shutdown t \<Rightarrow> \<not> rn_port r \<and> rn_clock r \<le> t \<and> t \<le> c + 3 * second_d
           | Main_drain t \<Rightarrow> \<not> rn_port r \<and> rn_clock r \<le> t \<and> t \<le> c + 6 * second_d
           | _ \<Rightarrow> \<not> rn_port r \<and> rn_clock r \<le> c + 6 * second_d))"

definition cause_ok :: "running \<Rightarrow> bool" where
  "cause_ok r =
     ((case rn_eof r of
         None \<Rightarrow> True
       | Some e \<Rightarrow> e \<le> rn_clock r \<and> ((\<exists>c. rn_stopped r = Some c \<and> c \<le> e) \<or> rn_clock r = e \<and> rn_stdio r)) \<and>
      (rn_stdio r \<or> rn_stopped r \<noteq> None) \<and>
      (case rn_died r of
         None \<Rightarrow> True
       | Some t \<Rightarrow> rn_armed r \<longrightarrow> (\<exists>c. rn_stopped r = Some c \<and> c \<le> t)))"

text \<open>What a step leaves alone of the fields that the shutdown is about.\<close>

definition same_course :: "running \<Rightarrow> running \<Rightarrow> bool" where
  "same_course r r' =
     (rn_clock r' = rn_clock r \<and> rn_stopped r' = rn_stopped r \<and> rn_eof r' = rn_eof r \<and> rn_died r' = rn_died r \<and>
      rn_armed r' = rn_armed r \<and> rn_port r' = rn_port r \<and> rn_stdio r' = rn_stdio r \<and> rn_main r' = rn_main r)"

lemma beat_course:
  "beat_next r = Some r' \<Longrightarrow> same_course r r'" "beat_return parse selfURL a r = Some r' \<Longrightarrow> same_course r r'"
  "serve_closed r = Some r' \<Longrightarrow> same_course r r'"
  by (auto simp: same_course_def beat_next_def beat_return_def serve_closed_def Let_def
      split: beat_pc.splits if_splits dir_route.splits)

lemma bridge_act_cases:
  assumes "bridge_act k cd enc parse h selfURL r r'"
  obtains (time) d where "0 < d" "can_wait d r" "r' = r\<lparr>rn_clock := rn_clock r + d\<rparr>"
    | (stop) "r' = stop_bridge r"
    | (dies) "rn_died r = None" "r' = (if rn_armed r then stop_bridge r else r)\<lparr>rn_died := Some (rn_clock r)\<rparr>"
    | (eof) "rn_eof r = None" "r' = r\<lparr>rn_eof := Some (rn_clock r)\<rparr>"
    | (fails) "serve_fails r = Some r'"
    | (stdio) "stdio_returns r = Some r'"
    | (main) "main_next h r = Some r'"
    | (other) "same_course r r'"
  using assms
proof cases
  case (act_time d)
  with time show ?thesis by blast
next
  case act_signal
  with stop show ?thesis by blast
next
  case act_host_dies
  with dies show ?thesis by blast
next
  case act_eof
  with eof show ?thesis by blast
next
  case act_serve_fails
  with fails show ?thesis by blast
next
  case act_stdio
  with stdio show ?thesis by blast
next
  case act_main
  with main show ?thesis by blast
next
  case act_serve_closed
  with other beat_course(3) show ?thesis by blast
next
  case act_beat
  with other beat_course(1) show ?thesis by blast
next
  case (act_beat_return arrives)
  with other beat_course(2) show ?thesis by blast
qed (rule other, simp add: same_course_def)+

lemma stop_ok_stop: "stop_ok r \<Longrightarrow> stop_ok (stop_bridge r)"
  by (auto simp: stop_ok_def stop_bridge_def split: option.split)

lemma stop_ok_cong:
  "stop_ok r \<Longrightarrow> rn_clock r' = rn_clock r \<Longrightarrow> rn_stopped r' = rn_stopped r \<Longrightarrow> rn_main r' = rn_main r \<Longrightarrow>
   (rn_port r' \<Longrightarrow> rn_port r) \<Longrightarrow> stop_ok r'"
  by (auto simp: stop_ok_def split: option.splits main_pc.splits)

lemma stop_ok_time: "stop_ok r \<Longrightarrow> 0 < d \<Longrightarrow> can_wait d r \<Longrightarrow> stop_ok (r\<lparr>rn_clock := rn_clock r + d\<rparr>)"
  by (cases "rn_stopped r"; cases "rn_main r") (auto simp: stop_ok_def can_wait_def)

lemma stop_ok_main: "stop_ok r \<Longrightarrow> main_next h r = Some r' \<Longrightarrow> stop_ok r'"
  by (cases "rn_stopped r"; cases "rn_main r")
     (auto simp: stop_ok_def main_next_def bridge_exits_def shutdownTimeout_def second_d_def split: if_splits)

lemma stop_ok_step: "bridge_act k cd enc parse h selfURL r r' \<Longrightarrow> stop_ok r \<Longrightarrow> stop_ok r'"
proof (erule bridge_act_cases)
  assume ok: "stop_ok r"
  show "stop_ok r'" if "serve_fails r = Some r'"
    using that stop_ok_stop [OF stop_ok_cong [OF ok, of "r\<lparr>rn_serving := False, rn_port := False\<rparr>"]]
    by (simp add: serve_fails_def split: if_splits)
  show "stop_ok r'" if "stdio_returns r = Some r'"
    using that stop_ok_stop [OF stop_ok_cong [OF ok, of "r\<lparr>rn_stdio := False\<rparr>"]]
    by (auto simp: stdio_returns_def split: if_splits)
  show "stop_ok r'" if "r' = (if rn_armed r then stop_bridge r else r)\<lparr>rn_died := Some (rn_clock r)\<rparr>"
    using that stop_ok_stop [OF ok] ok
    by (auto intro: stop_ok_cong simp: stop_bridge_def)
  show "stop_ok r'" if "same_course r r'"
    by (rule stop_ok_cong [OF ok]) (use that in \<open>simp_all add: same_course_def\<close>)
qed (auto intro: stop_ok_time stop_ok_stop stop_ok_main stop_ok_cong)

lemma stop_past: "stop_ok r \<Longrightarrow> rn_stopped r = Some c \<Longrightarrow> c \<le> rn_clock r"
  by (simp add: stop_ok_def)

lemma cause_ok_stop: "cause_ok r \<Longrightarrow> cause_ok (stop_bridge r)"
  by (auto simp: cause_ok_def stop_bridge_def split: option.splits)

lemma cause_ok_cong: "cause_ok r \<Longrightarrow> same_course r r' \<Longrightarrow> cause_ok r'"
  by (auto simp: cause_ok_def same_course_def split: option.splits)

lemma main_cause:
  "main_next h r = Some r' \<Longrightarrow> rn_clock r' = rn_clock r \<and> rn_stopped r' = rn_stopped r \<and> rn_eof r' = rn_eof r \<and>
     rn_died r' = rn_died r \<and> rn_armed r' = rn_armed r \<and> rn_stdio r' = rn_stdio r"
  by (auto simp: main_next_def bridge_exits_def split: main_pc.splits if_splits)

lemma cause_ok_step:
  "bridge_act k cd enc parse h selfURL r r' \<Longrightarrow> stop_ok r \<Longrightarrow> cause_ok r \<Longrightarrow> cause_ok r'"
proof (erule bridge_act_cases)
  assume ok: "stop_ok r" "cause_ok r"
  show "cause_ok r'" if "0 < d" "can_wait d r" "r' = r\<lparr>rn_clock := rn_clock r + d\<rparr>" for d
    using that ok(2) by (auto simp: cause_ok_def can_wait_def split: option.splits)
  show "cause_ok r'" if "rn_died r = None" "r' = (if rn_armed r then stop_bridge r else r)\<lparr>rn_died := Some (rn_clock r)\<rparr>"
    using that ok stop_past [OF ok(1)] by (cases "rn_stopped r") (auto simp: cause_ok_def stop_bridge_def split: option.splits)
  show "cause_ok r'" if "rn_eof r = None" "r' = r\<lparr>rn_eof := Some (rn_clock r)\<rparr>"
    using that ok stop_past [OF ok(1)] by (cases "rn_stopped r") (auto simp: cause_ok_def split: option.splits)
  show "cause_ok r'" if "stdio_returns r = Some r'"
    using that ok stop_past [OF ok(1)]
    by (cases "rn_stopped r") (auto simp: cause_ok_def stdio_returns_def stop_bridge_def split: option.splits if_splits)
  show "cause_ok r'" if "serve_fails r = Some r'"
    using that cause_ok_stop [of "r\<lparr>rn_serving := False, rn_port := False\<rparr>"] ok(2)
    by (auto simp: serve_fails_def cause_ok_def split: if_splits option.splits)
  show "cause_ok r'" if "main_next h r = Some r'"
    using main_cause [OF that] ok(2) by (auto simp: cause_ok_def split: option.splits)
qed (auto intro: cause_ok_stop cause_ok_cong)

definition bridge_ok :: "running \<Rightarrow> bool" where
  "bridge_ok r = (stop_ok r \<and> cause_ok r)"

lemma bridge_ok_steps:
  "bridge_steps k cd enc parse h selfURL r r' \<Longrightarrow> bridge_ok r \<Longrightarrow> bridge_ok r'"
  by (induction rule: rtranclp_induct)
     (auto simp: bridge_step_def bridge_ok_def intro: stop_ok_step cause_ok_step)

lemma bridge_ok_start: "bridge_ok (setParentDeathSignal goos prctl ppid1 (running0 now dir b fs))"
  by (simp add: bridge_ok_def stop_ok_def cause_ok_def setParentDeathSignal_def running0_def stop_bridge_def)

section \<open>The shutdown gets through\<close>

text \<open>Only the push sender's own operations change the push sender, and once drained it is closed.\<close>

definition drain_ok :: "running \<Rightarrow> bool" where
  "drain_ok r =
     (push_ok (rn_push r) \<and>
      (case rn_main r of Main_drain _ \<Rightarrow> sn_closed (rn_push r) | Main_abort \<Rightarrow> sn_closed (rn_push r) | _ \<Rightarrow> True))"

lemma close_queues_closed: "sn_closed (close_queues s)"
  by (simp add: close_queues_def)

lemma send_closed: "sn_closed (SendPush k enc heap config ev s) = sn_closed s"
  by (auto simp: SendPush_def enqueue_def spawn_def Let_def split: option.split)

lemma run_closed: "run url_ok env idle i s = Some t \<Longrightarrow> sn_closed t = sn_closed s"
  by (auto simp: run_def set_pc_def retire_def deliverJob_def Let_def split: worker_pc.splits if_splits list.splits prod.splits)

lemma cancel_ok: "sn_closed s \<Longrightarrow> push_ok s \<Longrightarrow> push_ok (close_cancel s)"
  using push_step_ok [OF step_cancel] by blast

lemma cancel_closed: "sn_closed (close_cancel s) = sn_closed s"
  by (simp add: close_cancel_def)

lemma main_drain_ok: "main_next h r = Some r' \<Longrightarrow> drain_ok r \<Longrightarrow> drain_ok r'"
  by (auto simp: drain_ok_def main_next_def bridge_exits_def close_queues_ok close_queues_closed cancel_ok
      cancel_closed split: main_pc.splits if_splits)

lemma stop_push: "rn_push (stop_bridge r) = rn_push r" "rn_main (stop_bridge r) = rn_main r"
  by (simp_all add: stop_bridge_def)

lemma other_push:
  "serve_fails r = Some r' \<Longrightarrow> rn_push r' = rn_push r \<and> rn_main r' = rn_main r"
  "serve_closed r = Some r' \<Longrightarrow> rn_push r' = rn_push r \<and> rn_main r' = rn_main r"
  "stdio_returns r = Some r' \<Longrightarrow> rn_push r' = rn_push r \<and> rn_main r' = rn_main r"
  "beat_next r = Some r' \<Longrightarrow> rn_push r' = rn_push r \<and> rn_main r' = rn_main r"
  "beat_return parse selfURL a r = Some r' \<Longrightarrow> rn_push r' = rn_push r \<and> rn_main r' = rn_main r"
  by (auto simp: act_defs split: if_splits beat_pc.splits dir_route.splits)

lemma drain_ok_cong: "drain_ok r \<Longrightarrow> rn_push r' = rn_push r \<and> rn_main r' = rn_main r \<Longrightarrow> drain_ok r'"
  by (simp add: drain_ok_def split: main_pc.splits)


lemma drain_ok_push:
  "drain_ok r \<Longrightarrow> push_ok s \<Longrightarrow> sn_closed s = sn_closed (rn_push r) \<Longrightarrow> drain_ok (r\<lparr>rn_push := s\<rparr>)"
  by (simp add: drain_ok_def split: main_pc.splits)

lemma drain_ok_send: "drain_ok r \<Longrightarrow> drain_ok (r\<lparr>rn_push := SendPush k enc heap config ev (rn_push r)\<rparr>)"
  by (rule drain_ok_push) (simp_all add: SendPush_ok send_closed drain_ok_def)

lemma drain_ok_step: "bridge_act k cd enc parse h selfURL r r' \<Longrightarrow> drain_ok r \<Longrightarrow> drain_ok r'"
proof (erule bridge_act.cases)
  assume ok: "drain_ok r"
  then have p: "push_ok (rn_push r)" by (simp add: drain_ok_def)
  fix ra r'' i url_ok env idle s
  assume "r = ra" "r' = ra\<lparr>rn_push := s\<rparr>" "i < length (sn_spawned (rn_push ra))" "run url_ok env idle i (rn_push ra) = Some s"
  then show "drain_ok r'"
    using drain_ok_push [OF ok] run_closed push_step_ok [OF step_run p] by blast
qed (auto intro: drain_ok_cong main_drain_ok dest: other_push simp: stop_push drain_ok_send)

lemma drain_ok_steps: "bridge_steps k cd enc parse h selfURL r r' \<Longrightarrow> drain_ok r \<Longrightarrow> drain_ok r'"
  by (induction rule: rtranclp_induct) (auto simp: bridge_step_def intro: drain_ok_step)

text \<open>The workers of a closed sender run to their end, whatever the main goroutine waits for.\<close>

lemma workers_finish:
  assumes "push_ok s" "sn_closed s"
  shows "\<exists>t. drain_step\<^sup>*\<^sup>* s t \<and> workers_gone t"
  using assms
proof (induction "work s" arbitrary: s rule: less_induct)
  case less
  show ?case
  proof (cases "\<exists>u. drain_step s u")
    case True
    then obtain u where u: "drain_step s u" by blast
    then have "push_ok u" "sn_closed u"
      using push_step_ok [OF drain_is_step [OF u]] drain_frame [OF u] less.prems by simp_all
    with less.hyps [OF drain_work [OF u]] obtain t where "drain_step\<^sup>*\<^sup>* u t" "workers_gone t" by blast
    with u show ?thesis by (meson converse_rtranclp_into_rtranclp)
  next
    case False
    then have "\<not> live (sn_spawned s ! i)" if "i < length (sn_spawned s)" for i
      using drain_enabled [OF less.prems that] by blast
    then have "workers_gone s" by (simp add: workers_gone_def list_all_length live_def)
    then show ?thesis by blast
  qed
qed

lemma workers_bridge:
  assumes "drain_step\<^sup>*\<^sup>* (rn_push r) s" "rn_main r \<noteq> Main_exited"
  shows "bridge_steps k cd enc parse h selfURL r (r\<lparr>rn_push := s\<rparr>)"
  using assms(1)
proof (induction rule: rtranclp_induct)
  case (step t u)
  have "bridge_step k cd enc parse h selfURL (r\<lparr>rn_push := t\<rparr>) (r\<lparr>rn_push := u\<rparr>)"
    using step.hyps(2) assms(2) act_worker [of _ "r\<lparr>rn_push := t\<rparr>" _ _ _ u]
    by (auto simp: drain_step_def bridge_step_def)
  with step.IH show ?case by (rule rtranclp.rtrancl_into_rtrancl)
qed simp

lemma main_moves:
  "main_next h r = Some r' \<Longrightarrow> bridge_steps k cd enc parse h selfURL r r'"
  by (rule r_into_rtranclp) (auto simp: bridge_step_def main_next_def intro: act_main [unfolded main_next_def])

lemma drained_exits:
  assumes "drain_ok r" "rn_main r = Main_drain t \<or> rn_main r = Main_abort"
  shows "\<exists>r'. bridge_steps k cd enc parse h selfURL r r' \<and> rn_main r' = Main_exited"
proof -
  have "push_ok (rn_push r)" "sn_closed (rn_push r)" using assms by (auto simp: drain_ok_def)
  from workers_finish [OF this] obtain s where s: "drain_step\<^sup>*\<^sup>* (rn_push r) s" "workers_gone s" by blast
  let ?r = "r\<lparr>rn_push := s\<rparr>"
  have "bridge_steps k cd enc parse h selfURL r ?r"
    using workers_bridge [OF s(1)] assms(2) by auto
  moreover have "main_next h ?r = Some (bridge_exits h ?r)"
    using assms(2) s(2) by (auto simp: main_next_def)
  ultimately show ?thesis
    using main_moves [of h ?r] by (intro exI [of _ "bridge_exits h ?r"]) (auto simp: bridge_exits_def intro: rtranclp_trans)
qed

lemma stopped_exits:
  assumes "drain_ok r" "rn_stopped r \<noteq> None"
  shows "\<exists>r'. bridge_steps k cd enc parse h selfURL r r' \<and> rn_main r' = Main_exited"
proof -
  have closing: "\<exists>r'. bridge_steps k cd enc parse h selfURL r r' \<and> rn_main r' = Main_exited"
    if ok: "drain_ok r" and sh: "rn_main r = Main_shutdown t" for r t
  proof -
    obtain r' where n: "main_next h r = Some r'" "rn_main r' = Main_drain (rn_clock r + shutdownTimeout)"
      using sh by (simp add: main_next_def)
    then show ?thesis
      using drained_exits [OF main_drain_ok [OF n(1) ok], of _ k cd enc parse h selfURL] main_moves [OF n(1)]
      by (meson rtranclp_trans)
  qed
  show ?thesis
  proof (cases "rn_main r")
    case Main_wait
    obtain r' where n: "main_next h r = Some r'" "rn_main r' = Main_shutdown (rn_clock r + shutdownTimeout)"
      using Main_wait assms(2) by (simp add: main_next_def)
    then show ?thesis
      using closing [OF main_drain_ok [OF n(1) assms(1)] n(2)] main_moves [OF n(1)] by (meson rtranclp_trans)
  next
    case Main_exited
    then show ?thesis by blast
  qed (use closing [OF assms(1)] drained_exits [OF assms(1)] in auto)
qed

lemma drain_ok_start: "drain_ok (setParentDeathSignal goos prctl ppid1 (running0 now dir b fs))"
  by (simp add: drain_ok_def setParentDeathSignal_def running0_def stop_bridge_def new_sender_ok)

text \<open>The event that stops the bridge at \<open>t\<close>, which later steps do not undo.\<close>

definition ends_at :: "running \<Rightarrow> duration \<Rightarrow> bool" where
  "ends_at r t = (rn_stopped r = Some t \<or> rn_eof r = Some t \<or> rn_armed r \<and> rn_died r = Some t)"

lemma ends_at_step: "bridge_act k cd enc parse h selfURL r r' \<Longrightarrow> ends_at r t \<Longrightarrow> ends_at r' t"
  by (erule bridge_act_cases)
     (auto simp: ends_at_def stop_bridge_def serve_fails_def stdio_returns_def same_course_def dest: main_cause
       split: if_splits)

lemma ends_at_steps: "bridge_steps k cd enc parse h selfURL r r' \<Longrightarrow> ends_at r t \<Longrightarrow> ends_at r' t"
  by (induction rule: rtranclp_induct) (auto simp: bridge_step_def intro: ends_at_step)

lemma ends_soon:
  "bridge_ok r \<Longrightarrow> ends_at r t \<Longrightarrow> rn_clock r \<le> t + 6 * second_d \<and> (t < rn_clock r \<longrightarrow> \<not> rn_port r)"
  by (cases "rn_stopped r"; cases "rn_main r")
     (auto simp: ends_at_def bridge_ok_def stop_ok_def cause_ok_def second_d_def)

lemma ending_exits:
  assumes "bridge_ok r" "drain_ok r" "ends_at r t"
  shows "\<exists>r'. bridge_steps k cd enc parse h selfURL r r' \<and> rn_main r' = Main_exited"
proof (cases "rn_stopped r")
  case None
  then have io: "rn_stdio r" "rn_main r = Main_wait"
    using assms(1,3) by (auto simp: ends_at_def bridge_ok_def stop_ok_def cause_ok_def split: option.splits)
  obtain r1 where r1: "stdio_returns r = Some r1" "rn_stopped r1 \<noteq> None"
    using io by (auto simp: stdio_returns_def stop_bridge_def)
  have "bridge_step k cd enc parse h selfURL r r1"
    using act_stdio [OF r1(1)] io(2) by (simp add: bridge_step_def)
  moreover have "drain_ok r1" using drain_ok_cong [OF assms(2)] other_push(3) [OF r1(1)] by blast
  ultimately show ?thesis
    using stopped_exits [OF _ r1(2), of k cd enc parse h selfURL] by (meson converse_rtranclp_into_rtranclp)
qed (use stopped_exits [OF assms(2)] in simp)

section \<open>Properties of the shutdown\<close>


definition bridge0 :: "(string, string) bridge" where
  "bridge0 = projr (fst (RunBridge (Bridge_Start.world0 fed_env (\<lambda>_. Bound 80)) flags0 Map.empty))"

definition up0 :: running where
  "up0 = setParentDeathSignal ''linux'' True False (running0 0 New bridge0 Map.empty)"

definition host_gone :: running where
  "host_gone = (stop_bridge up0)\<lparr>rn_died := Some 0\<rparr>"

lemma host_gone_reached: "bridge_steps sdk0 snapshot_json enc0 parse h u up0 host_gone"
  using act_host_dies [of up0]
  by (intro r_into_rtranclp) (simp add: bridge_step_def up0_def host_gone_def setParentDeathSignal_def running0_def)


section \<open>The heartbeat\<close>

text \<open>
  While the bridge runs: the timer is never overdue, a request started with the last tick, and the
  directory's entry is the last request that arrived, which is not older than the requests lost since allow.
\<close>

definition fresh_entry :: "string \<Rightarrow> running \<Rightarrow> bool" where
  "fresh_entry u r =
     (case rn_last r of
        None \<Rightarrow> True
      | Some l \<Rightarrow> rn_worst r \<le> 1 \<longrightarrow>
          seen (rn_dir r) u = Some \<lparr>unix_nano = l, zone_off = 0\<rparr> \<and>
          rn_tick r \<le> l + (35 + 30 * (int (rn_missed r) + (if rn_beat r = Beat_wait then 0 else 1))) * second_d)"

definition beat_ok :: "string \<Rightarrow> running \<Rightarrow> bool" where
  "beat_ok u r =
     (registry_ok (rn_dir r) \<and> rn_missed r \<le> rn_worst r \<and> fresh_entry u r \<and>
      (case rn_beat r of
         Beat_start \<Rightarrow> rn_last r = None
       | Beat_wait \<Rightarrow> rn_clock r \<le> rn_tick r
       | Beat_post route t \<Rightarrow>
           if route = POST_heartbeat
           then rn_clock r \<le> t \<and> t = rn_tick r - 25 * second_d \<and> rn_tick r \<le> rn_clock r + 30 * second_d
           else route = POST_register \<and> rn_last r = None
       | Beat_ended \<Rightarrow> False))"

text \<open>A running bridge's entry is never old enough to be collected.\<close>

lemma entry_age:
  assumes "beat_ok u r" "rn_last r = Some l" "rn_worst r \<le> 1"
  shows "rn_clock r \<le> l + 70 * second_d"
proof -
  have "int (rn_missed r) \<le> 1" using assms(1,3) by (simp add: beat_ok_def)
  then show ?thesis
    using assms
    by (cases "rn_beat r") (auto simp: beat_ok_def fresh_entry_def second_d_def split: if_splits)
qed

lemma beat_ok_collect:
  assumes "beat_ok u r"
  shows "beat_ok u (r\<lparr>rn_dir := gc (clock_time r) (rn_dir r)\<rparr>)"
proof -
  have reg: "registry_ok (rn_dir r)" using assms by (simp add: beat_ok_def)
  have "seen (gc (clock_time r) (rn_dir r)) u = seen (rn_dir r) u"
    if "rn_last r = Some l" "rn_worst r \<le> 1" for l
  proof -
    have "seen (rn_dir r) u = Some \<lparr>unix_nano = l, zone_off = 0\<rparr>"
      using assms that by (simp add: beat_ok_def fresh_entry_def)
    moreover have "rn_clock r \<le> l + 90 * second_d"
      using entry_age [OF assms that] by (simp add: second_d_def)
    ultimately show ?thesis
      using seen_apply(3) [OF reg, of "clock_time r" u] by (simp add: time_before_def time_add_def)
  qed
  then show ?thesis
    using assms apply_op_ok [OF reg, of "Collect (clock_time r)"]
    by (auto simp: beat_ok_def fresh_entry_def split: option.splits beat_pc.splits if_splits)
qed

lemma beat_ok_others:
  assumes "beat_ok u r" "v \<noteq> u" "op = Reg t v \<or> op = Unreg v"
  shows "beat_ok u (r\<lparr>rn_dir := apply_op op (rn_dir r)\<rparr>)"
proof -
  have reg: "registry_ok (rn_dir r)" using assms by (simp add: beat_ok_def)
  have "seen (apply_op op (rn_dir r)) u = seen (rn_dir r) u"
    using assms(2,3) seen_apply(1,2) [OF reg] by metis
  then show ?thesis
    using assms(1) apply_op_ok [OF reg, of op]
    by (auto simp: beat_ok_def fresh_entry_def split: option.splits beat_pc.splits if_splits)
qed

lemma beat_ok_time:
  "beat_ok u r \<Longrightarrow> rn_stopped r = None \<Longrightarrow> 0 < d \<Longrightarrow> can_wait d r \<Longrightarrow> beat_ok u (r\<lparr>rn_clock := rn_clock r + d\<rparr>)"
  by (cases "rn_beat r") (auto simp: beat_ok_def fresh_entry_def can_wait_def split: option.splits)

lemma beat_ok_next: "beat_ok u r \<Longrightarrow> rn_stopped r = None \<Longrightarrow> beat_next r = Some r' \<Longrightarrow> beat_ok u r'"
  by (cases "rn_beat r"; cases "rn_last r")
     (auto simp: beat_ok_def fresh_entry_def beat_next_def time_consts algebra_simps split: if_splits)

lemma beat_ok_return:
  assumes "beat_ok u r" "rn_stopped r = None" "beat_return parse u a r = Some r'"
    and "valid_utf8 u" "validAgentURL parse u"
  shows "beat_ok u r'"
proof -
  have reg: "registry_ok (rn_dir r)" using assms by (simp add: beat_ok_def)
  note posted = heartbeat_accepted(1,2) [OF assms(4,5), of "clock_time r" "rn_dir r"]
    apply_op_ok [OF reg, of "Reg (clock_time r) u"] seen_apply(1) [OF reg, of "clock_time r" u u]
  obtain route t where b: "rn_beat r = Beat_post route t"
    using assms(3) by (auto simp: beat_return_def split: beat_pc.splits)
  consider (beat) "route = POST_heartbeat" | (reg) "route = POST_register" "rn_last r = None"
    using assms(1) b by (auto simp: beat_ok_def split: if_splits)
  then show ?thesis
  proof cases
    case beat
    then show ?thesis
      using assms(1,3) b posted
      by (cases a; cases "rn_last r")
         (auto simp: beat_ok_def fresh_entry_def beat_return_def Let_def time_consts algebra_simps simp del: serve_event.simps apply_op.simps)
  next
    case reg
    then show ?thesis
      using assms(1,3) b posted
      by (cases a)
         (auto simp: beat_ok_def fresh_entry_def beat_return_def Let_def time_consts algebra_simps simp del: serve_event.simps apply_op.simps)
  qed
qed

text \<open>What the heartbeat and the directory see of the other steps.\<close>

definition same_beat :: "running \<Rightarrow> running \<Rightarrow> bool" where
  "same_beat r r' =
     (rn_dir r' = rn_dir r \<and> rn_clock r' = rn_clock r \<and> rn_beat r' = rn_beat r \<and> rn_tick r' = rn_tick r \<and>
      rn_last r' = rn_last r \<and> rn_missed r' = rn_missed r \<and> rn_worst r' = rn_worst r)"

lemma beat_act_cases:
  assumes "bridge_act k cd enc parse h selfURL r r'"
  obtains (time) d where "0 < d" "can_wait d r" "r' = r\<lparr>rn_clock := rn_clock r + d\<rparr>"
    | (beat) "beat_next r = Some r'"
    | (returned) a where "beat_return parse selfURL a r = Some r'"
    | (collect) "r' = r\<lparr>rn_dir := gc (clock_time r) (rn_dir r)\<rparr>"
    | (others) v op t where "v \<noteq> selfURL" "op = Reg t v \<or> op = Unreg v" "r' = r\<lparr>rn_dir := apply_op op (rn_dir r)\<rparr>"
    | (stops) "rn_stopped r' \<noteq> None"
    | (idle) "same_beat r r'"
  using assms
proof cases
  case (act_time d)
  with time show ?thesis by blast
next
  case act_signal
  show ?thesis by (rule stops) (simp add: act_signal stop_bridge_def)
next
  case act_host_dies
  then show ?thesis
    by (cases "rn_armed r") (rule stops, simp add: stop_bridge_def, rule idle, simp add: same_beat_def)
next
  case act_serve_fails
  show ?thesis by (rule stops) (use act_serve_fails in \<open>auto simp: serve_fails_def stop_bridge_def split: if_splits\<close>)
next
  case act_stdio
  show ?thesis by (rule stops) (use act_stdio in \<open>auto simp: stdio_returns_def stop_bridge_def split: if_splits\<close>)
next
  case act_beat
  with beat show ?thesis by blast
next
  case act_beat_return
  with returned show ?thesis by blast
next
  case act_collect
  with collect show ?thesis by blast
next
  case act_others
  with others show ?thesis by blast
next
  case act_main
  show ?thesis
    by (rule idle)
       (use act_main in \<open>auto simp: same_beat_def main_next_def bridge_exits_def split: main_pc.splits if_splits\<close>)
next
  case act_serve_closed
  show ?thesis by (rule idle) (use act_serve_closed in \<open>auto simp: same_beat_def serve_closed_def split: if_splits\<close>)
next
  case act_eof
  show ?thesis by (rule idle) (simp add: act_eof same_beat_def)
next
  case act_store
  show ?thesis by (rule idle) (simp add: act_store same_beat_def)
next
  case act_event
  show ?thesis by (rule idle) (simp add: act_event same_beat_def)
next
  case act_worker
  show ?thesis by (rule idle) (simp add: act_worker(1) same_beat_def)
qed

lemma beat_ok_idle: "beat_ok u r \<Longrightarrow> same_beat r r' \<Longrightarrow> beat_ok u r'"
  by (auto simp: same_beat_def beat_ok_def fresh_entry_def split: option.splits beat_pc.splits if_splits)

lemma stays_stopped: "bridge_act k cd enc parse h selfURL r r' \<Longrightarrow> rn_stopped r \<noteq> None \<Longrightarrow> rn_stopped r' \<noteq> None"
  by (erule bridge_act_cases)
     (auto simp: stop_bridge_def serve_fails_def stdio_returns_def same_course_def dest: main_cause split: if_splits)

lemma beat_ok_step:
  assumes "bridge_act k cd enc parse h u r r'" "valid_utf8 u" "validAgentURL parse u"
    and "rn_stopped r = None \<Longrightarrow> beat_ok u r" "rn_stopped r' = None"
  shows "beat_ok u r'"
proof -
  have st: "rn_stopped r = None" using stays_stopped [OF assms(1)] assms(5) by blast
  with assms(4) have ok: "beat_ok u r" by blast
  from assms(1) show ?thesis
  proof (cases rule: beat_act_cases)
    case (returned a)
    then show ?thesis using beat_ok_return [OF ok st _ assms(2,3)] by blast
  next
    case idle
    then show ?thesis by (rule beat_ok_idle [OF ok])
  qed (use beat_ok_time [OF ok st] beat_ok_next [OF ok st] beat_ok_collect [OF ok] beat_ok_others [OF ok] assms(5) in auto)
qed

lemma beat_ok_steps:
  assumes "bridge_steps k cd enc parse h u r r'" "valid_utf8 u" "validAgentURL parse u"
    and "rn_stopped r = None \<Longrightarrow> beat_ok u r"
  shows "rn_stopped r' = None \<Longrightarrow> beat_ok u r'"
  using assms(1)
proof (induction rule: rtranclp_induct)
  case (step y z)
  then show ?case using beat_ok_step [OF _ assms(2,3), of k cd enc h y z] by (simp add: bridge_step_def)
qed (use assms(4) in simp)

text \<open>
  C5. A running bridge stays in the directory.  From the first of its requests that arrives, and as
  long as it is not told to stop and never loses two requests in a row, it is listed, whatever the
  other agents do and whenever the collector runs; the entry is at most 70 seconds old, the time to
  live being 90.
\<close>

theorem heartbeat_keeps_listed:
  assumes "bridge_steps k cd enc parse h selfURL (setParentDeathSignal goos prctl ppid1 (running0 now dir b fs)) r"
    and "registry_ok dir" "valid_utf8 selfURL" "validAgentURL parse selfURL"
    and "rn_stopped r = None" "rn_last r = Some l" "rn_worst r \<le> 1"
  shows "seen (rn_dir r) selfURL = Some \<lparr>unix_nano = l, zone_off = 0\<rparr> \<and> rn_clock r \<le> l + 70 * second_d"
proof -
  have "beat_ok selfURL (setParentDeathSignal goos prctl ppid1 (running0 now dir b fs))"
    using assms(2)
    by (simp add: beat_ok_def fresh_entry_def setParentDeathSignal_def running0_def stop_bridge_def)
  then have ok: "beat_ok selfURL r" using beat_ok_steps [OF assms(1,3,4)] assms(5) by blast
  then show ?thesis using entry_age [OF ok assms(6,7)] assms(6,7) by (simp add: beat_ok_def fresh_entry_def)
qed

definition me_url :: string where
  "me_url = ''http://me:80''"

definition parse_me :: url_parser where
  "parse_me raw = (if raw = me_url then Some (''http'', ''me:80'') else None)"

lemma me_valid: "valid_utf8 me_url" "validAgentURL parse_me me_url"
  by (simp_all add: me_url_def valid_utf8_ascii byte_of_def validAgentURL_def parse_me_def)

text \<open>The first request, as far as its arrival.\<close>

definition registered :: "url_parser \<Rightarrow> string \<Rightarrow> running \<Rightarrow> running" where
  "registered parse u r =
     r\<lparr>rn_dir := serve_event parse (Request (clock_time r) POST_register (heartbeat_body u)) (rn_dir r),
       rn_last := Some (rn_clock r), rn_missed := 0, rn_beat := Beat_wait, rn_tick := rn_clock r + heartbeatInterval\<rparr>"

lemma step_alive: "bridge_act k cd enc parse h u r r' \<Longrightarrow> rn_main r \<noteq> Main_exited \<Longrightarrow> bridge_steps k cd enc parse h u r r'"
  by (auto simp: bridge_step_def)

lemma registered_reached:
  assumes "rn_beat r = Beat_start" "rn_main r \<noteq> Main_exited"
  shows "bridge_steps k cd enc parse h u r (registered parse u r)"
proof -
  let ?r = "r\<lparr>rn_beat := Beat_post POST_register (rn_clock r + directoryRequestTimeout)\<rparr>"
  have "bridge_steps k cd enc parse h u r ?r"
    using assms by (intro step_alive act_beat) (simp_all add: beat_next_def)
  moreover have "bridge_steps k cd enc parse h u ?r (registered parse u r)"
    using assms
    by (intro step_alive act_beat_return [of parse u True])
       (simp_all add: beat_return_def registered_def Let_def del: serve_event.simps)
  ultimately show ?thesis by (rule rtranclp_trans)
qed

theorem heartbeat_keeps_listed_witness:
  "seen (rn_dir (registered parse_me me_url up0)) me_url = Some \<lparr>unix_nano = 0, zone_off = 0\<rparr> \<and>
   rn_stopped (registered parse_me me_url up0) = None"
proof -
  have up: "rn_beat up0 = Beat_start" "rn_main up0 = Main_wait" "rn_clock up0 = 0" "rn_stopped up0 = None" "rn_worst up0 = 0"
    by (simp_all add: up0_def setParentDeathSignal_def running0_def)
  from registered_reached [OF up(1), where k = sdk0 and cd = snapshot_json and enc = enc0 and parse = parse_me
      and h = linux_host and u = me_url] up(2)
  have "bridge_steps sdk0 snapshot_json enc0 parse_me linux_host me_url up0 (registered parse_me me_url up0)" by simp
  from heartbeat_keeps_listed [OF this [unfolded up0_def], folded up0_def, OF New_ok me_valid, of 0] up(3-5)
  show ?thesis by (simp add: registered_def)
qed

text \<open>
  C37. The bridge does not wait for its removal from the directory.  From every start there is a run
  in which the directory serves every request, the bridge is told to stop and exits while the
  request to unregister is on its way, and the directory lists the dead bridge for as long as 90
  seconds after.
\<close>

theorem exit_leaves_registration:
  assumes "registry_ok dir" "valid_utf8 selfURL" "validAgentURL parse selfURL"
  shows "\<exists>r. bridge_steps k cd enc parse h selfURL (running0 now dir b fs) r \<and> rn_main r = Main_exited \<and> rn_worst r = 0 \<and>
    (\<exists>t. rn_beat r = Beat_post POST_unregister t) \<and>
    (\<forall>t \<le> rn_clock r + 90 * second_d. seen (gc \<lparr>unix_nano = t, zone_off = 0\<rparr> (rn_dir r)) selfURL \<noteq> None)"
proof -
  let ?steps = "bridge_steps k cd enc parse h selfURL"
  let ?r0 = "running0 now dir b fs"
  let ?r1 = "registered parse selfURL ?r0"
  let ?r2 = "stop_bridge ?r1"
  let ?r3 = "?r2\<lparr>rn_beat := Beat_post POST_unregister (now + unregisterTimeout)\<rparr>"
  let ?r4 = "?r3\<lparr>rn_port := False, rn_main := Main_shutdown (now + shutdownTimeout)\<rparr>"
  let ?r5 = "?r4\<lparr>rn_push := close_queues NewPushSender, rn_main := Main_drain (now + shutdownTimeout)\<rparr>"
  have s0: "?steps ?r0 ?r1" by (rule registered_reached) (simp_all add: running0_def)
  have s1: "?steps ?r1 ?r2" by (rule step_alive [OF act_signal]) (simp add: registered_def running0_def)
  have s2: "?steps ?r2 ?r3"
    by (intro step_alive act_beat) (simp_all add: beat_next_def stop_bridge_def registered_def running0_def)
  have s3: "?steps ?r3 ?r4"
    by (rule main_moves) (simp add: main_next_def stop_bridge_def registered_def running0_def)
  have s4: "?steps ?r4 ?r5"
    by (rule main_moves) (simp add: main_next_def stop_bridge_def registered_def running0_def)
  have s5: "?steps ?r5 (bridge_exits h ?r5)"
    by (rule main_moves) (simp add: main_next_def workers_gone_def close_queues_def NewPushSender_def)
  have run: "?steps ?r0 (bridge_exits h ?r5)"
    by (rule rtranclp_trans [OF s0 rtranclp_trans [OF s1 rtranclp_trans [OF s2
          rtranclp_trans [OF s3 rtranclp_trans [OF s4 s5]]]]])
  have dir: "rn_dir (bridge_exits h ?r5) = apply_op (Reg \<lparr>unix_nano = now, zone_off = 0\<rparr> selfURL) dir"
    using heartbeat_accepted(1) [OF assms(2,3)]
    by (simp add: bridge_exits_def stop_bridge_def registered_def running0_def del: serve_event.simps)
  have "seen (rn_dir (bridge_exits h ?r5)) selfURL = Some \<lparr>unix_nano = now, zone_off = 0\<rparr>"
    unfolding dir by (simp only: seen_apply(1) [OF assms(1)] simp_thms if_True)
  moreover have "registry_ok (rn_dir (bridge_exits h ?r5))"
    using apply_op_ok [OF assms(1)] by (simp only: dir)
  ultimately have "seen (gc \<lparr>unix_nano = t, zone_off = 0\<rparr> (rn_dir (bridge_exits h ?r5))) selfURL \<noteq> None"
    if "t \<le> now + 90 * second_d" for t
    using that seen_apply(3) [of "rn_dir (bridge_exits h ?r5)" "\<lparr>unix_nano = t, zone_off = 0\<rparr>" selfURL]
    by (simp add: time_before_def time_add_def)
  then show ?thesis
    using run
    by (intro exI [of _ "bridge_exits h ?r5"]) (simp add: bridge_exits_def stop_bridge_def registered_def running0_def)
qed

theorem exit_leaves_registration_witness:
  "\<exists>r. bridge_steps sdk0 snapshot_json enc0 parse_me linux_host me_url (running0 0 New bridge0 Map.empty) r \<and>
     rn_main r = Main_exited \<and> seen (gc \<lparr>unix_nano = rn_clock r + 90 * second_d, zone_off = 0\<rparr> (rn_dir r)) me_url \<noteq> None"
  using exit_leaves_registration [OF New_ok me_valid, of sdk0 snapshot_json enc0 linux_host 0 bridge0 Map.empty] by auto

section \<open>The polling loop\<close>

text \<open>
  The goroutine that polls for outgoing replies: one round per tick of its timer until the context
  is done.  A round is what the environment contributes to one call of \<open>PollOutgoing\<close>.
\<close>

definition outgoingMaxAge :: duration where
  "outgoingMaxAge = 10 * minute_d"

record poll_round =
  pr_disk :: disk_io
  pr_clock :: "string \<Rightarrow> gotime"
  pr_order :: "string list"
  pr_fetch :: fetcher

definition poll_once :: "sdk \<Rightarrow> snapshot_codec \<Rightarrow> poll_round \<Rightarrow> store \<Rightarrow> store" where
  "poll_once k cd q s = snd (PollOutgoing k cd (pr_disk q) (pr_clock q) (pr_order q) (pr_fetch q) outgoingMaxAge s)"

fun poll_loop :: "sdk \<Rightarrow> snapshot_codec \<Rightarrow> poll_round list \<Rightarrow> store \<Rightarrow> store" where
  "poll_loop k cd [] s = s"
| "poll_loop k cd (q # qs) s = poll_loop k cd qs (poll_once k cd q s)"

lemma poll_loop_reaches:
  "list_all (\<lambda>q. fetch_interleaves k cd (pr_fetch q)) qs \<Longrightarrow> reaches k cd w (poll_loop k cd qs (w_store w))"
proof (induction qs arbitrary: w)
  case (Cons q qs)
  let ?s = "poll_once k cd q (w_store w)"
  have "reaches k cd (w\<lparr>w_store := ?s, w_flight := F, w_tracked := T\<rparr>) (poll_loop k cd qs ?s)" for F T
    using Cons.IH [of "w\<lparr>w_store := ?s, w_flight := F, w_tracked := T\<rparr>"] Cons.prems by simp
  moreover have "reaches k cd w ?s"
    using poll_list_reaches [of k cd "pr_fetch q"] Cons.prems by (simp add: poll_once_def PollOutgoing_def)
  ultimately show ?case using reaches_trans by simp
qed (simp add: reaches_refl)

text \<open>So the loop, run from inside the bridge, is a sequence of the bridge's steps.\<close>

lemma store_steps_bridge:
  assumes "steps k cd (rn_world r) w" "rn_main r \<noteq> Main_exited"
  shows "bridge_steps k cd enc parse h u r (r\<lparr>rn_world := w\<rparr>)"
  using assms(1)
proof (induction rule: rtranclp_induct)
  case (step y z)
  have "bridge_step k cd enc parse h u (r\<lparr>rn_world := y\<rparr>) (r\<lparr>rn_world := z\<rparr>)"
    using act_store [of k cd "r\<lparr>rn_world := y\<rparr>" z] step.hyps(2) assms(2) by (simp add: bridge_step_def)
  with step.IH show ?case by (rule rtranclp.rtrancl_into_rtrancl)
qed simp

lemma poll_loop_bridge:
  assumes "list_all (\<lambda>q. fetch_interleaves k cd (pr_fetch q)) qs" "rn_main r \<noteq> Main_exited"
  shows "\<exists>r'. bridge_steps k cd enc parse h u r r' \<and> w_store (rn_world r') = poll_loop k cd qs (w_store (rn_world r))"
proof -
  obtain F T where "steps k cd (rn_world r)
      ((rn_world r)\<lparr>w_store := poll_loop k cd qs (w_store (rn_world r)), w_flight := F, w_tracked := T\<rparr>)"
    using poll_loop_reaches [OF assms(1), of "rn_world r"] unfolding reaches_def by blast
  from store_steps_bridge [OF this assms(2)] show ?thesis
    by (rule exI [where P = "\<lambda>r'. _ r' \<and> _ r'", OF conjI]) simp
qed

end
