(* ===== verification/Go_Flag.thy ===== *)
theory Go_Flag
  imports Go_Prelude
begin

text \<open>
  Package flag of the Go library, as far as the commands use it: a \<open>FlagSet\<close> of boolean and string
  flags with \<open>ContinueOnError\<close>.  A flag set is the list of the defined names with their values; the
  defaults are the values before parsing.

  Shown: a command line that spells out every flag is read back exactly, and which arguments
  the parser leaves alone.
\<close>

section \<open>Parsing\<close>

datatype flag_value = Bool_val bool | Str_val string

type_synonym flag_set = "(string \<times> flag_value) list"

datatype flag_error = ErrHelp | Bad_syntax | Not_defined | Bad_boolean | Needs_argument

fun is_bool_flag :: "flag_value \<Rightarrow> bool" where
  "is_bool_flag (Bool_val _) = True"
| "is_bool_flag (Str_val _) = False"

definition parse_bool :: "string \<Rightarrow> bool option" where
  "parse_bool s =
     (if s \<in> {''1'', ''t'', ''T'', ''TRUE'', ''true'', ''True''} then Some True
      else if s \<in> {''0'', ''f'', ''F'', ''FALSE'', ''false'', ''False''} then Some False
      else None)"

text \<open>The name and the value behind the first equals sign that is not the first character.\<close>

fun cut_equals :: "string \<Rightarrow> string \<times> string option" where
  "cut_equals [] = ([], None)"
| "cut_equals (c # s) =
     (if c = CHR ''='' then ([], Some s)
      else (case cut_equals s of (n, v) \<Rightarrow> (c # n, v)))"

text \<open>What one argument is: not a flag, the terminator, malformed, or a flag with its value.\<close>

datatype flag_word = Plain_word | Terminator | Malformed | Flag_word string "string option"

definition flag_body :: "string \<Rightarrow> flag_word" where
  "flag_body name =
     (case name of
        [] \<Rightarrow> Malformed
      | c # s \<Rightarrow>
          if c = CHR ''-'' \<or> c = CHR ''='' then Malformed
          else (case cut_equals s of (n, v) \<Rightarrow> Flag_word (c # n) v))"

fun flag_of :: "string \<Rightarrow> flag_word" where
  "flag_of (a # b # s) =
     (if a \<noteq> CHR ''-'' then Plain_word
      else if b = CHR ''-'' then (if s = [] then Terminator else flag_body s)
      else flag_body (b # s))"
| "flag_of _ = Plain_word"

fun set_flag :: "string \<Rightarrow> flag_value \<Rightarrow> flag_set \<Rightarrow> flag_set" where
  "set_flag n v [] = []"
| "set_flag n v ((m, w) # fs) = (if m = n then (m, v) # fs else (m, w) # set_flag n v fs)"

function parse_flags :: "flag_set \<Rightarrow> string list \<Rightarrow> flag_error + flag_set \<times> string list" where
  "parse_flags fs args =
     (case args of
        [] \<Rightarrow> Inr (fs, [])
      | a # rest \<Rightarrow>
          (case flag_of a of
             Plain_word \<Rightarrow> Inr (fs, a # rest)
           | Terminator \<Rightarrow> Inr (fs, rest)
           | Malformed \<Rightarrow> Inl Bad_syntax
           | Flag_word n v \<Rightarrow>
               (case map_of fs n of
                  None \<Rightarrow> Inl (if n = ''help'' \<or> n = ''h'' then ErrHelp else Not_defined)
                | Some (Bool_val _) \<Rightarrow>
                    (case v of
                       None \<Rightarrow> parse_flags (set_flag n (Bool_val True) fs) rest
                     | Some s \<Rightarrow>
                         (case parse_bool s of
                            None \<Rightarrow> Inl Bad_boolean
                          | Some b \<Rightarrow> parse_flags (set_flag n (Bool_val b) fs) rest))
                | Some (Str_val _) \<Rightarrow>
                    (case v of
                       Some s \<Rightarrow> parse_flags (set_flag n (Str_val s) fs) rest
                     | None \<Rightarrow>
                         (case rest of
                            [] \<Rightarrow> Inl Needs_argument
                          | s # rest' \<Rightarrow> parse_flags (set_flag n (Str_val s) fs) rest')))))"
  by pat_completeness auto

termination
  by (relation "measure (\<lambda>(fs, args). length args)") auto

declare parse_flags.simps [simp del]

fun str_flag :: "string \<Rightarrow> flag_set \<Rightarrow> string" where
  "str_flag n fs = (case map_of fs n of Some (Str_val s) \<Rightarrow> s | _ \<Rightarrow> [])"

fun bool_flag :: "string \<Rightarrow> flag_set \<Rightarrow> bool" where
  "bool_flag n fs = (case map_of fs n of Some (Bool_val b) \<Rightarrow> b | _ \<Rightarrow> False)"

text \<open>
  The frame of every command: help is exit code 0, another error 2, and the command runs only on a
  command line that parses.
\<close>

definition with_flags :: "flag_set \<Rightarrow> string list \<Rightarrow> (int \<Rightarrow> 'r) \<Rightarrow> (flag_set \<Rightarrow> 'r) \<Rightarrow> 'r" where
  "with_flags fs args quit cmd =
     (case parse_flags fs args of
        Inl e \<Rightarrow> quit (if e = ErrHelp then 0 else 2)
      | Inr (vals, _) \<Rightarrow> cmd vals)"

section \<open>Reading back\<close>

text \<open>A name that a command line can carry.\<close>

definition flag_name :: "string \<Rightarrow> bool" where
  "flag_name n = (n \<noteq> [] \<and> hd n \<noteq> CHR ''-'' \<and> CHR ''='' \<notin> set n)"

fun spell :: "string \<times> flag_value \<Rightarrow> string" where
  "spell (n, Bool_val b) = ''--'' @ n @ ''='' @ (if b then ''true'' else ''false'')"
| "spell (n, Str_val s) = ''--'' @ n @ ''='' @ s"

lemma cut_equals_spelled: "CHR ''='' \<notin> set n \<Longrightarrow> cut_equals (n @ CHR ''='' # v) = (n, Some v)"
  by (induction n) auto

lemma cut_equals_bare: "CHR ''='' \<notin> set n \<Longrightarrow> cut_equals n = (n, None)"
  by (induction n) auto

lemma flag_body_spelled:
  assumes "flag_name n"
  shows "flag_body (n @ CHR ''='' # v) = Flag_word n (Some v)" "flag_body n = Flag_word n None"
  using assms by (cases n; auto simp: flag_body_def flag_name_def cut_equals_spelled cut_equals_bare)+

lemma flag_of_spelled:
  assumes "flag_name n"
  shows "flag_of (CHR ''-'' # CHR ''-'' # n @ CHR ''='' # v) = Flag_word n (Some v)"
    "flag_of (CHR ''-'' # CHR ''-'' # n) = Flag_word n None"
  using assms flag_body_spelled [OF assms] by (auto simp: flag_name_def)

lemma set_flag_same: "map_of fs n = Some v \<Longrightarrow> set_flag n v fs = fs"
  by (induction fs) auto

lemma map_of_set_flag: "map_of (set_flag n v fs) m = (if m = n \<and> map_of fs n \<noteq> None then Some v else map_of fs m)"
  by (induction fs) auto

lemma set_flag_append:
  "n \<notin> fst ` set as \<Longrightarrow> set_flag n v (as @ (n, w) # bs) = as @ (n, v) # bs"
  by (induction as) auto

lemma map_of_middle: "n \<notin> fst ` set as \<Longrightarrow> map_of (as @ (n, w) # bs) n = Some w"
  by (simp add: map_add_Some_iff map_of_append map_of_eq_None_iff)

text \<open>The kinds of the flags, which values of the user have to match.\<close>

definition same_flags :: "flag_set \<Rightarrow> flag_set \<Rightarrow> bool" where
  "same_flags fs vs = list_all2 (\<lambda>(n, v) (m, w). n = m \<and> is_bool_flag v = is_bool_flag w) fs vs"

lemma parse_spelled_one:
  assumes "flag_name n" "n \<notin> fst ` set as" "is_bool_flag v = is_bool_flag w"
  shows "parse_flags (as @ (n, w) # bs) (spell (n, v) # args) = parse_flags (as @ (n, v) # bs) args"
  using assms
  by (cases v; cases w)
     (simp_all add: parse_flags.simps [of _ "_ # _"] flag_of_spelled map_of_middle set_flag_append parse_bool_def
       del: flag_of.simps map_of_append)

lemma parse_spelled:
  assumes "list_all2 (\<lambda>(n, v) (m, w). n = m \<and> is_bool_flag v = is_bool_flag w) bs vs"
    and "distinct (map fst (as @ bs))" "list_all (\<lambda>(n, v). flag_name n) bs"
  shows "parse_flags (as @ bs) (map spell vs @ args) = parse_flags (as @ vs) args"
  using assms
proof (induction bs vs arbitrary: as rule: list_all2_induct)
  case (Cons b bs v vs)
  obtain n w u where b: "b = (n, w)" "v = (n, u)" "is_bool_flag u = is_bool_flag w"
    using Cons.hyps(1) by (cases b; cases v) auto
  have "parse_flags (as @ b # bs) (map spell (v # vs) @ args) = parse_flags ((as @ [v]) @ bs) (map spell vs @ args)"
    using parse_spelled_one [of n as u w bs "map spell vs @ args"] Cons.prems b by (simp add: image_iff)
  also have "\<dots> = parse_flags ((as @ [v]) @ vs) args"
    using Cons.prems b by (intro Cons.IH) auto
  finally show ?case by simp
qed simp

text \<open>
  A command line that spells out every flag is understood as meant: for any values of the
  kinds the command defines, also empty ones and ones that look like flags, the parser returns
  exactly these values, and what follows the terminator as the arguments.
\<close>

theorem flags_read_back:
  assumes "same_flags fs vs" "distinct (map fst fs)" "list_all (\<lambda>(n, v). flag_name n) fs"
  shows "parse_flags fs (map spell vs @ ''--'' # args) = Inr (vs, args)"
  using parse_spelled [of fs vs "[]" "''--'' # args"] assms by (simp add: same_flags_def parse_flags.simps [of vs])

text \<open>The other spelling of a string flag takes the next argument, whatever it is.\<close>

lemma parse_separate:
  assumes "flag_name n" "map_of fs n = Some (Str_val w)"
  shows "parse_flags fs ((''--'' @ n) # v # args) = parse_flags (set_flag n (Str_val v) fs) args"
  using assms by (simp add: parse_flags.simps [of fs "_ # _"] flag_of_spelled del: flag_of.simps)

lemma parse_stops: "flag_of p = Plain_word \<Longrightarrow> parse_flags fs (p # args) = Inr (fs, p # args)"
  by (simp add: parse_flags.simps)

lemma parse_none: "parse_flags fs [] = Inr (fs, [])"
  by (simp add: parse_flags.simps)

end
