(* ===== verification/Service.thy ===== *)
theory Service
  imports Installer Federation
begin

text \<open>
  internal/cli/service.go and directory.go: the directory daemon under the supervisor of the
  operating system, and the daemon's own loop.  The supervisor library is a record of the
  outcomes of its calls; the calls made are a trace.  What is printed is left out.
\<close>

section \<open>The unit\<close>

datatype option_value = Flag bool | Word string

record svc_unit =
  su_name :: string
  su_display :: string
  su_description :: string
  su_executable :: string
  su_arguments :: "string list"
  su_options :: "(string \<times> option_value) list"

definition defaultDirectoryAddr :: string where
  "defaultDirectoryAddr = ''127.0.0.1:7777''"

definition platformOptions :: "string \<Rightarrow> (string \<times> option_value) list" where
  "platformOptions goos =
     (if goos = ''darwin'' then [(''UserService'', Flag True), (''RunAtLoad'', Flag True), (''KeepAlive'', Flag True)]
      else if goos = ''linux'' then [(''UserService'', Flag True), (''Restart'', Word ''on-failure''), (''LogOutput'', Flag True)]
      else if goos = ''windows'' then [(''DelayedAutoStart'', Flag True), (''StartType'', Word ''automatic'')]
      else [])"

datatype svc_status = Status_running | Status_stopped | Status_unknown

text \<open>An error of the library is its text; \<open>sv_install n\<close> is the outcome of the \<open>n\<close>th installation.\<close>

record supervisor =
  sv_new :: bool
  sv_install :: "nat \<Rightarrow> string option"
  sv_start :: "string option"
  sv_control :: "string \<Rightarrow> string option"
  sv_status :: "svc_status option"
  sv_run :: "string option"

datatype svc_call = Do_install svc_unit | Do_start | Do_stop | Do_uninstall | Do_control string | Do_run svc_unit

definition buildService :: "own_path \<Rightarrow> string \<Rightarrow> supervisor \<Rightarrow> string \<Rightarrow> svc_unit option" where
  "buildService own goos sv addr =
     (case op_exe own of
        None \<Rightarrow> None
      | Some exe \<Rightarrow>
          if sv_new sv then
            Some \<lparr>su_name = ''a2abridge-directory'', su_display = ''a2abridge directory'',
              su_description = ''Local A2A 1.0 discovery service for AI coding agents.'',
              su_executable = (case op_resolve own exe of Some r \<Rightarrow> r | None \<Rightarrow> exe),
              su_arguments = [''service'', ''run'', ''--addr'', addr], su_options = platformOptions goos\<rparr>
          else None)"

definition isAlreadyInstalled :: "string \<Rightarrow> bool" where
  "isAlreadyInstalled err =
     (let msg = to_lower err in
      str_contains msg ''already exists'' \<or> str_contains msg ''already installed'' \<or> str_contains msg ''init already exists'')"

section \<open>The actions\<close>

record cert_io =
  ct_hostname :: "string option"
  ct_pems :: "string \<Rightarrow> (string \<times> string) option"
  ct_mkdir :: "nat option"
  ct_cert :: bool
  ct_key :: bool
  ct_left :: "node option"

definition provisionFederation :: "host \<Rightarrow> cert_io \<Rightarrow> string \<Rightarrow> fsys \<Rightarrow> bool \<times> fsys" where
  "provisionFederation h ct cn fs =
     (let cn = (if cn = [] then (case ct_hostname ct of Some n \<Rightarrow> n | None \<Rightarrow> ''a2abridge-peer'') else cn) in
      case ho_home h of
        None \<Rightarrow> (False, fs)
      | Some home \<Rightarrow>
          (case GenerateEd25519Cert h (ct_mkdir ct) (ct_pems ct cn) (ct_cert ct) (ct_key ct) (ct_left ct)
                  (path_join h [home, ''.a2abridge'', ''tls'']) fs of
             (r, fs) \<Rightarrow> (r \<noteq> None, fs)))"

text \<open>After provisioning: build, install, once more if a unit is in the way, and start.\<close>

definition install_unit :: "supervisor \<Rightarrow> svc_unit \<Rightarrow> bool \<times> svc_call list" where
  "install_unit sv u =
     (case sv_install sv 0 of
        None \<Rightarrow> (True, [Do_install u])
      | Some err \<Rightarrow>
          if isAlreadyInstalled err then (sv_install sv 1 = None, [Do_install u, Do_stop, Do_uninstall, Do_install u])
          else (False, [Do_install u]))"

definition svcInstall ::
  "host \<Rightarrow> own_path \<Rightarrow> supervisor \<Rightarrow> cert_io \<Rightarrow> string \<Rightarrow> bool \<Rightarrow> string \<Rightarrow> fsys \<Rightarrow> int \<times> svc_call list \<times> fsys"
where
  "svcInstall h own sv ct addr federation cn fs =
     (case (if federation then provisionFederation h ct cn fs else (True, fs)) of
        (False, fs) \<Rightarrow> (1, [], fs)
      | (True, fs) \<Rightarrow>
          (case buildService own (ho_goos h) sv addr of
             None \<Rightarrow> (1, [], fs)
           | Some u \<Rightarrow>
               (case install_unit sv u of
                  (False, calls) \<Rightarrow> (1, calls, fs)
                | (True, calls) \<Rightarrow> (if sv_start sv = None then 0 else 1, calls @ [Do_start], fs))))"

definition svcAction :: "host \<Rightarrow> own_path \<Rightarrow> supervisor \<Rightarrow> string \<Rightarrow> string list \<Rightarrow> int \<times> svc_call list" where
  "svcAction h own sv action args =
     (if args \<noteq> [] then (2, [])
      else (case buildService own (ho_goos h) sv defaultDirectoryAddr of
              None \<Rightarrow> (1, [])
            | Some _ \<Rightarrow> (if sv_control sv action = None then 0 else 1, [Do_control action])))"

definition svcStatus :: "host \<Rightarrow> own_path \<Rightarrow> supervisor \<Rightarrow> string list \<Rightarrow> int" where
  "svcStatus h own sv args =
     (if args \<noteq> [] then 2
      else (case buildService own (ho_goos h) sv defaultDirectoryAddr of
              None \<Rightarrow> 1
            | Some _ \<Rightarrow> if sv_status sv = None then 1 else 0))"

definition svcRun :: "host \<Rightarrow> own_path \<Rightarrow> supervisor \<Rightarrow> string \<Rightarrow> int \<times> svc_call list" where
  "svcRun h own sv addr =
     (case buildService own (ho_goos h) sv addr of
        None \<Rightarrow> (1, [])
      | Some u \<Rightarrow> (if sv_run sv = None then 0 else 1, [Do_run u]))"

definition statusString :: "svc_status \<Rightarrow> string" where
  "statusString s = (case s of Status_running \<Rightarrow> ''running'' | Status_stopped \<Rightarrow> ''stopped'' | Status_unknown \<Rightarrow> ''unknown'')"

definition supervisorName :: "string \<Rightarrow> string" where
  "supervisorName goos =
     (if goos = ''darwin'' then ''launchd (user)''
      else if goos = ''linux'' then ''systemd --user''
      else if goos = ''windows'' then ''Windows Service Manager''
      else goos)"

text \<open>The dispatcher, with the flags of \<open>install\<close> and \<open>run\<close> as parsed.\<close>

record svc_flags =
  sf_addr :: string
  sf_federation :: bool
  sf_cn :: string

definition RunService ::
  "host \<Rightarrow> own_path \<Rightarrow> supervisor \<Rightarrow> cert_io \<Rightarrow> svc_flags \<Rightarrow> string list \<Rightarrow> fsys \<Rightarrow> int \<times> svc_call list \<times> fsys"
where
  "RunService h own sv ct fl args fs =
     (case args of
        [] \<Rightarrow> (2, [], fs)
      | a # rest \<Rightarrow>
          if a \<in> {''-h'', ''--help''} then (0, [], fs)
          else if a = ''install'' then svcInstall h own sv ct (sf_addr fl) (sf_federation fl) (sf_cn fl) fs
          else if a \<in> {''uninstall'', ''remove''} then (case svcAction h own sv ''uninstall'' rest of (c, t) \<Rightarrow> (c, t, fs))
          else if a \<in> {''start'', ''stop'', ''restart''} then (case svcAction h own sv a rest of (c, t) \<Rightarrow> (c, t, fs))
          else if a = ''status'' then (svcStatus h own sv rest, [], fs)
          else if a = ''run'' then (case svcRun h own sv (sf_addr fl) of (c, t) \<Rightarrow> (c, t, fs))
          else (2, [], fs))"

text \<open>Stopping the service of \<open>uninstall\<close>: never a failure.\<close>

definition uninstallService :: "host \<Rightarrow> own_path \<Rightarrow> supervisor \<Rightarrow> bool \<Rightarrow> svc_call list" where
  "uninstallService h own sv dryRun =
     (if dryRun then []
      else (case buildService own (ho_goos h) sv defaultDirectoryAddr of
              None \<Rightarrow> []
            | Some _ \<Rightarrow> (if sv_status sv = Some Status_running then [Do_stop] else []) @ [Do_uninstall]))"

section \<open>The daemon\<close>

text \<open>
  What ends the daemon: its context, or the listener with or without an error.  The service
  object is idle or runs; stopping waits for the end of the daemon for five seconds.
\<close>

datatype daemon_end = Cancelled | Listener_failed | Listener_closed

definition serveDirectory :: "daemon_end \<Rightarrow> int" where
  "serveDirectory e = (if e = Listener_failed then 1 else 0)"

definition serviceStopTimeout :: nat where
  "serviceStopTimeout = 5000"

datatype daemon = Idle | Running

definition Start_daemon :: "daemon \<Rightarrow> daemon" where
  "Start_daemon d = Running"

text \<open>The daemon needs \<open>drain\<close> milliseconds to end; an error is a daemon that is still there.\<close>

definition Stop_daemon :: "nat \<Rightarrow> daemon \<Rightarrow> bool" where
  "Stop_daemon drain d = (case d of Idle \<Rightarrow> True | Running \<Rightarrow> drain \<le> serviceStopTimeout)"

section \<open>Properties\<close>

lemma install_unit_units: "Do_install v \<in> set (snd (install_unit sv u)) \<longleftrightarrow> v = u"
  by (auto simp: install_unit_def split: option.splits)

text \<open>
  Registering the daemon: the command succeeds exactly when the certificate was made if it
  was asked for, the unit could be built, it was installed at the first attempt or, with a unit in
  the way, after that one was stopped and removed, and it started.  The option \<open>--federation\<close>
  makes the certificate and has no part in the unit: with and without it the same unit is
  installed, whose only arguments are the address.
\<close>

theorem service_install_spec:
  "(fst (svcInstall h own sv ct addr federation cn fs) = 0 \<longleftrightarrow>
     \<not> (federation \<and> \<not> fst (provisionFederation h ct cn fs)) \<and> buildService own (ho_goos h) sv addr \<noteq> None \<and>
     (case sv_install sv 0 of None \<Rightarrow> True | Some err \<Rightarrow> isAlreadyInstalled err \<and> sv_install sv 1 = None) \<and> sv_start sv = None) \<and>
   (fst (svcInstall h own sv ct addr True cn fs) \<noteq> 0 \<or>
     fst (snd (svcInstall h own sv ct addr True cn fs)) = fst (snd (svcInstall h own sv ct addr False cn fs))) \<and>
   \<not> (\<exists>v. Do_install v \<in> set (fst (snd (svcInstall h own sv ct addr federation cn fs))) \<and>
        su_arguments v \<noteq> [''service'', ''run'', ''--addr'', addr])"
proof (intro conjI)
  show "fst (svcInstall h own sv ct addr federation cn fs) = 0 \<longleftrightarrow>
     \<not> (federation \<and> \<not> fst (provisionFederation h ct cn fs)) \<and> buildService own (ho_goos h) sv addr \<noteq> None \<and>
     (case sv_install sv 0 of None \<Rightarrow> True | Some err \<Rightarrow> isAlreadyInstalled err \<and> sv_install sv 1 = None) \<and> sv_start sv = None"
    by (auto simp: svcInstall_def install_unit_def split: prod.splits option.splits bool.splits if_splits)
  show "fst (svcInstall h own sv ct addr True cn fs) \<noteq> 0 \<or>
     fst (snd (svcInstall h own sv ct addr True cn fs)) = fst (snd (svcInstall h own sv ct addr False cn fs))"
    by (auto simp: svcInstall_def split: prod.splits option.splits bool.splits)
  have "v = u" if "Do_install v \<in> set (fst (snd (svcInstall h own sv ct addr federation cn fs)))" "buildService own (ho_goos h) sv addr = Some u" for u v
    using that install_unit_units [of v sv u]
    by (auto simp: svcInstall_def split: prod.splits bool.splits if_splits)
  moreover have "buildService own (ho_goos h) sv addr \<noteq> None" if "Do_install v \<in> set (fst (snd (svcInstall h own sv ct addr federation cn fs)))" for v
    using that by (auto simp: svcInstall_def split: prod.splits bool.splits if_splits option.splits)
  moreover have "su_arguments u = [''service'', ''run'', ''--addr'', addr]" if "buildService own (ho_goos h) sv addr = Some u" for u
    using that by (auto simp: buildService_def split: option.splits if_splits)
  ultimately show "\<not> (\<exists>v. Do_install v \<in> set (fst (snd (svcInstall h own sv ct addr federation cn fs))) \<and>
        su_arguments v \<noteq> [''service'', ''run'', ''--addr'', addr])" by (metis not_None_eq)
qed


definition second_try :: supervisor where
  "second_try = \<lparr>sv_new = True, sv_install = (\<lambda>n. if n = 0 then Some ''Init already exists: x'' else None), sv_start = None,
     sv_control = (\<lambda>_. None), sv_status = None, sv_run = None\<rparr>"

definition plain_own :: own_path where
  "plain_own = \<lparr>op_exe = Some ''/b'', op_resolve = (\<lambda>_. None), op_abs = Some\<rparr>"

theorem service_install_spec_witness:
  "fst (svcInstall \<lparr>ho_goos = ''linux'', ho_home = None, ho_appdata = []\<rparr> plain_own second_try
     \<lparr>ct_hostname = None, ct_pems = (\<lambda>_. None), ct_mkdir = None, ct_cert = True, ct_key = True, ct_left = None\<rparr> ''a:1'' False [] Map.empty) = 0"
proof -
  have "isAlreadyInstalled ''Init already exists: x''" by code_simp
  then show ?thesis
    using service_install_spec [of "\<lparr>ho_goos = ''linux'', ho_home = None, ho_appdata = []\<rparr>" plain_own second_try
      "\<lparr>ct_hostname = None, ct_pems = (\<lambda>_. None), ct_mkdir = None, ct_cert = True, ct_key = True, ct_left = None\<rparr>" "''a:1''" False "[]" Map.empty]
    by (simp add: second_try_def plain_own_def buildService_def)
qed

end
