(* ===== verification/Cli.thy ===== *)
theory Cli
  imports Updater
begin

text \<open>
  The command line of the program: the dispatcher (cli.go), \<open>version\<close>, \<open>completion\<close> with its four scripts, and
  \<open>worker\<close>, which keeps an agent in a tmux session.  A command is a function from its arguments to
  the exit code and what it prints, in order; \<open>flag\<close> parsing of the subcommands is taken as done.
\<close>

section \<open>Commands\<close>

datatype printed = Out string | Err string

record cli_command =
  cm_name :: string
  cm_summary :: string
  cm_run :: "string list \<Rightarrow> int \<times> printed list"

type_synonym commands = "(string \<times> cli_command) list"

text \<open>A second registration under a name is a panic.\<close>

definition registerCommand :: "cli_command \<Rightarrow> commands \<Rightarrow> commands option" where
  "registerCommand c cs = (if map_of cs (cm_name c) \<noteq> None then None else Some (cs @ [(cm_name c, c)]))"

definition line :: "string \<Rightarrow> string" where
  "line s = s @ [CHR 0x0A]"

definition pad_right :: "nat \<Rightarrow> string \<Rightarrow> string" where
  "pad_right n s = s @ replicate (n - length s) (CHR '' '')"

definition usage_text :: "string \<Rightarrow> commands \<Rightarrow> string" where
  "usage_text version cs =
     line (''a2abridge '' @ version @ '' '' @ [CHR 0xE2, CHR 0x80, CHR 0x94] @ '' A2A 1.0 protocol bridge for AI coding agents'') @ line [] @
     line ''Usage:'' @ line ''  a2abridge <command> [flags]'' @ line [] @ line ''Commands:'' @
     concat (map (\<lambda>n. line (''  '' @ pad_right 12 n @ ''  '' @ (case map_of cs n of Some c \<Rightarrow> cm_summary c | None \<Rightarrow> [])))
       (sort (map fst cs))) @
     line [] @ line (''Use '' @ [dquote] @ ''a2abridge help <command>'' @ [dquote] @ '' for command-specific flags.'')"

text \<open>Help asks the command with \<open>-h\<close> and sends everything it prints to the standard output.\<close>

fun to_stdout :: "printed \<Rightarrow> printed" where
  "to_stdout (Out s) = Out s"
| "to_stdout (Err s) = Out s"

text \<open>The verb \<open>%q\<close> for a text of printable characters without quotes and backslashes.\<close>

definition go_quote :: "string \<Rightarrow> string" where
  "go_quote s = [dquote] @ s @ [dquote]"

definition printSubcommandHelp :: "commands \<Rightarrow> string \<Rightarrow> int \<times> printed list" where
  "printSubcommandHelp cs name =
     (case map_of cs name of
        None \<Rightarrow> (2, [Err (line (''a2abridge: unknown subcommand '' @ go_quote name))])
      | Some c \<Rightarrow> (case cm_run c [''-h''] of (code, outs) \<Rightarrow> (code, map to_stdout outs)))"

definition RunVersion :: "build_info \<Rightarrow> string \<Rightarrow> string \<Rightarrow> string \<Rightarrow> string list \<Rightarrow> int \<times> printed list" where
  "RunVersion info go goos goarch args =
     (if args \<noteq> [] \<and> hd args \<in> {''-h'', ''--help''} then
        (0, [Out (line ''Usage: a2abridge version'' @ line [] @
              line ''Print version, commit, build date, Go runtime and target platform.'')])
      else
        (0, [Out (line (''a2abridge '' @ bi_Version info) @ line (''commit:    '' @ bi_Commit info) @
              line (''built:     '' @ bi_BuildDate info) @ line (''go:        '' @ go) @
              line (''platform:  '' @ goos @ ''/'' @ goarch))]))"

definition run_args :: "build_info \<Rightarrow> string \<Rightarrow> string \<Rightarrow> string \<Rightarrow> commands \<Rightarrow> string list \<Rightarrow> int \<times> printed list" where
  "run_args info go goos goarch cs args =
     (case args of
        [] \<Rightarrow> (2, [Err (usage_text (bi_Version info) cs)])
      | a # rest \<Rightarrow>
          if a \<in> {''-h'', ''--help'', ''help''} then
            (case rest of
               name # _ \<Rightarrow> printSubcommandHelp cs name
             | [] \<Rightarrow> (0, [Out (usage_text (bi_Version info) cs)]))
          else if a \<in> {''-v'', ''--version''} then RunVersion info go goos goarch []
          else
            (case map_of cs a of
               None \<Rightarrow> (2, [Err (line (''a2abridge: unknown subcommand '' @ go_quote a) @ line []), Err (usage_text (bi_Version info) cs)])
             | Some c \<Rightarrow> cm_run c rest))"

section \<open>Completion\<close>

definition subcommandList :: "commands \<Rightarrow> string list" where
  "subcommandList cs = sort (map fst cs)"

definition bashScript :: "string list \<Rightarrow> string" where
  "bashScript cmds =
     line ''# a2abridge bash completion'' @ line ''_a2abridge_complete() {'' @ line ''  local cur'' @ line ''  COMPREPLY=()'' @
     line (''  cur='' @ [dquote] @ ''${COMP_WORDS[COMP_CWORD]}'' @ [dquote]) @
     line (''  if [ '' @ [dquote] @ ''$COMP_CWORD'' @ [dquote] @ '' -eq 1 ]; then'') @
     line (''    COMPREPLY=( $(compgen -W '' @ [dquote] @ str_join cmds '' '' @ [dquote] @ '' -- '' @ [dquote] @ ''$cur'' @ [dquote] @ '') )'') @
     line ''  fi'' @ line ''}'' @ line ''complete -F _a2abridge_complete a2abridge''"

definition zshScript :: "string list \<Rightarrow> string" where
  "zshScript cmds =
     line ''#compdef a2abridge'' @ line ''# a2abridge zsh completion'' @ line ''_a2abridge() {'' @ line ''  local -a subcommands'' @
     line (''  subcommands=('' @ str_join cmds '' '' @ '')'') @ line ''  if (( CURRENT == 2 )); then'' @
     line (''    _describe '' @ [CHR 0x27] @ ''subcommand'' @ [CHR 0x27] @ '' subcommands'') @ line ''  fi'' @ line ''}'' @
     line ''compdef _a2abridge a2abridge''"

definition fishScript :: "string list \<Rightarrow> string" where
  "fishScript cmds =
     line ''# a2abridge fish completion'' @
     concat (map (\<lambda>c. line (''complete -c a2abridge -f -n '' @ [CHR 0x27] @ ''__fish_use_subcommand'' @ [CHR 0x27] @
       '' -a '' @ [CHR 0x27] @ c @ [CHR 0x27])) cmds)"

definition powershellScript :: "string list \<Rightarrow> string" where
  "powershellScript cmds =
     line ''# a2abridge PowerShell completion'' @ line ''Register-ArgumentCompleter -CommandName a2abridge -ScriptBlock {'' @
     line ''  param($wordToComplete, $commandAst, $cursorPosition)'' @
     line (''  $subs = @('' @ [CHR 0x27] @ str_join cmds ([CHR 0x27] @ '' '' @ [CHR 0x27]) @ [CHR 0x27] @ '')'') @
     line (''  $subs | Where-Object { $_ -like '' @ [dquote] @ ''$wordToComplete*'' @ [dquote] @ '' } |'') @
     line (''    ForEach-Object { [System.Management.Automation.CompletionResult]::new($_, $_, '' @ [CHR 0x27] @ ''ParameterValue'' @
       [CHR 0x27] @ '', $_) }'') @
     line ''}''"

definition RunCompletion :: "commands \<Rightarrow> string list \<Rightarrow> int \<times> printed list" where
  "RunCompletion cs args =
     (case args of
        [] \<Rightarrow> (2, [Err (line ''Usage: a2abridge completion <bash|zsh|fish|powershell>'')])
      | a # _ \<Rightarrow>
          (let shell = to_lower a; cmds = sort (subcommandList cs @ [''help'']) in
           if shell = ''bash'' then (0, [Out (bashScript cmds)])
           else if shell = ''zsh'' then (0, [Out (zshScript cmds)])
           else if shell = ''fish'' then (0, [Out (fishScript cmds)])
           else if shell = ''powershell'' \<or> shell = ''pwsh'' then (0, [Out (powershellScript cmds)])
           else (2, [Err (line (''completion: unsupported shell '' @ go_quote shell @ '' (want: bash|zsh|fish|powershell)''))])))"


section \<open>The worker\<close>

text \<open>
  Every tmux command is run in order; \<open>tx_answer n\<close> is the output of the \<open>n\<close>th one if it succeeds, \<open>tx_took n\<close>
  its time in milliseconds.  The state is the trace of the commands.
\<close>

record tmux =
  tx_answer :: "nat \<Rightarrow> string option"
  tx_took :: "nat \<Rightarrow> nat"

type_synonym tmux_trace = "string list list"

definition run_tmux :: "tmux \<Rightarrow> string list \<Rightarrow> tmux_trace \<Rightarrow> string option \<times> tmux_trace" where
  "run_tmux tx args tr = (tx_answer tx (length tr), tr @ [args])"

definition tmux_detail :: string where
  "tmux_detail = ''#{session_name}: created #{session_created_string}, attached=#{session_attached}, windows=#{session_windows}''"

definition tmuxHasSession :: "tmux \<Rightarrow> string \<Rightarrow> tmux_trace \<Rightarrow> (bool \<times> string) \<times> tmux_trace" where
  "tmuxHasSession tx name tr =
     (case run_tmux tx [''has-session'', ''-t'', name] tr of
        (None, tr) \<Rightarrow> ((False, []), tr)
      | (Some _, tr) \<Rightarrow>
          (case run_tmux tx [''display-message'', ''-p'', ''-t'', name, tmux_detail] tr of
             (o1, tr) \<Rightarrow> ((True, case o1 of Some s \<Rightarrow> s | None \<Rightarrow> []), tr)))"

definition workerPaneTimeout :: nat where "workerPaneTimeout = 2000"
definition workerPanePoll :: nat where "workerPanePoll = 100"
definition workerSplashDelay :: nat where "workerSplashDelay = 1500"

text \<open>The poll, from the time already passed; the result is the time when it ends.\<close>

function pane_loop :: "tmux \<Rightarrow> string \<Rightarrow> nat \<Rightarrow> tmux_trace \<Rightarrow> nat \<times> tmux_trace" where
  "pane_loop tx session elapsed tr =
     (if workerPaneTimeout \<le> elapsed then (elapsed, tr)
      else
        (case run_tmux tx [''list-panes'', ''-t'', session] tr of
           (Some _, tr') \<Rightarrow> (elapsed + tx_took tx (length tr), tr')
         | (None, tr') \<Rightarrow> pane_loop tx session (elapsed + tx_took tx (length tr) + workerPanePoll) tr'))"
  by pat_completeness auto

termination
  by (relation "measure (\<lambda>(tx, session, elapsed, tr). workerPaneTimeout - elapsed)") (auto simp: workerPanePoll_def)

declare pane_loop.simps [simp del]

definition waitForWorkerPane :: "tmux \<Rightarrow> string \<Rightarrow> tmux_trace \<Rightarrow> nat \<times> tmux_trace" where
  "waitForWorkerPane tx session tr = (case pane_loop tx session 0 tr of (t, tr) \<Rightarrow> (t + workerSplashDelay, tr))"

definition workerStart :: "tmux \<Rightarrow> string \<Rightarrow> string \<Rightarrow> string \<Rightarrow> tmux_trace \<Rightarrow> int \<times> tmux_trace" where
  "workerStart tx session cmdName prompt tr =
     (case tmuxHasSession tx session tr of
        ((True, _), tr) \<Rightarrow> (0, tr)
      | ((False, _), tr) \<Rightarrow>
          (case run_tmux tx [''new-session'', ''-d'', ''-s'', session, cmdName] tr of
             (None, tr) \<Rightarrow> (1, tr)
           | (Some _, tr) \<Rightarrow>
               if prompt = [] then (0, tr)
               else
                 (case waitForWorkerPane tx session tr of
                    (_, tr) \<Rightarrow>
                      (case run_tmux tx [''send-keys'', ''-t'', session, ''-l'', ''--'', prompt] tr of
                         (None, tr) \<Rightarrow> (1, tr)
                       | (Some _, tr) \<Rightarrow>
                           (case run_tmux tx [''send-keys'', ''-t'', session, ''Enter''] tr of
                              (None, tr) \<Rightarrow> (1, tr)
                            | (Some _, tr) \<Rightarrow> (0, tr))))))"

definition workerStop :: "tmux \<Rightarrow> string \<Rightarrow> tmux_trace \<Rightarrow> int \<times> tmux_trace" where
  "workerStop tx session tr =
     (case tmuxHasSession tx session tr of
        ((False, _), tr) \<Rightarrow> (0, tr)
      | ((True, _), tr) \<Rightarrow>
          (case run_tmux tx [''kill-session'', ''-t'', session] tr of (None, tr) \<Rightarrow> (1, tr) | (Some _, tr) \<Rightarrow> (0, tr)))"

definition workerStatus :: "tmux \<Rightarrow> string \<Rightarrow> tmux_trace \<Rightarrow> int \<times> tmux_trace" where
  "workerStatus tx session tr = (case tmuxHasSession tx session tr of ((running, _), tr) \<Rightarrow> (if running then 0 else 1, tr))"

definition workerAttach :: "tmux \<Rightarrow> string \<Rightarrow> tmux_trace \<Rightarrow> int \<times> tmux_trace" where
  "workerAttach tx session tr = (case tmuxHasSession tx session tr of ((running, _), tr) \<Rightarrow> (if running then 0 else 1, tr))"

text \<open>The dispatcher of the worker, with the flags of the action as parsed.\<close>

record worker_flags =
  wf_session :: string
  wf_cmd :: string
  wf_prompt :: string

definition default_worker_flags :: worker_flags where
  "default_worker_flags = \<lparr>wf_session = ''a2abridge-worker'', wf_cmd = ''claude'', wf_prompt = []\<rparr>"

definition RunWorker :: "tmux \<Rightarrow> bool \<Rightarrow> worker_flags \<Rightarrow> string list \<Rightarrow> tmux_trace \<Rightarrow> int \<times> tmux_trace" where
  "RunWorker tx installed fl args tr =
     (case args of
        [] \<Rightarrow> (2, tr)
      | a # _ \<Rightarrow>
          if a \<in> {''-h'', ''--help''} then (0, tr)
          else if \<not> installed then (1, tr)
          else if a = ''start'' then workerStart tx (wf_session fl) (wf_cmd fl) (wf_prompt fl) tr
          else if a = ''stop'' then workerStop tx (wf_session fl) tr
          else if a = ''status'' then workerStatus tx (wf_session fl) tr
          else if a = ''attach'' then workerAttach tx (wf_session fl) tr
          else (2, tr))"

section \<open>Properties\<close>

lemma pane_loop_trace:
  "\<exists>k. snd (pane_loop tx session elapsed tr) = tr @ replicate k [''list-panes'', ''-t'', session] \<and> 100 * k \<le> 2099 - elapsed \<and>
     (elapsed < 2000 \<longrightarrow> 1 \<le> k)"
proof (induction tx session elapsed tr rule: pane_loop.induct)
  case (1 tx session elapsed tr)
  let ?c = "[''list-panes'', ''-t'', session]"
  note p = pane_loop.simps [of tx session elapsed tr]
  show ?case
  proof (cases "2000 \<le> elapsed")
    case True
    then show ?thesis using p by (intro exI [of _ 0]) (simp add: workerPaneTimeout_def)
  next
    case False
    show ?thesis
    proof (cases "tx_answer tx (length tr)")
      case None
      let ?e = "elapsed + tx_took tx (length tr) + 100"
      have "\<exists>k. snd (pane_loop tx session ?e (tr @ [?c])) = (tr @ [?c]) @ replicate k ?c \<and> 100 * k \<le> 2099 - ?e \<and> (?e < 2000 \<longrightarrow> 1 \<le> k)"
        using 1 False None
        by (simp add: workerPaneTimeout_def workerPanePoll_def run_tmux_def)
      then obtain k where k: "snd (pane_loop tx session ?e (tr @ [?c])) = (tr @ [?c]) @ replicate k ?c" "100 * k \<le> 2099 - ?e" by blast
      have "pane_loop tx session elapsed tr = pane_loop tx session ?e (tr @ [?c])"
        using p False None by (simp add: workerPaneTimeout_def workerPanePoll_def run_tmux_def)
      moreover have "100 * Suc k \<le> 2099 - elapsed" using k(2) False by arith
      ultimately show ?thesis using k(1) by (intro exI [of _ "Suc k"]) simp
    next
      case (Some s)
      then have "pane_loop tx session elapsed tr = (elapsed + tx_took tx (length tr), tr @ [?c])"
        using p False by (simp add: workerPaneTimeout_def run_tmux_def)
      then show ?thesis using False by (intro exI [of _ "Suc 0"]) simp
    qed
  qed
qed

text \<open>
  Starting a worker ends after at most twenty polls, whatever tmux answers: a session that
  runs is left alone; otherwise one session is made, and a prompt is typed into it literally, as
  one argument after the end of the options, and only then confirmed, after at least one and at
  most twenty looks for its pane.
\<close>

theorem worker_start_trace:
  "(\<exists>code. workerStart tx session cmd prompt [] =
      (code, [[''has-session'', ''-t'', session], [''display-message'', ''-p'', ''-t'', session, tmux_detail]]) \<and>
      tx_answer tx 0 \<noteq> None \<and> code = 0) \<or>
   (\<exists>code rest. workerStart tx session cmd prompt [] =
      (code, [''has-session'', ''-t'', session] # [''new-session'', ''-d'', ''-s'', session, cmd] # rest) \<and> tx_answer tx 0 = None \<and>
      (rest = [] \<and> (code = 0 \<longleftrightarrow> prompt = [] \<and> tx_answer tx 1 \<noteq> None) \<or>
       (\<exists>k keys. rest = replicate k [''list-panes'', ''-t'', session] @ keys \<and> 1 \<le> k \<and> k \<le> 20 \<and>
          keys \<in> {[[''send-keys'', ''-t'', session, ''-l'', ''--'', prompt]],
                   [[''send-keys'', ''-t'', session, ''-l'', ''--'', prompt], [''send-keys'', ''-t'', session, ''Enter'']]} \<and>
          (code = 0 \<longrightarrow> length keys = 2))))"
proof (cases "tx_answer tx 0")
  case (Some s)
  then show ?thesis by (intro disjI1) (simp add: workerStart_def tmuxHasSession_def run_tmux_def)
next
  case None
  let ?h = "[''has-session'', ''-t'', session]" and ?n = "[''new-session'', ''-d'', ''-s'', session, cmd]"
  have h: "tmuxHasSession tx session [] = ((False, []), [?h])" using None by (simp add: tmuxHasSession_def run_tmux_def)
  show ?thesis
  proof (cases "prompt = [] \<or> tx_answer tx 1 = None")
    case True
    then show ?thesis
      using None h by (intro disjI2) (auto simp: workerStart_def run_tmux_def split: option.splits)
  next
    case False
    obtain k where k: "snd (pane_loop tx session 0 [?h, ?n]) = [?h, ?n] @ replicate k [''list-panes'', ''-t'', session]" "1 \<le> k" "k \<le> 20"
      using pane_loop_trace [of tx session 0 "[?h, ?n]"] by auto
    obtain t where t: "waitForWorkerPane tx session [?h, ?n] = (t, [?h, ?n] @ replicate k [''list-panes'', ''-t'', session])"
      using k(1) by (cases "pane_loop tx session 0 [?h, ?n]") (simp add: waitForWorkerPane_def)
    have "\<exists>code keys. workerStart tx session cmd prompt [] = (code, ?h # ?n # replicate k [''list-panes'', ''-t'', session] @ keys) \<and>
        keys \<in> {[[''send-keys'', ''-t'', session, ''-l'', ''--'', prompt]],
                 [[''send-keys'', ''-t'', session, ''-l'', ''--'', prompt], [''send-keys'', ''-t'', session, ''Enter'']]} \<and>
        (code = 0 \<longrightarrow> length keys = 2)"
      using False h t by (auto simp: workerStart_def run_tmux_def split: option.splits)
    then show ?thesis using None k(2,3) by (intro disjI2) blast
  qed
qed


definition fresh_tmux :: tmux where
  "fresh_tmux = \<lparr>tx_answer = (\<lambda>n. if n = 0 then None else Some []), tx_took = (\<lambda>_. 0)\<rparr>"

theorem worker_start_trace_witness:
  "\<exists>k. workerStart fresh_tmux ''s'' ''claude'' ''hi'' [] =
     (0, [''has-session'', ''-t'', ''s''] # [''new-session'', ''-d'', ''-s'', ''s'', ''claude''] # replicate k [''list-panes'', ''-t'', ''s''] @
       [[''send-keys'', ''-t'', ''s'', ''-l'', ''--'', ''hi''], [''send-keys'', ''-t'', ''s'', ''Enter'']]) \<and> 1 \<le> k \<and> k \<le> 20"
proof -
  have c: "fst (workerStart fresh_tmux ''s'' ''claude'' ''hi'' []) = 0"
    by (simp add: workerStart_def tmuxHasSession_def run_tmux_def fresh_tmux_def waitForWorkerPane_def pane_loop.simps workerPaneTimeout_def)
  moreover have "tx_answer fresh_tmux 0 = None" by (simp add: fresh_tmux_def)
  ultimately show ?thesis using worker_start_trace [of fresh_tmux "''s''" "''claude''" "''hi''"] by auto
qed

text \<open>
  Help for a command asks it with \<open>-h\<close>; \<open>completion\<close> takes this for the name of a shell and fails.
\<close>

theorem help_completion_fails:
  assumes "map_of cs ''completion'' = Some c" "cm_run c = RunCompletion cs"
  shows "fst (run_args info go goos goarch cs [''help'', ''completion'']) = 2"
proof -
  have "to_lower ''-h'' = ''-h''" by code_simp
  then have "fst (RunCompletion cs [''-h'']) = 2" by (simp add: RunCompletion_def Let_def)
  then show ?thesis using assms by (cases "RunCompletion cs [''-h'']") (simp add: run_args_def printSubcommandHelp_def)
qed

end
