(* ===== verification/Commands.thy ===== *)
theory Commands
  imports Go_Flag Service Cli Bridge_Start
begin

text \<open>
  The program as a whole: cmd/a2abridge/main.go, the dispatcher of internal/cli/cli.go and every
  command from its arguments on, flag definitions included.  The machine is the record of what the
  commands get from the system; a run turns the state of the machine (files, the files the updater
  replaces, calls to the supervisor, tmux commands) into another one and an outcome.

  Shown: a command line that is not understood, or asks for help, touches nothing; a flag behind a
  plain argument is not seen; the unit that \<open>service install\<close> registers starts the daemon on the
  address it was installed with.
\<close>

section \<open>The machine\<close>

record ('pair, 'ca) machine =
  mc_host :: host
  mc_own :: own_path
  mc_goarch :: string
  mc_toml :: toml_codec
  mc_skill :: embedded
  mc_script :: string
  mc_configs :: "writer \<Rightarrow> nat \<Rightarrow> config_io"
  mc_extras :: extras_io
  mc_renames :: bool
  mc_deletes :: bool
  mc_stamp :: string
  mc_probe :: "string \<Rightarrow> net_answer option"
  mc_supervisor :: supervisor
  mc_cert :: cert_io
  mc_archives :: archive_formats
  mc_net :: "string \<Rightarrow> net_answer"
  mc_swap :: swap_io
  mc_tmux :: tmux
  mc_has_tmux :: bool
  mc_ppid :: int
  mc_daemon :: daemon_end
  mc_bridge :: "('pair, 'ca) bridge_world"

abbreviation mc_getenv :: "('pair, 'ca) machine \<Rightarrow> string \<Rightarrow> string" where
  "mc_getenv m \<equiv> bw_getenv (mc_bridge m)"

record machine_state =
  ms_files :: fsys
  ms_binaries :: files
  ms_calls :: "svc_call list"
  ms_tmux :: tmux_trace

datatype ('pair, 'ca) outcome = Exit int | Serving "('pair, 'ca) bridge"

type_synonym ('pair, 'ca) result = "('pair, 'ca) outcome \<times> machine_state"

section \<open>The flags\<close>

definition install_flags :: flag_set where
  "install_flags = [(''apply'', Bool_val False), (''dry-run'', Bool_val False), (''ide'', Str_val ''auto''),
     (''binary'', Str_val []), (''directory'', Str_val ''http://127.0.0.1:7777'')]"

definition uninstall_flags :: flag_set where
  "uninstall_flags = [(''purge'', Bool_val False), (''keep-service'', Bool_val False), (''dry-run'', Bool_val False)]"

definition doctor_flags :: flag_set where
  "doctor_flags = [(''directory'', Str_val ''http://127.0.0.1:7777'')]"

definition update_flags :: "(string \<Rightarrow> string) \<Rightarrow> flag_set" where
  "update_flags getenv = [(''repo'', Str_val (envOr getenv ''A2A_REPO'' ''vbcherepanov/a2abridge'')),
     (''version'', Str_val []), (''check'', Bool_val False)]"

definition cert_flags :: flag_set where
  "cert_flags = [(''cn'', Str_val []), (''dir'', Str_val [])]"

definition service_install_flags :: flag_set where
  "service_install_flags = [(''addr'', Str_val defaultDirectoryAddr), (''federation'', Bool_val False), (''cn'', Str_val [])]"

definition service_run_flags :: flag_set where
  "service_run_flags = [(''addr'', Str_val defaultDirectoryAddr)]"

definition worker_start_flags :: flag_set where
  "worker_start_flags = [(''session'', Str_val ''a2abridge-worker''), (''cmd'', Str_val ''claude''), (''prompt'', Str_val [])]"

definition worker_session_flags :: flag_set where
  "worker_session_flags = [(''session'', Str_val ''a2abridge-worker'')]"

definition directory_flags :: "(string \<Rightarrow> string) \<Rightarrow> flag_set" where
  "directory_flags getenv = [(''addr'', Str_val (envOr getenv ''A2A_DIRECTORY_ADDR'' ''127.0.0.1:7777''))]"

definition bridge_flag_set :: "bridge_flags \<Rightarrow> flag_set" where
  "bridge_flag_set fl = [(''directory'', Str_val (bf_directory fl)), (''bind'', Str_val (bf_bind fl)),
     (''advertise-host'', Str_val (bf_advertiseHost fl)), (''name'', Str_val (bf_name fl)), (''model'', Str_val (bf_model fl)),
     (''skills'', Str_val (bf_skills fl)), (''id'', Str_val (bf_id fl)), (''state-dir'', Str_val (bf_stateDir fl))]"

definition bridge_flags_of :: "flag_set \<Rightarrow> bridge_flags" where
  "bridge_flags_of v = \<lparr>bf_directory = str_flag ''directory'' v, bf_bind = str_flag ''bind'' v,
     bf_advertiseHost = str_flag ''advertise-host'' v, bf_name = str_flag ''name'' v, bf_model = str_flag ''model'' v,
     bf_skills = str_flag ''skills'' v, bf_id = str_flag ''id'' v, bf_stateDir = str_flag ''state-dir'' v\<rparr>"

section \<open>The commands\<close>

definition install_command :: "('pair, 'ca) machine \<Rightarrow> string list \<Rightarrow> machine_state \<Rightarrow> ('pair, 'ca) result" where
  "install_command m args s =
     with_flags install_flags args (\<lambda>c. (Exit c, s)) (\<lambda>v.
       case RunInstall (mc_host m) (mc_own m) (mc_toml m) (mc_skill m) (mc_script m) (mc_configs m) (mc_extras m)
              \<lparr>ic_apply = bool_flag ''apply'' v, ic_dryRun = bool_flag ''dry-run'' v, ic_ide = str_flag ''ide'' v,
               ic_binary = str_flag ''binary'' v, ic_directory = str_flag ''directory'' v\<rparr> (ms_files s) of
         (c, _, fs) \<Rightarrow> (Exit c, s\<lparr>ms_files := fs\<rparr>))"

definition uninstall_command :: "('pair, 'ca) machine \<Rightarrow> string list \<Rightarrow> machine_state \<Rightarrow> ('pair, 'ca) result" where
  "uninstall_command m args s =
     with_flags uninstall_flags args (\<lambda>c. (Exit c, s)) (\<lambda>v.
       let dry = bool_flag ''dry-run'' v;
           calls = (if bool_flag ''keep-service'' v then [] else uninstallService (mc_host m) (mc_own m) (mc_supervisor m) dry)
       in case RunUninstall (mc_host m) (mc_toml m) (mc_configs m) (mc_renames m) (mc_deletes m) (mc_stamp m)
                 (bool_flag ''purge'' v) dry (ms_files s) of
            (c, fs) \<Rightarrow> (Exit c, s\<lparr>ms_files := fs, ms_calls := ms_calls s @ calls\<rparr>))"

definition doctor_command :: "('pair, 'ca) machine \<Rightarrow> string list \<Rightarrow> machine_state \<Rightarrow> ('pair, 'ca) result" where
  "doctor_command m args s =
     with_flags doctor_flags args (\<lambda>c. (Exit c, s)) (\<lambda>v.
       (Exit (RunDoctor (mc_host m) (mc_own m) (mc_toml m) (mc_configs m) (mc_probe m) (str_flag ''directory'' v) (ms_files s)), s))"

definition update_command :: "('pair, 'ca) machine \<Rightarrow> string list \<Rightarrow> machine_state \<Rightarrow> ('pair, 'ca) result" where
  "update_command m args s =
     with_flags (update_flags (mc_getenv m)) args (\<lambda>c. (Exit c, s)) (\<lambda>v.
       case RunUpdate (mc_archives m) (mc_net m) (mc_swap m)
              \<lparr>up_repo = str_flag ''repo'' v, up_want = str_flag ''version'' v, up_check = bool_flag ''check'' v,
               up_current = bi_Version (bw_info (mc_bridge m)), up_goos = ho_goos (mc_host m), up_goarch = mc_goarch m,
               up_exe = map_option (\<lambda>e. case op_resolve (mc_own m) e of Some r \<Rightarrow> r | None \<Rightarrow> e) (op_exe (mc_own m)),
               up_stamp = mc_stamp m\<rparr> (ms_binaries s) of
         (c, fs) \<Rightarrow> (Exit (int c), s\<lparr>ms_binaries := fs\<rparr>))"

definition RunCert :: "('pair, 'ca) machine \<Rightarrow> string list \<Rightarrow> machine_state \<Rightarrow> ('pair, 'ca) result" where
  "RunCert m args s =
     (case args of
        [] \<Rightarrow> (Exit 2, s)
      | a # rest \<Rightarrow>
          if a \<in> {''-h'', ''--help''} then (Exit 0, s)
          else if a = ''generate'' then
            with_flags cert_flags rest (\<lambda>c. (Exit c, s)) (\<lambda>v.
              case certGenerate (mc_host m) (ct_hostname (mc_cert m)) (ct_pems (mc_cert m)) (ct_mkdir (mc_cert m))
                     (ct_cert (mc_cert m)) (ct_key (mc_cert m)) (ct_left (mc_cert m))
                     (str_flag ''cn'' v) (str_flag ''dir'' v) (ms_files s) of
                (c, fs) \<Rightarrow> (Exit c, s\<lparr>ms_files := fs\<rparr>))
          else (Exit 2, s))"

text \<open>
  The dispatchers of \<open>service\<close> and \<open>worker\<close> take the flags of the action as parsed; the actions
  without flags of their own refuse arguments themselves.
\<close>

definition run_service :: "('pair, 'ca) machine \<Rightarrow> svc_flags \<Rightarrow> string list \<Rightarrow> machine_state \<Rightarrow> ('pair, 'ca) result" where
  "run_service m fl args s =
     (case RunService (mc_host m) (mc_own m) (mc_supervisor m) (mc_cert m) fl args (ms_files s) of
        (c, calls, fs) \<Rightarrow> (Exit c, s\<lparr>ms_files := fs, ms_calls := ms_calls s @ calls\<rparr>))"

definition service_command :: "('pair, 'ca) machine \<Rightarrow> string list \<Rightarrow> machine_state \<Rightarrow> ('pair, 'ca) result" where
  "service_command m args s =
     (if args \<noteq> [] \<and> hd args = ''install'' then
        with_flags service_install_flags (tl args) (\<lambda>c. (Exit c, s)) (\<lambda>v.
          run_service m \<lparr>sf_addr = str_flag ''addr'' v, sf_federation = bool_flag ''federation'' v, sf_cn = str_flag ''cn'' v\<rparr> args s)
      else if args \<noteq> [] \<and> hd args = ''run'' then
        with_flags service_run_flags (tl args) (\<lambda>c. (Exit c, s)) (\<lambda>v.
          run_service m \<lparr>sf_addr = str_flag ''addr'' v, sf_federation = False, sf_cn = []\<rparr> args s)
      else run_service m \<lparr>sf_addr = [], sf_federation = False, sf_cn = []\<rparr> args s)"

definition run_worker :: "('pair, 'ca) machine \<Rightarrow> worker_flags \<Rightarrow> string list \<Rightarrow> machine_state \<Rightarrow> ('pair, 'ca) result" where
  "run_worker m fl args s =
     (case RunWorker (mc_tmux m) (mc_has_tmux m) fl args (ms_tmux s) of (c, tr) \<Rightarrow> (Exit c, s\<lparr>ms_tmux := tr\<rparr>))"

definition worker_action_flags :: "string \<Rightarrow> flag_set option" where
  "worker_action_flags a =
     (if a = ''start'' then Some worker_start_flags
      else if a \<in> {''stop'', ''status'', ''attach''} then Some worker_session_flags
      else None)"

definition worker_command :: "('pair, 'ca) machine \<Rightarrow> string list \<Rightarrow> machine_state \<Rightarrow> ('pair, 'ca) result" where
  "worker_command m args s =
     (case (if args = [] \<or> \<not> mc_has_tmux m then None else worker_action_flags (hd args)) of
        None \<Rightarrow> run_worker m default_worker_flags args s
      | Some fs \<Rightarrow>
          with_flags fs (tl args) (\<lambda>c. (Exit c, s)) (\<lambda>v.
            run_worker m \<lparr>wf_session = str_flag ''session'' v, wf_cmd = str_flag ''cmd'' v, wf_prompt = str_flag ''prompt'' v\<rparr> args s))"

definition RunDirectory :: "('pair, 'ca) machine \<Rightarrow> string list \<Rightarrow> machine_state \<Rightarrow> ('pair, 'ca) result" where
  "RunDirectory m args s =
     with_flags (directory_flags (mc_getenv m)) args (\<lambda>c. (Exit c, s)) (\<lambda>v. (Exit (serveDirectory (mc_daemon m)), s))"

definition bridge_command :: "('pair, 'ca) machine \<Rightarrow> string list \<Rightarrow> machine_state \<Rightarrow> ('pair, 'ca) result" where
  "bridge_command m args s =
     with_flags (bridge_flag_set (default_flags (mc_getenv m) (bw_ps (mc_bridge m)) (mc_ppid m))) args (\<lambda>c. (Exit c, s)) (\<lambda>v.
       case RunBridge (mc_bridge m) (bridge_flags_of v) (ms_files s) of
         (Inl c, fs) \<Rightarrow> (Exit c, s\<lparr>ms_files := fs\<rparr>)
       | (Inr b, fs) \<Rightarrow> (Serving b, s\<lparr>ms_files := fs\<rparr>))"

section \<open>The program\<close>

definition commands_table ::
  "('pair, 'ca) machine \<Rightarrow> (string \<times> (string list \<Rightarrow> machine_state \<Rightarrow> ('pair, 'ca) result)) list"
where
  "commands_table m =
     [(''bridge'', bridge_command m), (''cert'', RunCert m), (''completion'', \<lambda>args s. (Exit (fst (RunCompletion [] args)), s)),
      (''directory'', RunDirectory m), (''doctor'', doctor_command m), (''install'', install_command m),
      (''service'', service_command m), (''uninstall'', uninstall_command m), (''update'', update_command m),
      (''version'', \<lambda>args s. (Exit 0, s)), (''worker'', worker_command m)]"

definition program :: "('pair, 'ca) machine \<Rightarrow> string list \<Rightarrow> machine_state \<Rightarrow> ('pair, 'ca) result" where
  "program m args s =
     (case args of
        [] \<Rightarrow> (Exit 2, s)
      | a # rest \<Rightarrow>
          if a \<in> {''-h'', ''--help'', ''help''} then
            (case rest of
               [] \<Rightarrow> (Exit 0, s)
             | name # _ \<Rightarrow>
                 (case map_of (commands_table m) name of None \<Rightarrow> (Exit 2, s) | Some cmd \<Rightarrow> cmd [''-h''] s))
          else if a \<in> {''-v'', ''--version''} then (Exit 0, s)
          else (case map_of (commands_table m) a of None \<Rightarrow> (Exit 2, s) | Some cmd \<Rightarrow> cmd rest s))"

lemmas command_defs = install_command_def uninstall_command_def doctor_command_def update_command_def RunCert_def
  service_command_def worker_command_def RunDirectory_def bridge_command_def

section \<open>Command lines that are not understood\<close>

text \<open>The flag set that a command line is checked against, and the arguments it is checked on.\<close>

definition flags_for :: "('pair, 'ca) machine \<Rightarrow> string list \<Rightarrow> (flag_set \<times> string list) option" where
  "flags_for m args =
     (case args of
        [] \<Rightarrow> None
      | a # rest \<Rightarrow>
          if a = ''install'' then Some (install_flags, rest)
          else if a = ''uninstall'' then Some (uninstall_flags, rest)
          else if a = ''doctor'' then Some (doctor_flags, rest)
          else if a = ''update'' then Some (update_flags (mc_getenv m), rest)
          else if a = ''directory'' then Some (directory_flags (mc_getenv m), rest)
          else if a = ''bridge'' then Some (bridge_flag_set (default_flags (mc_getenv m) (bw_ps (mc_bridge m)) (mc_ppid m)), rest)
          else (case rest of
                  [] \<Rightarrow> None
                | b # rest \<Rightarrow>
                    if a = ''cert'' \<and> b = ''generate'' then Some (cert_flags, rest)
                    else if a = ''service'' \<and> b = ''install'' then Some (service_install_flags, rest)
                    else if a = ''service'' \<and> b = ''run'' then Some (service_run_flags, rest)
                    else if a = ''worker'' \<and> mc_has_tmux m then map_option (\<lambda>fs. (fs, rest)) (worker_action_flags b)
                    else None))"

lemma with_flags_error: "parse_flags fs args = Inl e \<Longrightarrow> with_flags fs args quit cmd = quit (if e = ErrHelp then 0 else 2)"
  by (simp add: with_flags_def)

lemma with_flags_stop: "flag_of p = Plain_word \<Longrightarrow> with_flags fs (p # args) quit cmd = with_flags fs [] quit cmd"
  by (simp add: with_flags_def parse_stops parse_none)

lemma program_command:
  assumes "map_of (commands_table m) a = Some cmd"
  shows "program m (a # rest) s = cmd rest s"
proof -
  have "a \<notin> {''-h'', ''--help'', ''help'', ''-v'', ''--version''}"
    using assms by (auto simp: commands_table_def)
  then show ?thesis using assms by (simp add: program_def)
qed

lemma table_entries:
  "map_of (commands_table m) ''bridge'' = Some (bridge_command m)" "map_of (commands_table m) ''cert'' = Some (RunCert m)"
  "map_of (commands_table m) ''directory'' = Some (RunDirectory m)" "map_of (commands_table m) ''doctor'' = Some (doctor_command m)"
  "map_of (commands_table m) ''install'' = Some (install_command m)" "map_of (commands_table m) ''service'' = Some (service_command m)"
  "map_of (commands_table m) ''uninstall'' = Some (uninstall_command m)" "map_of (commands_table m) ''update'' = Some (update_command m)"
  "map_of (commands_table m) ''worker'' = Some (worker_command m)"
  by (simp_all add: commands_table_def)

lemmas program_entries = table_entries [THEN program_command]

text \<open>
  C17. A command line that a command does not understand, or that asks for help, touches nothing:
  for every command and action with flags, arguments that do not parse end the program with exit
  code 2, and \<open>-h\<close> or \<open>--help\<close> in their place with 0, the files, the service and the tmux session
  as they were.
\<close>

theorem misuse_touches_nothing:
  assumes "flags_for m args = Some (fs, rest)" "parse_flags fs rest = Inl e"
  shows "program m args s = (Exit (if e = ErrHelp then 0 else 2), s)"
proof -
  note err = with_flags_error [OF assms(2)]
  obtain a as where a: "args = a # as" using assms(1) by (cases args) (simp_all add: flags_for_def)
  consider (flat) "a \<in> {''install'', ''uninstall'', ''doctor'', ''update'', ''directory'', ''bridge''}"
    | (action) b where "as = b # rest" "a \<in> {''cert'', ''service'', ''worker''}"
    using assms(1) a by (auto simp: flags_for_def split: if_splits list.splits)
  then show ?thesis
  proof cases
    case flat
    then show ?thesis
      using assms(1) err unfolding a by (auto simp: flags_for_def program_entries command_defs)
  next
    case (action b)
    then show ?thesis
      using assms(1) err unfolding a
      by (auto simp: flags_for_def program_entries command_defs split: if_splits)
  qed
qed

definition cert0 :: cert_io where
  "cert0 = \<lparr>ct_hostname = None, ct_pems = (\<lambda>_. None), ct_mkdir = None, ct_cert = True, ct_key = True, ct_left = None\<rparr>"

text \<open>A machine for examples.\<close>

definition machine0 :: "(string, string) machine" where
  "machine0 = \<lparr>mc_host = linux_host, mc_own = plain_own, mc_goarch = ''amd64'', mc_toml = no_toml, mc_skill = [], mc_script = [],
     mc_configs = (\<lambda>_ _. disk_works), mc_extras = xio0, mc_renames = True, mc_deletes = True, mc_stamp = ''1'',
     mc_probe = (\<lambda>_. None), mc_supervisor = second_try, mc_cert = cert0, mc_archives = demo_formats, mc_net = demo_net,
     mc_swap = disk_fine, mc_tmux = fresh_tmux, mc_has_tmux = True, mc_ppid = 7, mc_daemon = Cancelled,
     mc_bridge = Bridge_Start.world0 fed_env (\<lambda>_. Bound 80)\<rparr>"

definition state0 :: machine_state where
  "state0 = \<lparr>ms_files = Map.empty, ms_binaries = Map.empty, ms_calls = [], ms_tmux = []\<rparr>"

theorem misuse_touches_nothing_witness:
  "program machine0 [''uninstall'', ''--purgeall''] state0 = (Exit 2, state0) \<and>
   program machine0 [''worker'', ''start'', ''--prompt=x'', ''-h''] state0 = (Exit 0, state0)"
proof -
  have "parse_flags uninstall_flags [''--purgeall''] = Inl Not_defined" by code_simp
  moreover have "parse_flags worker_start_flags [''--prompt=x'', ''-h''] = Inl ErrHelp" by code_simp
  ultimately show ?thesis
    using misuse_touches_nothing [of machine0 "[''uninstall'', ''--purgeall'']" uninstall_flags "[''--purgeall'']"]
      misuse_touches_nothing [of machine0 "[''worker'', ''start'', ''--prompt=x'', ''-h'']" worker_start_flags "[''--prompt=x'', ''-h'']"]
    by (simp add: flags_for_def machine0_def worker_action_flags_def)
qed

text \<open>
  C38. A flag behind a plain argument is not seen: \<open>install\<close>, \<open>uninstall\<close>, \<open>doctor\<close>, \<open>update\<close>,
  \<open>directory\<close> and \<open>bridge\<close> do the same as without any argument when the first one is not a flag.  So
  \<open>uninstall all --dry-run\<close> removes the configuration.
\<close>

theorem plain_argument_hides_flags:
  assumes "a \<in> {''install'', ''uninstall'', ''doctor'', ''update'', ''directory'', ''bridge''}" "flag_of p = Plain_word"
  shows "program m (a # p # rest) s = program m [a] s"
  using assms(1) with_flags_stop [OF assms(2)] by (auto simp: program_entries command_defs)

theorem plain_argument_hides_flags_witness:
  "ms_calls (snd (program machine0 [''uninstall'', ''all'', ''--dry-run''] state0)) \<noteq> []"
proof -
  have "ms_calls (snd (program machine0 [''uninstall''] state0)) \<noteq> []"
    by (simp add: program_entries uninstall_command_def with_flags_def parse_none uninstall_flags_def uninstallService_def
        buildService_def machine0_def plain_own_def second_try_def Let_def case_prod_beta)
  then show ?thesis using plain_argument_hides_flags [of "''uninstall''" "''all''" machine0] by simp
qed

text \<open>
  C20. The service runs what was installed: the command line that \<open>service install\<close> registers with
  the supervisor, for any address, is one on which the program enters the supervisor's loop with
  the same unit.
\<close>

theorem unit_starts_daemon:
  assumes "buildService (mc_own m) (ho_goos (mc_host m)) (mc_supervisor m) addr = Some u"
  shows "program m (su_arguments u) s =
    (Exit (if sv_run (mc_supervisor m) = None then 0 else 1), s\<lparr>ms_calls := ms_calls s @ [Do_run u]\<rparr>)"
proof -
  have args: "su_arguments u = [''service'', ''run'', ''--addr'', addr]"
    using assms by (auto simp: buildService_def split: option.splits if_splits)
  have "parse_flags service_run_flags [''--addr'', addr] = Inr ([(''addr'', Str_val addr)], [])"
    using parse_separate [of "''addr''" service_run_flags defaultDirectoryAddr addr "[]"]
    by (simp add: service_run_flags_def flag_name_def parse_none)
  then show ?thesis
    using assms
    by (simp add: args program_entries service_command_def with_flags_def run_service_def RunService_def svcRun_def)
qed

theorem unit_starts_daemon_witness:
  "snd (program machine0 [''service'', ''run'', ''--addr'', ''-odd''] state0) =
   state0\<lparr>ms_calls := [Do_run (the (buildService plain_own ''linux'' second_try ''-odd''))]\<rparr>"
proof -
  obtain u where u: "buildService plain_own ''linux'' second_try ''-odd'' = Some u"
    "su_arguments u = [''service'', ''run'', ''--addr'', ''-odd'']"
    by (simp add: buildService_def plain_own_def second_try_def)
  with unit_starts_daemon [of machine0 "''-odd''" u state0] show ?thesis
    by (simp add: machine0_def linux_host_def state0_def)
qed

text \<open>A command line for a dry run: nothing may be written whatever the flags say besides.\<close>

definition dry_line :: "string list \<Rightarrow> bool" where
  "dry_line args =
     (case args of
        [] \<Rightarrow> False
      | a # rest \<Rightarrow>
          if a = ''install'' then
            (case parse_flags install_flags rest of
               Inl _ \<Rightarrow> True | Inr (v, _) \<Rightarrow> \<not> bool_flag ''apply'' v \<or> bool_flag ''dry-run'' v)
          else if a = ''uninstall'' then
            (case parse_flags uninstall_flags rest of Inl _ \<Rightarrow> True | Inr (v, _) \<Rightarrow> bool_flag ''dry-run'' v)
          else False)"

lemma install_dry:
  assumes "\<not> (ic_apply c \<and> \<not> ic_dryRun c)"
  shows "\<exists>code rs. RunInstall h own tm skill script ios xio c fs = (code, rs, fs)"
  using dry_run_pure [of c h own tm skill script ios xio fs] assms
  by (cases "RunInstall h own tm skill script ios xio c fs") auto

lemma uninstall_dry: "\<exists>code. RunUninstall h tm ios renames deletes stamp purge True fs = (code, fs)"
  using dry_run_pure [THEN conjunct2, of h tm ios renames deletes stamp purge fs]
  by (cases "RunUninstall h tm ios renames deletes stamp purge True fs") auto

text \<open>
  C18. A dry run touches nothing, from the command line on: \<open>install\<close> unless \<open>--apply\<close> is given
  and \<open>--dry-run\<close> is not, and \<open>uninstall --dry-run\<close>, leave the files, the service and the
  tmux session as they were, whatever the other flags say.
\<close>

theorem dry_run_touches_nothing:
  assumes "dry_line args"
  shows "snd (program m args s) = s"
proof -
  obtain a rest where a: "args = a # rest" using assms by (cases args) (simp_all add: dry_line_def)
  consider (install) "a = ''install''" | (uninstall) "a = ''uninstall''"
    using assms by (auto simp: a dry_line_def split: if_splits)
  then show ?thesis
  proof cases
    case install
    show ?thesis
    proof (cases "parse_flags install_flags rest")
      case (Inr r)
      then obtain v pos where v: "r = (v, pos)" "\<not> bool_flag ''apply'' v \<or> bool_flag ''dry-run'' v"
        using assms install by (cases r) (simp add: a dry_line_def)
      let ?c = "\<lparr>ic_apply = bool_flag ''apply'' v, ic_dryRun = bool_flag ''dry-run'' v, ic_ide = str_flag ''ide'' v,
               ic_binary = str_flag ''binary'' v, ic_directory = str_flag ''directory'' v\<rparr>"
      have dry: "\<not> (ic_apply ?c \<and> \<not> ic_dryRun ?c)"
        using v(2) by (simp del: bool_flag.simps)
      obtain code rs where "RunInstall (mc_host m) (mc_own m) (mc_toml m) (mc_skill m) (mc_script m) (mc_configs m)
          (mc_extras m) ?c (ms_files s) = (code, rs, ms_files s)"
        using install_dry [of ?c, OF dry] by blast
      then show ?thesis
        using Inr v(1) install
        by (simp add: a program_entries install_command_def with_flags_def del: bool_flag.simps str_flag.simps)
    qed (use install in \<open>simp add: a program_entries install_command_def with_flags_def\<close>)
  next
    case uninstall
    show ?thesis
    proof (cases "parse_flags uninstall_flags rest")
      case (Inr r)
      then obtain v pos where v: "r = (v, pos)" "bool_flag ''dry-run'' v"
        using assms uninstall by (cases r) (simp add: a dry_line_def)
      obtain code where "RunUninstall (mc_host m) (mc_toml m) (mc_configs m) (mc_renames m) (mc_deletes m) (mc_stamp m)
          (bool_flag ''purge'' v) True (ms_files s) = (code, ms_files s)"
        using uninstall_dry by blast
      then show ?thesis
        using Inr v uninstall
        by (simp add: a program_entries uninstall_command_def with_flags_def uninstallService_def Let_def
            del: bool_flag.simps str_flag.simps)
    qed (use uninstall in \<open>simp add: a program_entries uninstall_command_def with_flags_def\<close>)
  qed
qed

theorem dry_run_touches_nothing_witness:
  "snd (program machine0 [''install'', ''--ide=codex'', ''--apply'', ''-dry-run''] state0) = state0"
  by (rule dry_run_touches_nothing) code_simp

text \<open>A command line that spells out every flag of the bridge gives \<open>RunBridge\<close> exactly these values.\<close>

lemma bridge_line_read_back:
  "bridge_command m (map spell (bridge_flag_set fl) @ [''--'']) s =
     (case RunBridge (mc_bridge m) fl (ms_files s) of
        (Inl c, fs) \<Rightarrow> (Exit c, s\<lparr>ms_files := fs\<rparr>)
      | (Inr b, fs) \<Rightarrow> (Serving b, s\<lparr>ms_files := fs\<rparr>))"
proof -
  let ?d = "bridge_flag_set (default_flags (mc_getenv m) (bw_ps (mc_bridge m)) (mc_ppid m))"
  have "same_flags ?d (bridge_flag_set fl)" "distinct (map fst ?d)" "list_all (\<lambda>(n, v). flag_name n) ?d"
    by (simp_all add: same_flags_def bridge_flag_set_def flag_name_def)
  then have "parse_flags ?d (map spell (bridge_flag_set fl) @ [''--'']) = Inr (bridge_flag_set fl, [])"
    by (rule flags_read_back)
  moreover have "bridge_flags_of (bridge_flag_set fl) = fl"
    by (simp add: bridge_flags_of_def bridge_flag_set_def)
  ultimately show ?thesis by (simp add: bridge_command_def with_flags_def)
qed

end
