(* ===== verification/Tool_Table.thy ===== *)
theory Tool_Table
  imports Mcp_Tools
begin

text \<open>
  \<open>RegisterTools\<close> of internal/agent/mcp.go: the table of the tools with their parameters, and the call
  of a tool by its name.  The MCP library that reads the arguments is a parameter (\<open>mcp_request\<close>), the
  descriptions are left out.

  Shown: the handlers keep what the table promises; a call without a required argument, and a call
  of a tool that only reads, leave the agent as it was.
\<close>

section \<open>The table\<close>

datatype param_kind = String_param | Boolean_param | Number_param

record tool_param =
  tp_name :: string
  tp_kind :: param_kind
  tp_required :: bool

definition required :: "string \<Rightarrow> tool_param" where
  "required n = \<lparr>tp_name = n, tp_kind = String_param, tp_required = True\<rparr>"

definition optional :: "param_kind \<Rightarrow> string \<Rightarrow> tool_param" where
  "optional kd n = \<lparr>tp_name = n, tp_kind = kd, tp_required = False\<rparr>"

definition tool_table :: "(string \<times> tool_param list) list" where
  "tool_table =
     [(''a2a_whoami'', []),
      (''a2a_list_agents'', []),
      (''a2a_send_message'', [required ''peer_url'', required ''text'', optional Boolean_param ''blocking'',
         optional String_param ''context_id'', optional String_param ''task_id'']),
      (''a2a_send_streaming'', [required ''peer_url'', required ''text'', optional Number_param ''timeout_s'']),
      (''a2a_get_task'', [required ''peer_url'', required ''task_id'']),
      (''a2a_cancel_task'', [required ''peer_url'', required ''task_id'']),
      (''a2a_inbox'', [optional Boolean_param ''peek'']),
      (''a2a_complete_task'', [required ''task_id'', required ''text''])]"

section \<open>The calls\<close>

text \<open>
  What a call gets from outside: clocks, identifiers, the peers, the directory and the encoders.  The
  text of an error of the directory is a parameter.
\<close>

record 'card tool_env =
  te_sdk :: sdk
  te_codec :: snapshot_codec
  te_disk :: disk_io
  te_now :: gotime
  te_newId :: string
  te_me :: identity
  te_encoders :: encoders
  te_peers :: peer_net
  te_timeout :: string
  te_expired :: bool
  te_ownCard :: 'card
  te_encCard :: "'card \<Rightarrow> string option"
  te_encPeers :: "'card peer_info list \<Rightarrow> string option"
  te_directory :: "string \<Rightarrow> net_answer"
  te_resolve :: "string \<Rightarrow> string + 'card"
  te_directoryURL :: string
  te_listError :: string

definition tool_whoami :: "'card tool_env \<Rightarrow> tool_result" where
  "tool_whoami te = jsonResult (te_encCard te) (te_ownCard te)"

definition tool_list_agents :: "'card tool_env \<Rightarrow> tool_result" where
  "tool_list_agents te =
     (case listPeers (te_directory te) (te_resolve te) (te_directoryURL te) (identity.self_url (te_me te)) of
        None \<Rightarrow> Tool_error (te_listError te)
      | Some ps \<Rightarrow> jsonResult (te_encPeers te) ps)"

definition call_tool :: "'card tool_env \<Rightarrow> string \<Rightarrow> mcp_request \<Rightarrow> mcp_world \<Rightarrow> (tool_result \<times> mcp_world) option" where
  "call_tool te name rq w =
     (if name = ''a2a_whoami'' then Some (tool_whoami te, w)
      else if name = ''a2a_list_agents'' then Some (tool_list_agents te, w)
      else if name = ''a2a_send_message'' then
        Some (tool_send_message (te_sdk te) (te_codec te) (te_disk te) (te_now te) (te_newId te) (te_me te) (te_encoders te)
          (te_peers te) rq w)
      else if name = ''a2a_send_streaming'' then
        Some (tool_send_streaming (te_sdk te) (te_timeout te) (te_expired te) (te_newId te) (te_me te) (te_encoders te)
          (te_peers te) rq w)
      else if name = ''a2a_get_task'' then Some (tool_get_task (te_encoders te) (te_peers te) rq, w)
      else if name = ''a2a_cancel_task'' then Some (tool_cancel_task (te_encoders te) (te_peers te) rq, w)
      else if name = ''a2a_inbox'' then Some (tool_inbox (te_codec te) (te_disk te) rq w)
      else if name = ''a2a_complete_task'' then Some (tool_complete_task (te_codec te) (te_disk te) rq w)
      else None)"

section \<open>Peers\<close>

text \<open>
  internal/agent/peers.go over the SDK: fetching a card and connecting to it are parameters.  The
  client is released when the tool returns, which leaves no trace in the model.
\<close>

record 'card peer_sdk =
  ps_resolve :: "string \<Rightarrow> string + 'card"
  ps_connect :: "'card \<Rightarrow> string + unit"
  ps_name :: "'card \<Rightarrow> string"

definition Peers_Resolve :: "'card peer_sdk \<Rightarrow> string \<Rightarrow> string + 'card" where
  "Peers_Resolve ps baseURL =
     (case ps_resolve ps baseURL of
        Inl e \<Rightarrow> Inl (''resolve agent card of '' @ baseURL @ '': '' @ e)
      | Inr crd \<Rightarrow> Inr crd)"

definition Peers_Client :: "'card peer_sdk \<Rightarrow> string \<Rightarrow> string + 'card" where
  "Peers_Client ps baseURL =
     (case Peers_Resolve ps baseURL of
        Inl e \<Rightarrow> Inl e
      | Inr crd \<Rightarrow>
          (case ps_connect ps crd of
             Inl e \<Rightarrow> Inl (''connect to '' @ baseURL @ '': '' @ e)
           | Inr _ \<Rightarrow> Inr crd))"

text \<open>The tools and discovery go through the same peers.\<close>

definition with_peers :: "'card peer_sdk \<Rightarrow> 'card tool_env \<Rightarrow> 'card tool_env" where
  "with_peers ps te =
     te\<lparr>te_peers := (te_peers te)\<lparr>pn_client := (\<lambda>u. map_sum id (ps_name ps) (Peers_Client ps u))\<rparr>, te_resolve := Peers_Resolve ps\<rparr>"

section \<open>Properties\<close>

text \<open>The first complaint of the library about a required parameter, in the order of the table.\<close>

fun first_missing :: "mcp_request \<Rightarrow> tool_param list \<Rightarrow> string option" where
  "first_missing rq [] = None"
| "first_missing rq (p # ps) =
     (if tp_required p then (case mr_require rq (tp_name p) of Inl e \<Rightarrow> Some e | Inr _ \<Rightarrow> first_missing rq ps)
      else first_missing rq ps)"

lemmas tool_defs = tool_send_message_def tool_send_streaming_def tool_get_task_def tool_cancel_task_def tool_inbox_def
  tool_complete_task_def

text \<open>
  C19. The handlers check what the table requires, and first: every tool of the table, and no other,
  can be called; a call that lacks a required argument is answered with the library's complaint
  about the first one that is missing, and nothing was sent, stored, subscribed or counted.
\<close>

theorem tool_arguments_checked:
  "(map_of tool_table name = None \<longleftrightarrow> call_tool te name rq w = None) \<and>
   (case map_of tool_table name of
      None \<Rightarrow> True
    | Some ps \<Rightarrow> (case first_missing rq ps of None \<Rightarrow> True | Some e \<Rightarrow> call_tool te name rq w = Some (Tool_error e, w)))"
proof (cases "name \<in> fst ` set tool_table")
  case False
  then have "map_of tool_table name = None" by (simp add: map_of_eq_None_iff)
  moreover have "call_tool te name rq w = None" using False by (auto simp: tool_table_def call_tool_def)
  ultimately show ?thesis by simp
next
  case True
  then show ?thesis
    unfolding tool_table_def
    by (auto simp: call_tool_def required_def optional_def tool_defs split: sum.split)
qed

text \<open>A peer whose card cannot be fetched is neither sent to nor waited for, and the tool says why.\<close>

lemma unresolved_peer:
  assumes "mr_require rq ''peer_url'' = Inr u" "mr_require rq ''text'' = Inr x" "ps_resolve ps u = Inl e"
  shows "call_tool (with_peers ps te) ''a2a_send_message'' rq w =
    Some (Tool_error (''resolve agent card of '' @ u @ '': '' @ e), w)"
  using assms
  by (simp add: call_tool_def with_peers_def tool_send_message_def Peers_Client_def Peers_Resolve_def Let_def case_prod_beta)

end
