(* ===== verification/Error_Body.thy ===== *)
theory Error_Body
  imports Mcp_Tools Protocol_Guard Jsonc Go_Net
begin

text \<open>
  internal/agent/guard.go: the bodies of the guard's own error answers.  The detail that the SDK's
  \<open>errordetails\<close> package builds from a reason and its metadata is a parameter, as is the text of the
  error.

  Shown: a client that reads the body back finds the code, the status, the message and the
  details, and, for a number, the very identifier it sent.
\<close>

type_synonym error_info = "string \<Rightarrow> (string \<times> string) list \<Rightarrow> json"

definition errorDetails :: "error_info \<Rightarrow> gotime \<Rightarrow> string \<Rightarrow> string \<Rightarrow> json list" where
  "errorDetails info now why taskID =
     [info why ((''timestamp'', time_format False (time_utc now)) # (if taskID = [] then [] else [(''taskId'', taskID)]))]"

definition restErrorResponse :: "nat \<Rightarrow> string \<Rightarrow> string \<Rightarrow> json list \<Rightarrow> json" where
  "restErrorResponse code status msg details =
     JObj [(''error'', JObj ([(''code'', JNum (utoa code)), (''status'', JStr status), (''message'', JStr msg)] @
       (if details = [] then [] else [(''details'', JArr details)])))]"

definition rest_error_body :: "error_info \<Rightarrow> gotime \<Rightarrow> nat \<Rightarrow> error_codes \<Rightarrow> string \<Rightarrow> task_id \<Rightarrow> string" where
  "rest_error_body info now status codes msg taskID =
     marshal (restErrorResponse status (grpcStatus codes) msg (errorDetails info now (reason codes) taskID)) @ [CHR 0x0A]"

text \<open>
  A raw message is copied into the answer, without white space outside strings (an identifier has
  none) and with the characters escaped that the encoder keeps out of HTML.
\<close>

fun escape_raw :: "string \<Rightarrow> string" where
  "escape_raw [] = []"
| "escape_raw (c # s) =
     (if c \<in> {CHR ''<'', CHR ''>'', CHR ''&''} then u_escape (byte_of c) @ escape_raw s
      else if c = CHR 0xE2 \<and> length s \<ge> 2 \<and> s ! 0 = CHR 0x80 \<and> (s ! 1 = CHR 0xA8 \<or> s ! 1 = CHR 0xA9)
        then u_escape (if s ! 1 = CHR 0xA8 then 0x2028 else 0x2029) @ escape_raw (drop 2 s)
      else c # escape_raw s)"

definition rpcErrorBody :: "int \<Rightarrow> string \<Rightarrow> json list \<Rightarrow> json" where
  "rpcErrorBody code msg data =
     JObj ([(''code'', JNum (itoa code)), (''message'', JStr msg)] @ (if data = [] then [] else [(''data'', JArr data)]))"

definition rpc_error_body :: "error_info \<Rightarrow> gotime \<Rightarrow> string option \<Rightarrow> error_codes \<Rightarrow> string \<Rightarrow> string" where
  "rpc_error_body info now i codes msg =
     ''{'' @ quote_json ''jsonrpc'' @ '':'' @ quote_json jsonrpcVersion @ '','' @ quote_json ''id'' @ '':'' @
     (case i of None \<Rightarrow> ''null'' | Some raw \<Rightarrow> escape_raw raw) @ '','' @ quote_json ''error'' @ '':'' @
     marshal (rpcErrorBody (rpcCode codes) msg (errorDetails info now (reason codes) [])) @ ''}'' @ [CHR 0x0A]"

section \<open>Reading back\<close>

lemma valid_utoa: "valid_num (utoa n)"
proof -
  obtain c cs where u: "utoa n = c # cs" "is_digit c" using utoa_hd by blast
  have "list_all is_digit (utoa n)" by (rule utoa_digits)
  then have all: "takeWhile is_digit (utoa n) = utoa n" "dropWhile is_digit (utoa n) = []"
    by (simp_all add: list_all_iff)
  have "cs = []" if "c = CHR ''0''" using utoa_leading_zero [of n] that u(1) by simp
  then have "scan_int (utoa n) = Some (utoa n, [])"
    using u all by (auto simp: scan_int_def)
  moreover have "c \<noteq> CHR ''-''" using u(2) by (auto simp: is_digit_def)
  ultimately show ?thesis
    using u(1) by (simp add: valid_num_def parse_num_def scan_unsigned_def scan_frac_def scan_exp_def)
qed

lemma valid_itoa: "valid_num (itoa i)"
proof (cases "i < 0")
  case True
  obtain c cs where u: "utoa (nat (- i)) = c # cs" "is_digit c" using utoa_hd by blast
  then have "parse_num (c # cs) = scan_unsigned (c # cs)" by (auto simp: parse_num_def is_digit_def)
  moreover have "parse_num (c # cs) = Some (c # cs, [])" using valid_utoa [of "nat (- i)"] u(1) by (simp add: valid_num_def)
  ultimately show ?thesis using True u(1) by (simp add: itoa_def valid_num_def parse_num_def)
qed (simp add: itoa_def valid_utoa)

lemma escape_plain: "list_all (\<lambda>c. c \<notin> {CHR ''<'', CHR ''>'', CHR ''&'', CHR 0xE2}) s \<Longrightarrow> escape_raw s = s"
  by (induction s) auto

lemma escape_num: "valid_num n \<Longrightarrow> escape_raw n = n"
  using parse_num_chars [of n n "[]"]
  by (intro escape_plain) (auto simp: valid_num_def list_all_iff num_char_def is_digit_def)

text \<open>Without line breaks the depth does not show.\<close>

lemma print_level: "print_json (\<lambda>_. []) [] a j = print_json (\<lambda>_. []) [] b j"
proof (induction j arbitrary: a b)
  case (JArr xs)
  have "print_elems (\<lambda>_. []) [] a ys = print_elems (\<lambda>_. []) [] b ys" if "set ys \<subseteq> set xs" for ys
    using that by (induction ys) (auto intro: JArr.IH)
  then show ?case by simp
next
  case (JObj ms)
  have "print_members (\<lambda>_. []) [] a ys = print_members (\<lambda>_. []) [] b ys" if "set ys \<subseteq> set ms" for ys
    using that
  proof (induction ys)
    case (Cons m ys)
    moreover have "print_json (\<lambda>_. []) [] (Suc a) (snd m) = print_json (\<lambda>_. []) [] (Suc b) (snd m)"
      using JObj.IH [of m "snd m"] Cons.prems by (cases m) auto
    ultimately show ?case by simp
  qed simp
  then show ?case by simp
qed simp_all

text \<open>
  A REST error is read back as it was meant: any client that decodes the body finds the status code, the
  status name, the message and the detail with the reason, the time and the task.
\<close>

theorem rest_error_read_back:
  assumes "fits (maxNestingDepth - 3) (hd (errorDetails info now (reason codes) taskID))"
  shows "decode_first (rest_error_body info now status codes msg taskID) =
    Some (clean_json (restErrorResponse status (grpcStatus codes) msg (errorDetails info now (reason codes) taskID)))"
  unfolding rest_error_body_def
  by (rule decode_first_marshal_newline)
     (use assms in \<open>auto simp: restErrorResponse_def errorDetails_def maxNestingDepth_def valid_utoa\<close>)

text \<open>
  A JSON-RPC error carries the identifier of the request: for a number, however large, the very
  digits; without an identifier, null.
\<close>

theorem rpc_error_read_back:
  assumes "fits (maxNestingDepth - 3) (hd (errorDetails info now (reason codes) []))"
    and "case i of None \<Rightarrow> v = JNull | Some raw \<Rightarrow> valid_num raw \<and> v = JNum raw"
  shows "decode_first (rpc_error_body info now i codes msg) =
    Some (clean_json (JObj [(''jsonrpc'', JStr jsonrpcVersion), (''id'', v),
      (''error'', rpcErrorBody (rpcCode codes) msg (errorDetails info now (reason codes) []))]))"
proof -
  let ?j = "JObj [(''jsonrpc'', JStr jsonrpcVersion), (''id'', v),
      (''error'', rpcErrorBody (rpcCode codes) msg (errorDetails info now (reason codes) []))]"
  have "rpc_error_body info now i codes msg = marshal ?j @ [CHR 0x0A]"
    using assms(2) print_level [of "Suc 0" _ 0]
    by (cases i) (auto simp: rpc_error_body_def marshal_def escape_num)
  moreover have "fits maxNestingDepth ?j"
    using assms by (cases i) (auto simp: rpcErrorBody_def errorDetails_def maxNestingDepth_def valid_itoa)
  ultimately show ?thesis by (simp only: decode_first_marshal_newline)
qed

text \<open>A string identifier with characters of HTML is sent back in another spelling.\<close>

lemma string_id_respelled: "escape_raw [dquote, CHR ''<'', dquote] = dquote # bslash # ''u003c'' @ [dquote]"
  by code_simp

end
