(* ===== verification/Mdns.thy ===== *)
theory Mdns
  imports Directory
begin

text \<open>
  internal/mdns/mdns.go: announcing a peer on the local network and finding others.  The mDNS
  library is the list of what its channel delivers; \<open>url.Parse\<close> is a parameter that gives scheme,
  host and port.  Shown: a sweep returns each advertised URL once and only URLs that were
  advertised, and what one bridge publishes is what another finds.
\<close>

type_synonym mdns_parser = "string \<Rightarrow> (string \<times> string \<times> string) option"

record service_entry =
  se_text :: "string list"
  se_hostName :: string
  se_port :: int

record registration =
  rg_instance :: string
  rg_type :: string
  rg_domain :: string
  rg_port :: int
  rg_txt :: "string list"

definition serviceType :: string where
  "serviceType = ''_a2a._tcp''"

definition portFromURL :: "string \<Rightarrow> string \<Rightarrow> string" where
  "portFromURL scheme port =
     (if port \<noteq> [] then port
      else if scheme = ''http'' then ''80''
      else if scheme = ''https'' then ''443''
      else [])"

text \<open>\<open>registers\<close> tells whether the library accepts the registration.\<close>

definition Publish :: "mdns_parser \<Rightarrow> (registration \<Rightarrow> bool) \<Rightarrow> string \<Rightarrow> string \<Rightarrow> registration option" where
  "Publish parse registers instanceName peerURL =
     (case parse peerURL of
        None \<Rightarrow> None
      | Some (scheme, _, port) \<Rightarrow>
          (case atoi (portFromURL scheme port) of
             None \<Rightarrow> None
           | Some n \<Rightarrow>
               (let reg = \<lparr>rg_instance = (if instanceName = [] then ''a2abridge-peer'' else instanceName), rg_type = serviceType,
                      rg_domain = ''local.'', rg_port = n, rg_txt = [''a2a-version=1.0'', ''url='' @ peerURL]\<rparr>
                in if registers reg then Some reg else None)))"

text \<open>A publisher is the registration it holds; nil and closed publishers hold none.\<close>

definition Close_publisher :: "registration option \<Rightarrow> registration option" where
  "Close_publisher p = None"

definition valid_advert :: "mdns_parser \<Rightarrow> string \<Rightarrow> bool" where
  "valid_advert parse raw =
     (case parse raw of
        None \<Rightarrow> False
      | Some (scheme, host, _) \<Rightarrow> (scheme = ''http'' \<or> scheme = ''https'') \<and> host \<noteq> [])"

fun advertised :: "mdns_parser \<Rightarrow> string list \<Rightarrow> string option" where
  "advertised parse [] = None"
| "advertised parse (t # ts) =
     (case cut_prefix t ''url='' of
        None \<Rightarrow> advertised parse ts
      | Some raw \<Rightarrow> if valid_advert parse raw then Some raw else advertised parse ts)"

definition urlFromEntry :: "mdns_parser \<Rightarrow> service_entry \<Rightarrow> string" where
  "urlFromEntry parse e =
     (case advertised parse (se_text e) of
        Some raw \<Rightarrow> raw
      | None \<Rightarrow>
          if se_hostName e = [] \<or> se_port e = 0 then []
          else ''http://'' @ trim_suffix (se_hostName e) ''.'' @ '':'' @ itoa (se_port e))"

text \<open>
  What the loop of a sweep receives: an entry, the end of the channel, or the end of the time.
  The time always ends, so a finite list says everything.
\<close>

datatype sweep_event = Entry service_entry | Channel_closed | Time_over

fun browse_loop :: "mdns_parser \<Rightarrow> sweep_event list \<Rightarrow> string list \<Rightarrow> string list" where
  "browse_loop parse [] urls = urls"
| "browse_loop parse (Time_over # evs) urls = urls"
| "browse_loop parse (Channel_closed # evs) urls = urls"
| "browse_loop parse (Entry e # evs) urls =
     (let u = urlFromEntry parse e in browse_loop parse evs (if u \<noteq> [] \<and> u \<notin> set urls then urls @ [u] else urls))"

definition Browse :: "mdns_parser \<Rightarrow> bool \<Rightarrow> bool \<Rightarrow> sweep_event list \<Rightarrow> string list option" where
  "Browse parse resolver starts evs = (if \<not> resolver \<or> \<not> starts then None else Some (browse_loop parse evs []))"

section \<open>Properties\<close>

fun received :: "sweep_event list \<Rightarrow> service_entry list" where
  "received (Entry e # evs) = e # received evs"
| "received _ = []"

lemma browse_loop_set:
  "set (browse_loop parse evs urls) = set urls \<union> {u. u \<noteq> [] \<and> (\<exists>e \<in> set (received evs). urlFromEntry parse e = u)}"
  by (induction parse evs urls rule: browse_loop.induct) (auto simp: Let_def)

lemma browse_loop_distinct: "distinct urls \<Longrightarrow> distinct (browse_loop parse evs urls)"
  by (induction parse evs urls rule: browse_loop.induct) (auto simp: Let_def)

lemma advertised_valid: "advertised parse ts = Some u \<Longrightarrow> valid_advert parse u"
  by (induction ts) (auto split: option.splits if_splits)

lemma published_text: "valid_advert parse url \<Longrightarrow> advertised parse [''a2a-version=1.0'', ''url='' @ url] = Some url"
  by (simp add: cut_prefix_def has_prefix_def)

text \<open>
  Peers find each other on the local network: a sweep that receives the entry a bridge
  published returns its URL; it returns no URL twice, and every URL it returns was advertised by a
  received entry, as an absolute http or https URL or as a host and port.
\<close>

theorem published_is_found:
  assumes "Publish parse registers name url = Some reg" "valid_advert parse url" "url \<noteq> []"
    and "Browse parse True True evs = Some urls" "e \<in> set (received evs)" "se_text e = rg_txt reg"
  shows "url \<in> set urls \<and> distinct urls \<and>
    (\<forall>u \<in> set urls. \<exists>e \<in> set (received evs). u = urlFromEntry parse e \<and>
       (valid_advert parse u \<or> u = ''http://'' @ trim_suffix (se_hostName e) ''.'' @ '':'' @ itoa (se_port e)))"
proof (intro conjI ballI)
  have urls: "urls = browse_loop parse evs []" using assms(4) by (simp add: Browse_def)
  have "rg_txt reg = [''a2a-version=1.0'', ''url='' @ url]"
    using assms(1) by (auto simp: Publish_def Let_def split: option.splits if_splits)
  then have "urlFromEntry parse e = url" using assms(2,6) published_text by (simp add: urlFromEntry_def)
  then show "url \<in> set urls" using assms(3,5) unfolding urls browse_loop_set by blast
  show "distinct urls" unfolding urls by (rule browse_loop_distinct) simp
  fix u
  assume "u \<in> set urls"
  then obtain e where e: "e \<in> set (received evs)" "urlFromEntry parse e = u" "u \<noteq> []" unfolding urls browse_loop_set by auto
  then have "valid_advert parse u \<or> u = ''http://'' @ trim_suffix (se_hostName e) ''.'' @ '':'' @ itoa (se_port e)"
    by (auto simp: urlFromEntry_def advertised_valid split: option.splits if_splits)
  then show "\<exists>e \<in> set (received evs). u = urlFromEntry parse e \<and>
      (valid_advert parse u \<or> u = ''http://'' @ trim_suffix (se_hostName e) ''.'' @ '':'' @ itoa (se_port e))"
    using e by (intro bexI [of _ e]) auto
qed

definition lan_parser :: mdns_parser where
  "lan_parser u = (if has_prefix u ''http://'' then Some (''http'', ''h'', ''7001'') else None)"

definition bad_entry :: service_entry where
  "bad_entry = \<lparr>se_text = [''url=file:///etc''], se_hostName = ''box.'', se_port = 80\<rparr>"

definition good_entry :: service_entry where
  "good_entry = \<lparr>se_text = [''a2a-version=1.0'', ''url=http://h:7001''], se_hostName = [], se_port = 0\<rparr>"

theorem published_is_found_witness:
  "\<exists>reg. Publish lan_parser (\<lambda>_. True) [] ''http://h:7001'' = Some reg \<and>
     Browse lan_parser True True [Entry bad_entry, Entry good_entry, Entry good_entry, Time_over] = Some [''http://box:80'', ''http://h:7001''] \<and>
     ''http://h:7001'' \<in> set [''http://box:80'', ''http://h:7001'']"
proof -
  let ?evs = "[Entry bad_entry, Entry good_entry, Entry good_entry, Time_over]"
  have b: "Browse lan_parser True True ?evs = Some [''http://box:80'', ''http://h:7001'']" by code_simp
  have "atoi ''7001'' = Some 7001" by code_simp
  then obtain reg where p: "Publish lan_parser (\<lambda>_. True) [] ''http://h:7001'' = Some reg" "rg_txt reg = [''a2a-version=1.0'', ''url=http://h:7001'']"
    by (simp add: Publish_def lan_parser_def has_prefix_def portFromURL_def)
  have "valid_advert lan_parser ''http://h:7001''" by code_simp
  moreover have "good_entry \<in> set (received ?evs)" "se_text good_entry = rg_txt reg" using p(2) by (simp_all add: good_entry_def)
  ultimately show ?thesis using p(1) b published_is_found [OF p(1) _ _ b] by blast
qed

end
