(* ===== verification/Tck.thy ===== *)
theory Tck
  imports A2A_Types
begin

text \<open>
  cmd/a2abridge-tck/main.go: the scripted agent that the conformance suite talks to.  A step
  of a scenario is data here and \<open>run_step\<close> runs it; the consumer of the events is a
  function that says for each position whether it reads on; the cancellation of the context is a
  function of the number of steps that are left.  Identifiers of artifacts are the position at which they are made; an update carries its mark for
  the last chunk.  The wiring of the
  server is that of the bridge and is left out, as is the time of \<open>hold\<close>.
\<close>

datatype tck_state = TS_working | TS_completed | TS_input_required | TS_canceled

datatype tck_part = Text_part string | File_part string string string | File_url_part string string string | Data_part json

datatype tck_item =
    Submitted
  | Status_event tck_state "string option"
  | Artifact_event nat tck_part
  | Artifact_update nat tck_part bool
  | Message_event string string
  | Error_item string

datatype tck_step =
    Status tck_state
  | Complete_with_message string
  | Artifact tck_part
  | Chunked_artifact string string
  | Message_response string
  | Fail string
  | Hold

record scenario =
  sc_prefix :: string
  sc_messageOnly :: bool
  sc_run :: "tck_step list"

definition filePart :: tck_part where
  "filePart = File_part ''tck'' ''output.txt'' ''text/plain''"

definition fileURLPart :: tck_part where
  "fileURLPart = File_url_part ''https://example.com/output.txt'' ''output.txt'' ''text/plain''"

definition dataPart :: tck_part where
  "dataPart = Data_part (JObj [(''count'', JNum ''42''), (''key'', JStr ''value'')])"

definition workingArtifactCompleted :: "string \<Rightarrow> tck_step list" where
  "workingArtifactCompleted t = [Status TS_working, Artifact (Text_part t), Status TS_completed]"

definition task_scenario :: "string \<Rightarrow> tck_step list \<Rightarrow> scenario" where
  "task_scenario p steps = \<lparr>sc_prefix = p, sc_messageOnly = False, sc_run = steps\<rparr>"

definition scenarios :: "scenario list" where
  "scenarios =
     [task_scenario ''tck-complete-task'' [Complete_with_message ''Hello from TCK''],
      task_scenario ''tck-artifact-text'' [Artifact (Text_part ''Generated text content''), Status TS_completed],
      task_scenario ''tck-artifact-file-url'' [Artifact fileURLPart, Status TS_completed],
      task_scenario ''tck-artifact-file'' [Artifact filePart, Status TS_completed],
      task_scenario ''tck-artifact-data'' [Artifact dataPart, Status TS_completed],
      \<lparr>sc_prefix = ''tck-message-response'', sc_messageOnly = True, sc_run = [Message_response ''Direct message response'']\<rparr>,
      task_scenario ''tck-input-required'' [Status TS_input_required],
      task_scenario ''tck-reject-task'' [Fail ''rejected''],
      task_scenario ''tck-stream-001'' (workingArtifactCompleted ''Stream hello from TCK''),
      task_scenario ''tck-stream-002'' [Status TS_completed],
      task_scenario ''tck-stream-003'' (workingArtifactCompleted ''Stream task lifecycle''),
      task_scenario ''tck-stream-ordering-001'' (workingArtifactCompleted ''Ordered output''),
      task_scenario ''tck-stream-artifact-text'' (workingArtifactCompleted ''Streamed text content''),
      task_scenario ''tck-stream-artifact-file'' [Status TS_working, Artifact filePart, Status TS_completed],
      task_scenario ''tck-stream-artifact-chunked'' [Status TS_working, Chunked_artifact ''chunk-1 '' ''chunk-2'', Status TS_completed],
      task_scenario ''test-resubscribe-message-id'' [Status TS_working, Hold, Status TS_completed]]"

definition match_scenario :: "string \<Rightarrow> scenario" where
  "match_scenario messageID =
     (case List.find (\<lambda>sc. has_prefix messageID (sc_prefix sc)) scenarios of
        Some sc \<Rightarrow> sc
      | None \<Rightarrow> task_scenario [] [Complete_with_message (''Unhandled messageId prefix: '' @ messageID)])"

text \<open>An item is handed over; the second component tells whether the scenario may go on.\<close>

definition is_error :: "tck_item \<Rightarrow> bool" where
  "is_error i = (case i of Error_item _ \<Rightarrow> True | _ \<Rightarrow> False)"

definition hand :: "(nat \<Rightarrow> bool) \<Rightarrow> tck_item \<Rightarrow> tck_item list \<Rightarrow> tck_item list \<times> bool" where
  "hand reads i out = (out @ [i], reads (length out) \<and> \<not> is_error i)"

definition run_step :: "(nat \<Rightarrow> bool) \<Rightarrow> string \<Rightarrow> tck_step \<Rightarrow> tck_item list \<Rightarrow> tck_item list \<times> bool" where
  "run_step reads contextID s out =
     (case s of
        Status st \<Rightarrow> hand reads (Status_event st None) out
      | Complete_with_message t \<Rightarrow> hand reads (Status_event TS_completed (Some t)) out
      | Artifact p \<Rightarrow> hand reads (Artifact_event (length out) p) out
      | Chunked_artifact a b \<Rightarrow>
          (case hand reads (Artifact_event (length out) (Text_part a)) out of
             (out', False) \<Rightarrow> (out', False)
           | (out', True) \<Rightarrow> hand reads (Artifact_update (length out) (Text_part b) True) out')
      | Message_response t \<Rightarrow> hand reads (Message_event contextID t) out
      | Fail reason \<Rightarrow> hand reads (Error_item reason) out
      | Hold \<Rightarrow> (out, True))"

text \<open>A sequence stops after a step that may not go on, or once the context is cancelled.\<close>

fun run_steps :: "(nat \<Rightarrow> bool) \<Rightarrow> (nat \<Rightarrow> bool) \<Rightarrow> string \<Rightarrow> tck_step list \<Rightarrow> tck_item list \<Rightarrow> tck_item list" where
  "run_steps reads cancelled contextID [] out = out"
| "run_steps reads cancelled contextID (s # ss) out =
     (case run_step reads contextID s out of
        (out', ok) \<Rightarrow> if \<not> ok \<or> cancelled (length ss) then out' else run_steps reads cancelled contextID ss out')"

text \<open>The message, if there is one, with its identifier; \<open>stored\<close> tells whether the task exists.\<close>

definition Execute_tck :: "(nat \<Rightarrow> bool) \<Rightarrow> (nat \<Rightarrow> bool) \<Rightarrow> string \<Rightarrow> string option \<Rightarrow> bool \<Rightarrow> tck_item list" where
  "Execute_tck reads cancelled contextID message stored =
     (case message of
        None \<Rightarrow> [Error_item ''message is required'']
      | Some messageID \<Rightarrow>
          (let sc = match_scenario messageID in
           if \<not> sc_messageOnly sc \<and> \<not> stored then
             (case hand reads Submitted [] of
                (out, False) \<Rightarrow> out
              | (out, True) \<Rightarrow> run_steps reads cancelled contextID (sc_run sc) out)
           else run_steps reads cancelled contextID (sc_run sc) []))"

definition Cancel_tck :: "tck_item list" where
  "Cancel_tck = [Status_event TS_canceled None]"

section \<open>Properties\<close>

definition shadow_free :: "string list \<Rightarrow> bool" where
  "shadow_free ps = list_all (\<lambda>i. list_all (\<lambda>j. \<not> has_prefix (ps ! j) (ps ! i)) [Suc i..<length ps]) [0..<length ps]"

lemma scenarios_shadow_free: "shadow_free (map sc_prefix scenarios)"
  by code_simp

text \<open>
  The order of the scenario table is right: the scenario chosen for a message is the one with
  the longest prefix of its identifier in the table, so no entry hides another.
\<close>

theorem tck_longest_prefix:
  assumes "sc \<in> set scenarios" "has_prefix messageID (sc_prefix sc)"
  shows "match_scenario messageID \<in> set scenarios \<and> has_prefix messageID (sc_prefix (match_scenario messageID)) \<and>
    length (sc_prefix sc) \<le> length (sc_prefix (match_scenario messageID))"
proof -
  let ?P = "\<lambda>sc. has_prefix messageID (sc_prefix sc)"
  have "List.find ?P scenarios \<noteq> None" using assms by (auto simp: find_None_iff)
  then obtain m where m: "List.find ?P scenarios = Some m" by blast
  then obtain i where i: "i < length scenarios" "?P (scenarios ! i)" "m = scenarios ! i" "\<And>j. j < i \<Longrightarrow> \<not> ?P (scenarios ! j)"
    by (auto simp: find_Some_iff)
  obtain j where j: "j < length scenarios" "sc = scenarios ! j" using assms(1) by (auto simp: in_set_conv_nth)
  have "length (sc_prefix sc) \<le> length (sc_prefix m)"
  proof (cases "i = j")
    case False
    then have "i < j" using i(4) j assms(2) by (metis linorder_neqE_nat)
    then have "\<not> has_prefix (sc_prefix sc) (sc_prefix m)"
      using scenarios_shadow_free i(1,3) j unfolding shadow_free_def list_all_iff by force
    moreover have "prefix (sc_prefix sc) messageID" "prefix (sc_prefix m) messageID"
      using assms(2) i(2,3) by (auto simp: has_prefix_iff prefix_def)
    ultimately show ?thesis
      by (metis has_prefix_iff prefix_def prefix_length_le prefix_same_cases)
  qed (use i j in simp)
  then show ?thesis using m i by (simp add: match_scenario_def)
qed

theorem tck_longest_prefix_witness:
  "sc_prefix (match_scenario ''tck-artifact-file-url-7'') = ''tck-artifact-file-url'' \<and> length ''tck-artifact-file'' \<le> length (sc_prefix (match_scenario ''tck-artifact-file-url-7''))"
proof -
  let ?sc = "task_scenario ''tck-artifact-file'' [Artifact filePart, Status TS_completed]"
  have s: "?sc \<in> set scenarios" by (simp add: scenarios_def)
  have p: "sc_prefix ?sc = ''tck-artifact-file''" by (simp add: task_scenario_def)
  have "has_prefix ''tck-artifact-file-url-7'' (sc_prefix ?sc)" by code_simp
  from tck_longest_prefix [OF s this] have "length ''tck-artifact-file'' \<le> length (sc_prefix (match_scenario ''tck-artifact-file-url-7''))"
    unfolding p by blast
  moreover have "sc_prefix (match_scenario ''tck-artifact-file-url-7'') = ''tck-artifact-file-url''" by code_simp
  ultimately show ?thesis by blast
qed

end
