(* ===== verification/Tck_Main.thy ===== *)
theory Tck_Main
  imports Tck Go_Flag Bridge_Start
begin

text \<open>
  The main function of cmd/a2abridge-tck/main.go: flags, the time of the resubscribe scenario, the
  card, the server and its end.  Reading a decimal and scaling it to a duration are parameters: the
  code computes them in floating point.

  Shown: the order of the checks and what each exit code means.
\<close>

record 'f seconds_format =
  sf_parse :: "string \<Rightarrow> 'f option"
  sf_positive :: "'f \<Rightarrow> bool"
  sf_scaled :: "'f \<Rightarrow> duration"
  sf_default :: 'f

definition resubscribeHold :: "'f seconds_format \<Rightarrow> string \<Rightarrow> duration option" where
  "resubscribeHold sf raw =
     (if raw = [] then Some (sf_scaled sf (sf_default sf))
      else (case sf_parse sf raw of
              None \<Rightarrow> None
            | Some v \<Rightarrow> if sf_positive sf v then Some (sf_scaled sf v) else None))"

definition tck_flags :: "(string \<Rightarrow> string) \<Rightarrow> flag_set" where
  "tck_flags getenv = [(''addr'', Str_val (envOr getenv ''SUT_HOST'' ''127.0.0.1:9999''))]"

definition tck_card :: "string \<Rightarrow> string \<Rightarrow> bridge_card" where
  "tck_card version baseURL =
     \<lparr>bc_name = ''a2abridge TCK System Under Test'',
      bc_description = ''a2abridge HTTP stack with the A2A TCK scenario executor'',
      bc_interfaces = [(baseURL, JSONRPC_transport), (baseURL, HTTPJSON_transport)],
      bc_version = version, bc_streaming = True, bc_push = True,
      bc_inputModes = [''text/plain''], bc_outputModes = [''text/plain''],
      bc_skills = [\<lparr>as_id = ''tck'', as_name = ''TCK Conformance'', as_description = ''Handles TCK conformance test messages'',
                    as_tags = [''tck'']\<rparr>],
      bc_provider = (''a2abridge'', ''https://github.com/vbcherepanov/a2abridge'')\<rparr>"

text \<open>The world: the environment, listening (the bound address), the surface of a card, and how serving ends.\<close>

datatype serve_end = Signalled | Serve_closed | Serve_failed

record 'f tck_world =
  tw_getenv :: "string \<Rightarrow> string"
  tw_seconds :: "'f seconds_format"
  tw_listen :: "string \<Rightarrow> string option"
  tw_version :: string
  tw_surface :: "bridge_card \<Rightarrow> a2a_surface"
  tw_end :: serve_end

text \<open>The exit code, with the card and the hold time of the server that ran and whether the queues were closed.\<close>

record tck_server =
  tk_card :: bridge_card
  tk_holdFor :: duration
  tk_drained :: bool

definition tck_run :: "'f tck_world \<Rightarrow> string list \<Rightarrow> int \<times> tck_server option" where
  "tck_run w args =
     with_flags (tck_flags (tw_getenv w)) args (\<lambda>c. (c, None)) (\<lambda>v.
       case resubscribeHold (tw_seconds w) (tw_getenv w ''TCK_STREAMING_TIMEOUT'') of
         None \<Rightarrow> (2, None)
       | Some holdFor \<Rightarrow>
           (case tw_listen w (str_flag ''addr'' v) of
              None \<Rightarrow> (1, None)
            | Some bound \<Rightarrow>
                (let card = tck_card (tw_version w) (''http://'' @ bound) in
                 case NewA2AHTTPHandler ((tw_surface w card)\<lparr>sf_streaming := bc_streaming card\<rparr>) of
                   None \<Rightarrow> (1, None)
                 | Some handler \<Rightarrow>
                     (if tw_end w = Serve_failed then 1 else 0,
                      Some \<lparr>tk_card = card, tk_holdFor = holdFor, tk_drained = (tw_end w \<noteq> Serve_failed)\<rparr>))))"

text \<open>
  A server ran exactly when the flags and the hold time were understood, the address could be bound
  and the handler built; it advertises the bound address; and its queues were drained exactly when
  the exit code is 0.
\<close>

theorem tck_run_spec:
  "case tck_run w args of
     (code, None) \<Rightarrow> code \<in> {0, 1, 2} \<and> (code = 0 \<longleftrightarrow> parse_flags (tck_flags (tw_getenv w)) args = Inl ErrHelp)
   | (code, Some sv) \<Rightarrow> (code = 0 \<longleftrightarrow> tk_drained sv) \<and> code \<in> {0, 1} \<and>
       (\<exists>v pos bound. parse_flags (tck_flags (tw_getenv w)) args = Inr (v, pos) \<and> tw_listen w (str_flag ''addr'' v) = Some bound \<and>
          map fst (bc_interfaces (tk_card sv)) = [''http://'' @ bound, ''http://'' @ bound])"
proof (cases "parse_flags (tck_flags (tw_getenv w)) args")
  case (Inl e)
  then show ?thesis by (simp add: tck_run_def with_flags_def)
next
  case (Inr r)
  obtain v pos where r: "r = (v, pos)" by (cases r)
  then show ?thesis
    using Inr
    by (auto simp: tck_run_def with_flags_def tck_card_def Let_def simp del: str_flag.simps split: option.split)
qed

end
