(* ===== verification/Spec2Isabelle.thy ===== *)
theory Spec2Isabelle
  imports Durable_Inbox Bridge_Run Commands Tool_Table Error_Body Mdns Tck_Main
begin

text \<open>
  a2abridge connects AI coding agents over the A2A protocol.  This library models its Go sources
  and proves what they promise.

  \<^bold>\<open>The program.\<close>  One \<^emph>\<open>bridge\<close> runs beside every coding agent.  To its host it is an MCP
  server with a handful of tools; to other bridges it is an HTTP server with two bindings of A2A.
  A message of a peer becomes a task and an inbox entry, an execution waits for the host's
  answer, and the answer goes back as the result of the task; a message to a peer is
  tracked until its reply is in the inbox.  A \<^emph>\<open>directory\<close> daemon tells bridges of each other.  Around
  this are the commands that install, check, update and remove the program.

  \<^bold>\<open>Ground.\<close>
  \<^item> \<open>Go_Prelude\<close>: the \<open>strings\<close> and \<open>strconv\<close> functions the sources use, with the lemmas collected in
    \<open>go_str\<close>; \<open>Go_Time\<close>: instants, durations and RFC 3339 texts; \<open>Go_Utf8\<close>, \<open>Go_Base64\<close>: the codecs;
    \<open>Go_Json\<close>: values, the parser with its depth limit and the two printers, with the round trip; \<open>Go_Net\<close>:
    addresses and HTTP answers; \<open>A2A_Types\<close>: tasks, events and what is relied on of the A2A SDK.
  \<^item> Strings are byte lists as in Go.  A map of Go is a partial function, or an association list where its
    order is visible.  Counters are 64-bit words (\<open>Metrics\<close>).  Errors are values of a sum or an option.
    System calls take their outcome from a record, so that each failure is a branch.

  \<^bold>\<open>The agent\<close> (src/internal/agent).
  \<^item> \<open>Inbox_Store\<close> (store.go): inbox, outgoing tasks and snapshot file.  \<open>Store_Steps\<close> makes each critical
    section one step of a relation: in every reachable state the inbox is bounded and without
    duplicates, a reply is announced at most once, and \<open>PollOutgoing\<close> with its unlocked fetches refines
    the steps.  \<open>Durable_Inbox\<close> takes whole histories, with restarts, failing disks and the prompt hook that
    empties the file: the store with its file refines a mailbox of two lists, and a restart gives the
    inbox back; below, a bridge that comes up again on its state directory has the inbox of the one before it.
  \<^item> \<open>Executor\<close> (executor.go): an execution as its atomic regions, with waiters, replies and
    cancellation interleaved: the lifecycle of the events, the waiter table, completion after an answer.
  \<^item> \<open>Task_Store\<close> (taskstore.go, utc.go): optimistic updates, eviction, paging that shows every
    task once.  The store's contract is a locale, interpreted on the model.
  \<^item> \<open>Protocol_Guard\<close> (guard.go, cardcache.go): what stands before the SDK in both bindings, and card caching.
    \<open>Error_Body\<close>: the bodies of its errors, which clients read back.  \<open>A2A_Server\<close> (server.go): body limit, routes and guards together; what reaches the SDK has been checked.
  \<^item> \<open>Push_Sender\<close>, \<open>Push_Queue\<close> (push.go): one delivery with retries and dial guard, and the queues
    and workers as a step relation: order, no lost event, bounded draining.
  \<^item> \<open>Mcp_Tools\<close> (mcp.go): the tool handlers over the parts above: no secret leaves, agents
    are discovered.  \<open>Tool_Table\<close> (mcp.go, peers.go): the tools by name; their handlers check what the table
    requires.  \<open>Responder\<close> (responder.go, nudger.go, userhooks.go): the headless answers and the
    wake-ups.

  \<^bold>\<open>Security\<close> (src/internal/security).  \<open>Pii_Screen\<close> (pii.go): the patterns with their languages; the
  screened text contains no match.  \<open>Federation\<close> (tls.go, cli/cert.go): the TLS configurations and the peer
  check; certificates to files.

  \<^bold>\<open>Discovery.\<close>  \<open>Directory\<close> (src/internal/directory/registry.go): which agents are listed after any history.  \<open>Mdns\<close>
  (src/internal/mdns/mdns.go): what is published is found.

  \<^bold>\<open>Commands\<close> (src/internal/cli and what they use).
  \<^item> \<open>Bridge_Start\<close> (bridge.go): \<open>RunBridge\<close> up to the running bridge, which composes store, hook, TLS,
    push guard and handler: when it defers to another bridge, and that a federated bridge is closed to
    strangers.  \<open>Bridge_Run\<close> (bridge.go, pdeathsig_linux.go, \<open>Heartbeat\<close> of mcp.go) is the running bridge: its
    goroutines, a clock and the directory as one step relation.  It ends within six seconds of its host,
    its shutdown cannot get stuck, it stays listed while no two heartbeats in a row are lost, and it can
    exit before it is unregistered.
  \<^item> \<open>Jsonc\<close>, \<open>Ide_Config\<close>, \<open>Ide_Writers\<close> (src/internal/ideconfig): comments and trailing commas, the transaction on
    a configuration file, the seven editors.  The two passes over the text, and the three edits of a
    configuration, share a locale each; the transaction never damages a file, and installing is
    idempotent, keeps other settings and is undone by uninstalling.
  \<^item> \<open>Installer\<close> (install.go, uninstall.go, doctor.go, src/internal/assets): the commands on top of these.
  \<^item> \<open>Updater\<close> (update.go, src/internal/buildinfo): only a verified binary is put in place, versions are
    ordered, no downgrade.
  \<^item> \<open>Service\<close> (service.go, directory.go), \<open>Cli\<close> (cli.go, version.go, completion.go, worker.go): the supervisor
    unit, the texts of the dispatcher, the completion scripts, the tmux worker.
  \<^item> \<open>Go_Flag\<close>, \<open>Commands\<close> (src/cmd/a2abridge and the flags of every command): package flag, and the program
    from its arguments to the changed machine: what is not understood, and a dry run, touch nothing; the
    installed unit starts the daemon; a flag behind a plain argument is not seen.
  \<^item> \<open>Tck\<close>, \<open>Tck_Main\<close> (src/cmd/a2abridge-tck): the scripted agent of the conformance suite and its main function.

  \<^bold>\<open>Loops and bounds.\<close>  No model uses fuel: every loop is a function with a termination proof.  The
  retries of a delivery and the attempts to bind are counted, the poll for a tmux pane is measured in
  milliseconds, parsers consume their input.  The bounds that are proved (500 inbox entries, five
  attempts in 28 seconds, eleven attempts in three seconds, twenty polls, 10 MiB, six seconds of
  shutdown, 70 of the directory's 90 seconds) are the constants of the code.

  \<^bold>\<open>Parameters.\<close>  Code outside the repository is an argument: the A2A SDK and its wire codec, the
  MCP library, \<open>url.Parse\<close>, SHA-256, X.509 and the TLS handshake, the TOML, tar and zip formats, the
  supervisor and mDNS libraries, HTTP transports, and the processes that are started.  Each hypothesis on
  one of them is stated in the theorem that needs it and met in its witness.

  \<^bold>\<open>Not modelled.\<close>  Log output, printed progress and usage texts, the descriptions of the tools; the
  messages inside error bodies; the embedded files; percent escapes in request paths; \<open>filepath.Join\<close> is taken on parts
  that are already clean; floating-point seconds; the release of network clients; which error code of a
  platform means that an address is in use.
\<close>

section \<open>A restart of the bridge\<close>

lemma open_log_keeps: "fs p = Some n \<Longrightarrow> open_log h ok dir fs p = Some n"
  by (auto simp: open_log_def Let_def)

lemma bridge_store_of:
  assumes "RunBridge w fl fs = (Inr b, fs')"
  shows "\<exists>fs1. resolveStateDir (bw_host w) (bw_state w) (bf_stateDir fl) fs = (Some (br_stateDir b), fs1) \<and>
    inbox (br_store b) = inbox (bridge_store w (br_stateDir b) (open_log (bw_host w) (bw_log w) (br_stateDir b) fs1))"
proof -
  obtain dir fs1 port where r: "resolveStateDir (bw_host w) (bw_state w) (bf_stateDir fl) fs = (Some dir, fs1)"
      "bridge_up w fl dir port (open_log (bw_host w) (bw_log w) dir fs1) = (Inr b, fs')"
    using assms by (auto simp: RunBridge_def Let_def split: prod.splits option.splits sum.splits)
  have "br_stateDir b = dir" "inbox (br_store b) = inbox (bridge_store w dir (open_log (bw_host w) (bw_log w) dir fs1))"
    using r(2) by (auto simp: bridge_up_def Let_def split: prod.splits option.splits sum.splits)
  then show ?thesis using r(1) by blast
qed

text \<open>
  C14. Delivery survives a restart: when a bridge that persisted its inbox under its state
  directory is followed by one that comes up on the same directory, the new bridge has the whole
  inbox in order, every field that the snapshot carries unchanged (\<open>Kind\<close> and \<open>State\<close> are not in it).
  Nothing of the start in between, the state directory, its \<open>.gitignore\<close> and the log, touches the
  snapshot.
\<close>

theorem bridge_restart_restores:
  assumes "RunBridge w fl fs = (Inr b, fs')" "bw_codec w = snapshot_json" "disk_io.read_ok (bw_disk w)"
    and "inbox_ok (inbox s)" "\<forall>e \<in> set (inbox s). entry_valid e"
    and "inboxPath s = path_join (bw_host w) [br_stateDir b, ''inbox.json'']" "write_tmp io = Write_ok" "rename_ok io"
    and "disk (persistInboxLocked snapshot_json io s) (inboxPath s) = Some data" "fs (inboxPath s) = Some (Plain data mode)"
    and "\<And>cwd name. si_cwd (bw_state w) = Some cwd \<Longrightarrow> si_probe (bw_state w) = Some (name, False) \<Longrightarrow>
      fs (path_join (bw_host w) [cwd, name]) = None"
  shows "inbox (br_store b) = map forget_kind (inbox s)"
proof -
  obtain fs1 where r: "resolveStateDir (bw_host w) (bw_state w) (bf_stateDir fl) fs = (Some (br_stateDir b), fs1)"
      "inbox (br_store b) = inbox (bridge_store w (br_stateDir b) (open_log (bw_host w) (bw_log w) (br_stateDir b) fs1))"
    using bridge_store_of [OF assms(1)] by blast
  have "fs1 (inboxPath s) = Some (Plain data mode)" using state_dir_safe [OF r(1) assms(11)] assms(10) by blast
  then have p: "open_log (bw_host w) (bw_log w) (br_stateDir b) fs1 (inboxPath s) = Some (Plain data mode)" by (rule open_log_keeps)
  have "inboxPath s \<noteq> []" unfolding assms(6) by (simp add: path_join_def)
  then show ?thesis unfolding r(2) bridge_store_def assms(2)
    by (rule load_after_persist [OF assms(4,5) _ assms(7,8,3)]) (use p assms(6,9) in \<open>simp_all add: NewStore_def plain_files_def\<close>)
qed


lemma state_fs:
  "fst (resolveStateDir (bw_host (world0 env listen)) (bw_state (world0 env listen)) (bf_stateDir flags0) [''/s/inbox.json'' \<mapsto> Plain d m]) = Some ''/s''"
proof -
  have a: "ancestors (CHR ''/'') ''/s'' = [''/s'']" by code_simp
  show ?thesis
    by (simp add: world0_def flags0_def resolveStateDir_def io_ok_def sep_def a os_mkdir_all_def not_plain_def make_dirs_def with_ignore_def
        ensureStateGitignore_def path_join_def os_write_def Let_def split: prod.split)
qed

lemma plain_bridge_runs:
  "\<exists>b fs'. RunBridge (world0 (\<lambda>_. []) (\<lambda>_. Bound 80)) flags0 [''/s/inbox.json'' \<mapsto> Plain d m] = (Inr b, fs') \<and> br_stateDir b = ''/s''"
proof -
  let ?w = "world0 (\<lambda>_. []) (\<lambda>_. Bound 80)"
  obtain fs1 where s: "resolveStateDir (bw_host ?w) (bw_state ?w) (bf_stateDir flags0) [''/s/inbox.json'' \<mapsto> Plain d m] = (Some ''/s'', fs1)"
    using state_fs [of "\<lambda>_. []" "\<lambda>_. Bound 80" d m] by (metis prod.collapse)
  have p: "fst (bind_loop (bw_listen ?w) 0) = Inr 80" by (simp add: world0_def bind_loop.simps)
  have e: "\<not> Enabled (FromEnv (\<lambda>_. []))" by code_simp
  have "\<exists>b fs'. bridge_up ?w flags0 ''/s'' 80 fs = (Inr b, fs') \<and> br_stateDir b = ''/s''" for fs
    using e by (simp add: bridge_up_def world0_def choose_hook_def ClientTLSConfig_def NewA2AHTTPHandler_def surface0_def Let_def)
  then show ?thesis unfolding RunBridge_def s prod.case option.case Let_def p sum.case by simp
qed

theorem bridge_restart_restores_witness:
  "\<exists>data b fs'. RunBridge (world0 (\<lambda>_. []) (\<lambda>_. Bound 80)) flags0 [''/s/inbox.json'' \<mapsto> Plain data 384] = (Inr b, fs') \<and>
     inbox (br_store b) = [hello]"
proof -
  let ?w = "world0 (\<lambda>_. []) (\<lambda>_. Bound 80)" and ?s = "NewStore\<lparr>inboxPath := ''/s/inbox.json'', inbox := [hello]\<rparr>"
  have v: "inbox_ok (inbox ?s)" "\<forall>e \<in> set (inbox ?s). entry_valid e" "map forget_kind (inbox ?s) = [hello]"
    by (simp_all add: inbox_ok_def inboxSoftCap_def entry_valid_def forget_kind_def hello_def valid_utf8_ascii byte_of_def)
  have w: "bw_codec ?w = snapshot_json" "disk_io.read_ok (bw_disk ?w)" "write_tmp io0 = Write_ok" "rename_ok io0"
      "si_probe (bw_state ?w) = None" by (simp_all add: world0_def io0_def io_ok_def)
  obtain data where d: "disk (persistInboxLocked snapshot_json io0 ?s) (inboxPath ?s) = Some data"
    using snap.persist_writes [OF _ w(3,4), of ?s] by auto
  obtain b fs' where b: "RunBridge ?w flags0 [''/s/inbox.json'' \<mapsto> Plain data 384] = (Inr b, fs')" "br_stateDir b = ''/s''"
    using plain_bridge_runs by blast
  have p: "inboxPath ?s = path_join (bw_host ?w) [br_stateDir b, ''inbox.json'']"
    by (simp add: b(2) world0_def path_join_def sep_def)
  have "inbox (br_store b) = map forget_kind (inbox ?s)"
    by (rule bridge_restart_restores [OF b(1) w(1,2) v(1,2) p w(3,4) d]) (use w(5) in simp_all)
  then show ?thesis using b(1) v(3) by metis
qed

end
